(* ===== verification/Carrot_Prelude.thy ===== *)
theory Carrot_Prelude
  imports Main "HOL-Library.Word"
begin

section \<open>Shared types, faults, memory blocks and machine words\<close>

text \<open>
  The vocabulary every other theory of the development uses.
  \<^item> \<open>fault\<close> and \<open>'a res\<close>: a C++ operation either has undefined behaviour (an access
    outside an allocated block, a null dereference), or never returns, or it returns.
    All three are values here, so that a theorem can say which of them happens.
  \<^item> \<open>block\<close>: the bytes of one heap block, with bounds-checked access.
  \<^item> \<open>u32_be\<close>, \<open>be_u32\<close>: the four bytes of a 32-bit word, most significant first.
  \<^item> \<open>named_theorems\<close> collections: \<open>mem_simps\<close> for the memory operations and
    \<open>res_simps\<close> for sequencing with faults.
\<close>

named_theorems mem_simps \<open>facts on bounds-checked memory access\<close>
named_theorems res_simps \<open>facts on sequencing of operations that can fault\<close>

subsection \<open>Types\<close>

type_synonym byte = "8 word"
type_synonym u32 = "32 word"
type_synonym u64 = "64 word"
type_synonym block = "byte list"

subsection \<open>Operations that can fault\<close>

text \<open>
  \<open>OutOfBounds\<close>: an access outside the block a pointer refers to. \<open>NullDeref\<close>: an access
  or a member call through a null pointer. \<open>Hang\<close>: the operation never returns.
\<close>

datatype fault = OutOfBounds | NullDeref | Hang

type_synonym 'a res = "fault + 'a"

definition and_then :: "'a res \<Rightarrow> ('a \<Rightarrow> 'b res) \<Rightarrow> 'b res" where
  "and_then m f = (case m of Inl e \<Rightarrow> Inl e | Inr a \<Rightarrow> f a)"

lemma and_then_simps [simp, res_simps]:
  "and_then (Inl e) f = Inl e"
  "and_then (Inr a) f = f a"
  by (simp_all add: and_then_def)

lemma and_then_eq_Inr_iff [res_simps]:
  "and_then m f = Inr b \<longleftrightarrow> (\<exists>a. m = Inr a \<and> f a = Inr b)"
  by (cases m) simp_all

lemma and_then_eq_Inl_iff [res_simps]:
  "and_then m f = Inl e \<longleftrightarrow> m = Inl e \<or> (\<exists>a. m = Inr a \<and> f a = Inl e)"
  by (cases m) simp_all

lemma and_then_cong [fundef_cong]:
  "m = m' \<Longrightarrow> (\<And>a. m' = Inr a \<Longrightarrow> f a = g a) \<Longrightarrow> and_then m f = and_then m' g"
  by (cases m') simp_all

lemma map_sum_and_then: "map_sum id h (and_then m f) = and_then m (\<lambda>a. map_sum id h (f a))"
  by (cases m) simp_all

text \<open>The object a pointer refers to; dereferencing null is a fault.\<close>

definition deref :: "'a option \<Rightarrow> 'a res" where
  "deref q = (case q of None \<Rightarrow> Inl NullDeref | Some x \<Rightarrow> Inr x)"

lemma deref_simps [simp, res_simps]:
  "deref None = Inl NullDeref"
  "deref (Some x) = Inr x"
  by (simp_all add: deref_def)

lemma deref_eq_iff [res_simps]:
  "deref q = Inr x \<longleftrightarrow> q = Some x"
  "deref q = Inl e \<longleftrightarrow> q = None \<and> e = NullDeref"
  by (auto simp: deref_def split: option.splits)

subsection \<open>Bounds-checked access to a block\<close>

definition store_at :: "nat \<Rightarrow> byte list \<Rightarrow> block \<Rightarrow> block res" where
  "store_at off bs b =
     (if off + length bs \<le> length b
      then Inr (take off b @ bs @ drop (off + length bs) b)
      else Inl OutOfBounds)"

definition load_at :: "nat \<Rightarrow> nat \<Rightarrow> block \<Rightarrow> byte list res" where
  "load_at off n b =
     (if off + n \<le> length b then Inr (take n (drop off b)) else Inl OutOfBounds)"

lemma store_at_length [mem_simps]:
  "store_at off bs b = Inr b' \<Longrightarrow> length b' = length b"
  by (auto simp: store_at_def split: if_splits)

lemma store_at_ok [mem_simps]:
  "off + length bs \<le> length b \<Longrightarrow>
   store_at off bs b = Inr (take off b @ bs @ drop (off + length bs) b)"
  by (simp add: store_at_def)

lemma store_at_eq_Inl_iff [mem_simps]:
  "store_at off bs b = Inl e \<longleftrightarrow> length b < off + length bs \<and> e = OutOfBounds"
  by (auto simp: store_at_def)

lemma load_at_ok [mem_simps]:
  "off + n \<le> length b \<Longrightarrow> load_at off n b = Inr (take n (drop off b))"
  by (simp add: load_at_def)

lemma load_at_eq_Inl_iff [mem_simps]:
  "load_at off n b = Inl e \<longleftrightarrow> length b < off + n \<and> e = OutOfBounds"
  by (auto simp: load_at_def)

lemma load_at_length [mem_simps]:
  "load_at off n b = Inr bs \<Longrightarrow> length bs = n"
  by (auto simp: load_at_def split: if_splits)

lemma load_store_same [mem_simps]:
  "store_at off bs b = Inr b' \<Longrightarrow> load_at off (length bs) b' = Inr bs"
  by (auto simp: store_at_def load_at_def split: if_splits)

lemma load_store_below [mem_simps]:
  assumes "store_at off bs b = Inr b'" and "o' + n \<le> off"
  shows "load_at o' n b' = load_at o' n b"
  using assms by (auto simp: store_at_def load_at_def take_drop min_def split: if_splits)

lemma load_at_app:
  "load_at (length xs) (length ys) (xs @ ys @ zs) = Inr ys"
  by (simp add: load_at_def)

subsection \<open>Bytes of a 32-bit word\<close>

definition u32_be :: "u32 \<Rightarrow> byte list" where
  "u32_be w = [ucast (drop_bit 24 w), ucast (drop_bit 16 w), ucast (drop_bit 8 w), ucast w]"

fun be_u32 :: "byte list \<Rightarrow> u32" where
  "be_u32 [a, b, c, d] =
     or (push_bit 24 (ucast a)) (or (push_bit 16 (ucast b)) (or (push_bit 8 (ucast c)) (ucast d)))"
| "be_u32 _ = 0"

lemma bit_byte_beyond [simp]:
  "\<not> bit (b :: byte) (8 + n)" "\<not> bit (b :: byte) (16 + n)" "\<not> bit (b :: byte) (24 + n)"
  by (auto dest!: bit_imp_le_length)

lemma length_u32_be [simp]: "length (u32_be w) = 4"
  by (simp add: u32_be_def)

lemma be_u32_u32_be [simp]: "be_u32 (u32_be w) = w"
proof (rule bit_word_eqI)
  fix n :: nat
  assume "n < LENGTH(32)"
  then consider "n < 8" | "8 \<le> n" "n < 16" | "16 \<le> n" "n < 24" | "24 \<le> n" "n < 32"
    by fastforce
  then show "bit (be_u32 (u32_be w)) n = bit w n"
    by cases (auto simp: u32_be_def bit_simps)
qed

lemma u32_be_be_u32: "length bs = 4 \<Longrightarrow> u32_be (be_u32 bs) = bs"
proof -
  assume "length bs = 4"
  then obtain a b c d where bs: "bs = [a, b, c, d]"
    by (auto simp: numeral_eq_Suc length_Suc_conv)
  show ?thesis
    unfolding bs u32_be_def
    by (auto intro!: bit_word_eqI simp: bit_simps)
qed

lemma u32_be_inject: "u32_be a = u32_be b \<longleftrightarrow> a = b"
  by (metis be_u32_u32_be)

subsection \<open>Conversions between word widths\<close>

lemma unat_ucast_u32_u64 [simp]: "unat (ucast (w :: u32) :: u64) = unat w"
  by (simp add: unsigned_ucast_eq take_bit_nat_eq_self less_le_trans [OF unsigned_less])

lemma unat_ucast_byte_u32 [simp]: "unat (ucast (b :: byte) :: u32) = unat b"
  by (simp add: unsigned_ucast_eq take_bit_nat_eq_self less_le_trans [OF unsigned_less])

lemma ucast_byte_u32_inject [simp]: "(ucast (a :: byte) :: u32) = ucast b \<longleftrightarrow> a = b"
  by (metis unat_ucast_byte_u32 word_unat_eq_iff)

lemma unat_u32_less [simp]: "unat (w :: u32) < 4294967296"
  using unsigned_less [of w] by simp

lemma unat_of_nat_u32 [simp]: "n < 4294967296 \<Longrightarrow> unat (of_nat n :: u32) = n"
  by (simp add: unat_of_nat)

end
