(* ===== verification/Packet.thy ===== *)
theory Packet
  imports Carrot_Prelude
begin

section \<open>The packet header of src/src/common/packet.h\<close>

text \<open>
  \<open>struct packet\<close> is three \<open>uint32_t\<close> fields followed by the flexible array member
  \<open>data\<close>; the code reads and writes it through a \<open>packet*\<close> that refers to a heap block
  it sized itself, so a packet is a \<open>block\<close> here and each field an access at its offset,
  checked against the block's length. Field values are host-order words; \<open>htonl\<close> and
  \<open>ntohl\<close> depend on the host's byte order, which is a field of \<open>machine\<close>. The lemmas
  show that the bytes on the wire do not depend on it.
\<close>

subsection \<open>The machine the program runs on\<close>

text \<open>
  \<open>little_endian\<close>: the host's byte order. \<open>can_alloc n\<close>: whether the allocator can serve a
  request of \<open>n\<close> bytes. \<open>junk i\<close>: the indeterminate content of byte \<open>i\<close> of a fresh block.
  \<open>junk_u32\<close>, \<open>junk_callback\<close>: the indeterminate content of uninitialised members.
  \<open>strerror\<close>: the C library's message for an error number.
\<close>

record machine =
  little_endian :: bool
  can_alloc :: "nat \<Rightarrow> bool"
  junk :: "nat \<Rightarrow> byte"
  junk_u32 :: u32
  junk_callback :: "nat option"
  strerror :: "nat \<Rightarrow> string"

text \<open>Two machines with unlimited memory, one of each byte order, for the examples.\<close>

definition little_host :: machine where
  "little_host = \<lparr>little_endian = True, can_alloc = (\<lambda>_. True), junk = (\<lambda>_. 0),
     junk_u32 = 0, junk_callback = None, strerror = (\<lambda>_. [])\<rparr>"

definition big_host :: machine where
  "big_host = little_host\<lparr>little_endian := False\<rparr>"

lemma example_hosts [simp]:
  "little_endian little_host" "\<not> little_endian big_host"
  "can_alloc little_host n" "can_alloc big_host n"
  "junk_u32 little_host = 0" "junk_callback little_host = None"
  by (simp_all add: little_host_def big_host_def)

definition host_bytes :: "machine \<Rightarrow> u32 \<Rightarrow> byte list" where
  "host_bytes M w = (if little_endian M then rev (u32_be w) else u32_be w)"

definition host_word :: "machine \<Rightarrow> byte list \<Rightarrow> u32" where
  "host_word M bs = be_u32 (if little_endian M then rev bs else bs)"

definition htonl :: "machine \<Rightarrow> u32 \<Rightarrow> u32" where
  "htonl M w = (if little_endian M then be_u32 (rev (u32_be w)) else w)"

definition ntohl :: "machine \<Rightarrow> u32 \<Rightarrow> u32" where
  "ntohl M w = htonl M w"

lemma length_host_bytes [simp]: "length (host_bytes M w) = 4"
  by (simp add: host_bytes_def)

lemma host_word_host_bytes [simp]: "host_word M (host_bytes M w) = w"
  by (simp add: host_bytes_def host_word_def)

lemma host_bytes_htonl [simp]: "host_bytes M (htonl M w) = u32_be w"
  by (simp add: host_bytes_def htonl_def u32_be_be_u32)

lemma htonl_host_word: "length bs = 4 \<Longrightarrow> htonl M (host_word M bs) = be_u32 bs"
  by (simp add: host_word_def htonl_def u32_be_be_u32)

lemma ntohl_host_word [simp]: "ntohl M (host_word M (u32_be w)) = w"
  by (simp add: ntohl_def htonl_host_word)

lemma ntohl_htonl [simp]: "ntohl M (htonl M w) = w"
  by (metis host_bytes_htonl host_word_host_bytes ntohl_host_word)

subsection \<open>Layout\<close>

definition sizeof_packet :: nat where "sizeof_packet = 12"
definition off_rpc_len :: nat where "off_rpc_len = 0"
definition off_req_len :: nat where "off_req_len = 4"
definition off_resp_len :: nat where "off_resp_len = 8"
definition off_data :: nat where "off_data = 12"

lemmas packet_layout [simp] =
  sizeof_packet_def off_rpc_len_def off_req_len_def off_resp_len_def off_data_def

definition load_u32 :: "machine \<Rightarrow> nat \<Rightarrow> block \<Rightarrow> u32 res" where
  "load_u32 M off b = and_then (load_at off 4 b) (\<lambda>bs. Inr (host_word M bs))"

definition store_u32 :: "machine \<Rightarrow> nat \<Rightarrow> u32 \<Rightarrow> block \<Rightarrow> block res" where
  "store_u32 M off w b = store_at off (host_bytes M w) b"

text \<open>\<open>(p).f = g((p).f)\<close> for one of the header fields.\<close>

definition convert_field :: "machine \<Rightarrow> (u32 \<Rightarrow> u32) \<Rightarrow> nat \<Rightarrow> block \<Rightarrow> block res" where
  "convert_field M g off b = and_then (load_u32 M off b) (\<lambda>w. store_u32 M off (g w) b)"

definition CONVERT_TO_NETWORK_ORDER :: "machine \<Rightarrow> block \<Rightarrow> block res" where
  "CONVERT_TO_NETWORK_ORDER M b =
     and_then (convert_field M (htonl M) off_rpc_len b) (\<lambda>b.
     and_then (convert_field M (htonl M) off_req_len b) (\<lambda>b.
     convert_field M (htonl M) off_resp_len b))"

definition CONVERT_TO_HOST_ORDER :: "machine \<Rightarrow> block \<Rightarrow> block res" where
  "CONVERT_TO_HOST_ORDER M b =
     and_then (convert_field M (ntohl M) off_rpc_len b) (\<lambda>b.
     and_then (convert_field M (ntohl M) off_req_len b) (\<lambda>b.
     convert_field M (ntohl M) off_resp_len b))"

text \<open>The three assignments every sender makes, with the values it stores.\<close>

definition store_header :: "machine \<Rightarrow> u32 \<Rightarrow> u32 \<Rightarrow> u32 \<Rightarrow> block \<Rightarrow> block res" where
  "store_header M a b c blk =
     and_then (store_u32 M off_rpc_len a blk) (\<lambda>blk.
     and_then (store_u32 M off_req_len b blk) (\<lambda>blk.
     store_u32 M off_resp_len c blk))"

subsection \<open>Header contents\<close>

definition wire_header :: "u32 \<Rightarrow> u32 \<Rightarrow> u32 \<Rightarrow> byte list" where
  "wire_header a b c = u32_be a @ u32_be b @ u32_be c"

definition host_header :: "machine \<Rightarrow> u32 \<Rightarrow> u32 \<Rightarrow> u32 \<Rightarrow> byte list" where
  "host_header M a b c = host_bytes M a @ host_bytes M b @ host_bytes M c"

lemma length_headers [simp]:
  "length (wire_header a b c) = 12" "length (host_header M a b c) = 12"
  by (simp_all add: wire_header_def host_header_def)

lemma wire_header_inject:
  "wire_header a b c = wire_header a' b' c' \<longleftrightarrow> a = a' \<and> b = b' \<and> c = c'"
  by (simp add: wire_header_def append_eq_append_conv u32_be_inject)

lemma host_header_htonl [simp]:
  "host_header M (htonl M a) (htonl M b) (htonl M c) = wire_header a b c"
  by (simp add: host_header_def wire_header_def)

lemma load_u32_host_header [mem_simps, simp]:
  "load_u32 M 0 (host_header M a b c @ rest) = Inr a"
  "load_u32 M 4 (host_header M a b c @ rest) = Inr b"
  "load_u32 M 8 (host_header M a b c @ rest) = Inr c"
  by (simp_all add: load_u32_def load_at_def host_header_def)

lemma store_u32_host_header:
  "store_u32 M 0 w (host_header M a b c @ rest) = Inr (host_header M w b c @ rest)"
  "store_u32 M 4 w (host_header M a b c @ rest) = Inr (host_header M a w c @ rest)"
  "store_u32 M 8 w (host_header M a b c @ rest) = Inr (host_header M a b w @ rest)"
  by (simp_all add: store_u32_def store_at_def host_header_def)

text \<open>Every block long enough for a header has one: its first twelve bytes.\<close>

lemma block_host_header:
  assumes "12 \<le> length blk"
  obtains a b c where "blk = host_header M a b c @ drop 12 blk"
proof -
  define part where "part k = take 4 (drop k blk)" for k
  define h where "h k = (if little_endian M then be_u32 (rev (part k)) else be_u32 (part k))" for k
  have len: "length (part k) = 4" if "k \<le> 8" for k
    using assms that by (simp add: part_def)
  have h: "host_bytes M (h k) = part k" if "k \<le> 8" for k
    using len [OF that] by (simp add: h_def host_bytes_def u32_be_be_u32)
  have "blk = part 0 @ part 4 @ part 8 @ drop 12 blk"
    using append_take_drop_id [of 4 blk] append_take_drop_id [of 4 "drop 4 blk"]
      append_take_drop_id [of 4 "drop 8 blk"]
    by (simp add: part_def)
  then have "blk = host_header M (h 0) (h 4) (h 8) @ drop 12 blk"
    by (simp add: host_header_def h)
  then show ?thesis by (rule that)
qed

lemma store_header_ok [mem_simps]:
  assumes "12 \<le> length blk"
  shows "store_header M a b c blk = Inr (host_header M a b c @ drop 12 blk)"
proof -
  obtain x y z where "blk = host_header M x y z @ drop 12 blk"
    using assms by (rule block_host_header)
  then show ?thesis
    by (metis (no_types, lifting) and_then_simps(2) packet_layout(2,3,4) store_header_def
        store_u32_host_header)
qed

lemma store_header_short:
  "length blk < 12 \<Longrightarrow> store_header M a b c blk = Inl OutOfBounds"
  by (auto simp: store_header_def store_u32_def store_at_def and_then_def)

subsection \<open>The byte-order conversions are inverse and endianness-free on the wire\<close>

lemma convert_to_network:
  "CONVERT_TO_NETWORK_ORDER M (host_header M a b c @ rest) = Inr (wire_header a b c @ rest)"
  by (simp add: CONVERT_TO_NETWORK_ORDER_def convert_field_def store_u32_host_header)

lemma convert_to_host:
  "CONVERT_TO_HOST_ORDER M (wire_header a b c @ rest) = Inr (host_header M a b c @ rest)"
proof -
  have w: "wire_header a b c = host_header M (htonl M a) (htonl M b) (htonl M c)" by simp
  show ?thesis
    unfolding w
    by (simp add: CONVERT_TO_HOST_ORDER_def convert_field_def store_u32_host_header
        del: host_header_htonl)
qed

lemma block_wire_header:
  assumes "12 \<le> length blk"
  obtains a b c where "blk = wire_header a b c @ drop 12 blk"
proof -
  define M where "M = \<lparr>little_endian = False, can_alloc = (\<lambda>_. True), junk = (\<lambda>_. 0),
    junk_u32 = 0, junk_callback = None, strerror = (\<lambda>_. [])\<rparr>"
  obtain a b c where "blk = host_header M a b c @ drop 12 blk"
    using assms by (rule block_host_header)
  then show ?thesis
    by (intro that) (simp add: host_header_def wire_header_def host_bytes_def M_def)
qed

subsection \<open>Property\<close>

text \<open>
  A header survives the network between any two machines: what the sender stores and
  converts to network order is, converted to host order by the receiver, the same three
  lengths there, whatever the two byte orders are, and the bytes behind the header are not
  touched. A block too short for a header is written outside its bounds.
\<close>

theorem header_crosses_hosts:
  "and_then (and_then (store_header M1 a b c blk) (CONVERT_TO_NETWORK_ORDER M1))
     (CONVERT_TO_HOST_ORDER M2) =
   (if length blk < 12 then Inl OutOfBounds else Inr (host_header M2 a b c @ drop 12 blk))"
  by (simp add: store_header_ok store_header_short convert_to_network convert_to_host)

end
