(* ===== verification/Socket_IO.thy ===== *)
theory Socket_IO
  imports Packet "HOL-Library.Stream"
begin

section \<open>Blocking socket I/O and socket set-up: src/src/common/utils.cpp\<close>

text \<open>
  \<open>read_n\<close> and \<open>write_n\<close> loop over the system calls until the whole count is transferred.
  What the kernel will answer to the calls is the state of a \<open>sock\<close>: a script of chunks and
  errors for \<open>read\<close> (an exhausted script is end of file, for which \<open>read\<close> returns 0 and
  leaves \<open>errno\<close> alone) and one of accepted counts and errors for \<open>write\<close> (an exhausted
  script accepts everything; \<open>write_loop\<close> has a stream of answers instead, so that a kernel that
  interrupts every call can be expressed). The set-up functions take the answers of the calls they make
  as arguments.
\<close>

subsection \<open>The socket and the system calls\<close>

definition EINTR :: nat where "EINTR = 4"

datatype read_event = Chunk byte "byte list" | ReadErr nat
datatype write_event = Accept nat | WriteErr nat

record sock =
  inq :: "read_event list"
  outq :: "write_event list"
  sent :: "byte list"
  errno :: nat

definition sys_read :: "sock \<Rightarrow> nat \<Rightarrow> int \<times> byte list \<times> sock" where
  "sys_read s n =
     (case inq s of
        [] \<Rightarrow> (0, [], s)
      | ReadErr e # r \<Rightarrow> (-1, [], s\<lparr>inq := r, errno := e\<rparr>)
      | Chunk b bs # r \<Rightarrow>
          (if Suc (length bs) \<le> n then (int (Suc (length bs)), b # bs, s\<lparr>inq := r\<rparr>)
           else (int n, take n (b # bs),
                 s\<lparr>inq := (case drop n (b # bs) of [] \<Rightarrow> r | c # cs \<Rightarrow> Chunk c cs # r)\<rparr>)))"

definition sys_write :: "sock \<Rightarrow> byte list \<Rightarrow> int \<times> sock" where
  "sys_write s bs =
     (case outq s of
        [] \<Rightarrow> (int (length bs), s\<lparr>sent := sent s @ bs\<rparr>)
      | WriteErr e # r \<Rightarrow> (-1, s\<lparr>outq := r, errno := e\<rparr>)
      | Accept k # r \<Rightarrow>
          (let m = min k (length bs)
           in (int m, s\<lparr>outq := r, sent := sent s @ take m bs\<rparr>)))"

subsection \<open>read_n\<close>

text \<open>
  The loop of \<open>read_n\<close>. The accumulator holds the bytes already stored at \<open>buf\<close>, so its
  length is \<open>n0\<close>. The result is the return value, everything stored at \<open>buf\<close> (also when
  the call fails), and the socket; \<open>None\<close> means the loop never ends.
\<close>

partial_function (option) read_loop ::
  "sock \<Rightarrow> nat \<Rightarrow> byte list \<Rightarrow> (int \<times> byte list \<times> sock) option" where
  "read_loop s n acc =
     (if length acc < n then
        (case sys_read s (n - length acc) of (nread, bs, s') \<Rightarrow>
           if nread \<le> 0 then
             (if errno s' = EINTR then read_loop s' n acc else Some (-1, acc, s'))
           else read_loop s' n (acc @ bs))
      else Some (0, acc, s))"

definition read_n :: "sock \<Rightarrow> nat \<Rightarrow> (int \<times> byte list \<times> sock) res" where
  "read_n s n = (case read_loop s n [] of None \<Rightarrow> Inl Hang | Some r \<Rightarrow> Inr r)"

text \<open>
  What a reader can obtain: the bytes before the first error other than \<open>EINTR\<close> or the end
  of file; and the value of \<open>errno\<close> when that point is reached.
\<close>

fun incoming :: "read_event list \<Rightarrow> byte list" where
  "incoming [] = []"
| "incoming (Chunk b bs # r) = b # bs @ incoming r"
| "incoming (ReadErr e # r) = (if e = EINTR then incoming r else [])"

fun final_errno :: "read_event list \<Rightarrow> nat \<Rightarrow> nat" where
  "final_errno [] e0 = e0"
| "final_errno (Chunk b bs # r) e0 = final_errno r e0"
| "final_errno (ReadErr e # r) e0 = (if e = EINTR then final_errno r e else e)"

lemma read_loop_done: "n \<le> length acc \<Longrightarrow> read_loop s n acc = Some (0, acc, s)"
  by (simp add: read_loop.simps)

lemma read_loop_eof:
  assumes "length acc < n" and "inq s = []"
  shows "read_loop s n acc = (if errno s = EINTR then None else Some (-1, acc, s))"
proof (cases "errno s = EINTR")
  case True
  have "False" if "read_loop s n acc = Some r" for r
  proof -
    have "\<not> (length acc < n \<and> inq s = [] \<and> errno s = EINTR)"
      by (rule read_loop.raw_induct [OF _ that,
            where P = "\<lambda>s n acc r. \<not> (length acc < n \<and> inq s = [] \<and> errno s = EINTR)"])
        (auto simp: sys_read_def split: if_splits)
    with assms True show False by simp
  qed
  with True show ?thesis by (cases "read_loop s n acc") auto
next
  case False
  with assms show ?thesis by (subst read_loop.simps) (simp add: sys_read_def)
qed

lemma read_loop_err:
  assumes "length acc < n" and "inq s = ReadErr e # r"
  shows "read_loop s n acc =
    (if e = EINTR then read_loop (s\<lparr>inq := r, errno := e\<rparr>) n acc
     else Some (-1, acc, s\<lparr>inq := r, errno := e\<rparr>))"
  using assms by (subst read_loop.simps) (simp add: sys_read_def)

lemma read_loop_chunk:
  assumes "length acc < n" and "inq s = Chunk b bs # r"
  shows "read_loop s n acc =
    (if Suc (length acc + length bs) \<le> n then read_loop (s\<lparr>inq := r\<rparr>) n (acc @ b # bs)
     else Some (0, acc @ take (n - length acc) (b # bs),
            s\<lparr>inq := (case drop (n - length acc) (b # bs) of
                        [] \<Rightarrow> r | c # cs \<Rightarrow> Chunk c cs # r)\<rparr>))"
  using assms
  by (subst read_loop.simps) (auto simp: sys_read_def read_loop_done)

text \<open>The complete behaviour of \<open>read_n\<close>: what it returns, stores, and leaves to read.\<close>

lemma read_loop_success:
  assumes "n \<le> length acc + length (incoming (inq s))" and "length acc \<le> n"
  shows "\<exists>s'. read_loop s n acc = Some (0, acc @ take (n - length acc) (incoming (inq s)), s') \<and>
    incoming (inq s') = drop (n - length acc) (incoming (inq s)) \<and>
    final_errno (inq s') (errno s') = final_errno (inq s) (errno s) \<and>
    sent s' = sent s \<and> outq s' = outq s"
  using assms
proof (induction "inq s" arbitrary: s acc)
  case Nil
  then show ?case by (simp add: read_loop_done)
next
  case (Cons ev r)
  show ?case
  proof (cases "length acc < n")
    case False
    then show ?thesis using Cons.prems by (simp add: read_loop_done)
  next
    case lt: True
    show ?thesis
    proof (cases ev)
      case (ReadErr e)
      with Cons.hyps(2) Cons.prems lt have e: "e = EINTR"
        by (cases "e = EINTR") (simp_all flip: Cons.hyps(2))
      have "\<exists>s'. read_loop (s\<lparr>inq := r, errno := e\<rparr>) n acc =
          Some (0, acc @ take (n - length acc) (incoming r), s') \<and>
          incoming (inq s') = drop (n - length acc) (incoming r) \<and>
          final_errno (inq s') (errno s') = final_errno r e \<and> sent s' = sent s \<and> outq s' = outq s"
        using Cons.hyps(1) [of "s\<lparr>inq := r, errno := e\<rparr>" acc] Cons.prems Cons.hyps(2)
        by (simp add: ReadErr e flip: Cons.hyps(2))
      then show ?thesis
        using lt e by (simp add: read_loop_err [of acc n s e r] ReadErr flip: Cons.hyps(2))
    next
      case (Chunk b bs)
      show ?thesis
      proof (cases "Suc (length acc + length bs) \<le> n")
        case True
        have "\<exists>s'. read_loop (s\<lparr>inq := r\<rparr>) n (acc @ b # bs) =
            Some (0, (acc @ b # bs) @ take (n - length (acc @ b # bs)) (incoming r), s') \<and>
            incoming (inq s') = drop (n - length (acc @ b # bs)) (incoming r) \<and>
            final_errno (inq s') (errno s') = final_errno r (errno s) \<and>
            sent s' = sent s \<and> outq s' = outq s"
          using Cons.hyps(1) [of "s\<lparr>inq := r\<rparr>" "acc @ b # bs"] Cons.prems True
          by (simp add: Chunk flip: Cons.hyps(2))
        moreover have "n - length acc = Suc (length bs + (n - length (acc @ b # bs)))"
          using True by simp
        ultimately show ?thesis
          using lt True
          by (simp add: read_loop_chunk [of acc n s b bs r] Chunk flip: Cons.hyps(2))
      next
        case False
        then have "n - length acc \<le> length bs" using lt by simp
        then show ?thesis
          using lt False
          by (auto simp: read_loop_chunk [of acc n s b bs r] Chunk take_Cons' drop_Cons'
              split: list.split simp flip: Cons.hyps(2))
      qed
    qed
  qed
qed

lemma read_loop_short:
  assumes "length acc + length (incoming (inq s)) < n"
  shows "case read_loop s n acc of
      None \<Rightarrow> final_errno (inq s) (errno s) = EINTR
    | Some (r, bs, s') \<Rightarrow> final_errno (inq s) (errno s) \<noteq> EINTR \<and> r = -1 \<and>
        bs = acc @ incoming (inq s) \<and> errno s' = final_errno (inq s) (errno s) \<and>
        sent s' = sent s \<and> outq s' = outq s"
  using assms
proof (induction "inq s" arbitrary: s acc)
  case Nil
  then show ?case by (simp add: read_loop_eof)
next
  case (Cons ev r)
  then have lt: "length acc < n" by simp
  show ?case
  proof (cases ev)
    case (ReadErr e)
    with Cons.hyps(1) [of "s\<lparr>inq := r, errno := e\<rparr>" acc] Cons.prems lt show ?thesis
      by (auto simp: read_loop_err [of acc n s e r] split: option.splits simp flip: Cons.hyps(2))
  next
    case (Chunk b bs)
    with Cons.hyps(1) [of "s\<lparr>inq := r\<rparr>" "acc @ b # bs"] Cons.prems lt show ?thesis
      by (auto simp: read_loop_chunk [of acc n s b bs r] split: option.splits
          simp flip: Cons.hyps(2))
  qed
qed

lemma read_n_success:
  assumes "n \<le> length (incoming (inq s))"
  shows "\<exists>s'. read_n s n = Inr (0, take n (incoming (inq s)), s') \<and>
    incoming (inq s') = drop n (incoming (inq s)) \<and>
    final_errno (inq s') (errno s') = final_errno (inq s) (errno s) \<and>
    sent s' = sent s \<and> outq s' = outq s"
  using read_loop_success [of n "[]" s] assms by (auto simp: read_n_def)

lemma read_n_short:
  assumes "length (incoming (inq s)) < n"
  shows "if final_errno (inq s) (errno s) = EINTR then read_n s n = Inl Hang
    else \<exists>s'. read_n s n = Inr (-1, incoming (inq s), s') \<and>
      errno s' = final_errno (inq s) (errno s) \<and> sent s' = sent s \<and> outq s' = outq s"
  using read_loop_short [of "[]" s n] assms
  by (auto simp: read_n_def split: option.splits)

text \<open>Every result of \<open>read_n\<close> is one of these two.\<close>

lemma read_n_result:
  assumes "read_n s n = Inr (r, bs, s')"
  shows "(r = 0 \<and> bs = take n (incoming (inq s)) \<and> length bs = n \<and>
      incoming (inq s') = drop n (incoming (inq s)) \<or>
      r = -1 \<and> bs = incoming (inq s) \<and> length bs < n) \<and> sent s' = sent s \<and> outq s' = outq s"
proof (cases "n \<le> length (incoming (inq s))")
  case True
  with read_n_success [OF True] assms show ?thesis by auto
next
  case False
  with read_n_short [of s n] assms show ?thesis by (auto split: if_splits)
qed

subsection \<open>write_n\<close>

text \<open>
  The kernel answers the calls of \<open>write\<close> with a stream: each call takes the next answer, a count,
  of which no more than the rest of the buffer is accepted, or an error, which sets \<open>errno\<close>. The
  arguments of the loop of \<open>write_n\<close> are the answers, \<open>errno\<close>, the part of the buffer still to be
  written (\<open>buf + n0\<close>, \<open>n - n0\<close> bytes of it) and what has been sent; \<open>None\<close> means it never ends.
\<close>

fun kernel_write :: "write_event \<Rightarrow> nat \<Rightarrow> byte list \<Rightarrow> int \<times> byte list \<times> nat" where
  "kernel_write (Accept k) e bs = (int (min k (length bs)), take k bs, e)"
| "kernel_write (WriteErr d) e bs = (-1, [], d)"

partial_function (option) write_loop ::
  "write_event stream \<Rightarrow> nat \<Rightarrow> byte list \<Rightarrow> byte list \<Rightarrow> (int \<times> byte list \<times> nat \<times> write_event stream) option" where
  "write_loop ks e bs out =
     (if bs \<noteq> [] then
        (case kernel_write (shd ks) e bs of (nwrite, taken, e') \<Rightarrow>
           if nwrite \<le> 0 then (if e' = EINTR then write_loop (stl ks) e' bs out else Some (-1, out, e', stl ks))
           else write_loop (stl ks) e' (drop (nat nwrite) bs) (out @ taken))
      else Some (0, out, e, ks))"

text \<open>
  The answers of a prefix that do not make the loop return -1, \<open>errno\<close> being \<open>e\<close> before them, and
  the number of bytes they offer to accept.
\<close>

fun tolerated :: "nat \<Rightarrow> write_event list \<Rightarrow> bool" where
  "tolerated e [] = True"
| "tolerated e (Accept k # r) = ((0 < k \<or> e = EINTR) \<and> tolerated e r)"
| "tolerated e (WriteErr d # r) = (d = EINTR \<and> tolerated d r)"

fun offered :: "write_event list \<Rightarrow> nat" where
  "offered [] = 0"
| "offered (Accept k # r) = k + offered r"
| "offered (WriteErr d # r) = offered r"

lemma write_loop_done [simp]: "write_loop ks e [] out = Some (0, out, e, ks)"
  by (simp add: write_loop.simps)

lemma write_loop_accept:
  assumes "shd ks = Accept k" and "bs \<noteq> []"
  shows "write_loop ks e bs out =
    (if k = 0 then (if e = EINTR then write_loop (stl ks) e bs out else Some (-1, out, e, stl ks))
     else write_loop (stl ks) e (drop k bs) (out @ take k bs))"
  using assms by (subst write_loop.simps) (simp add: min_def)

lemma write_loop_error:
  assumes "shd ks = WriteErr d" and "bs \<noteq> []"
  shows "write_loop ks e bs out =
    (if d = EINTR then write_loop (stl ks) d bs out else Some (-1, out, d, stl ks))"
  using assms by (subst write_loop.simps) simp

text \<open>It ends with the first answer that completes the buffer or is not tolerated.\<close>

definition write_ends :: "write_event stream \<Rightarrow> nat \<Rightarrow> byte list \<Rightarrow> byte list \<Rightarrow> int \<Rightarrow> byte list \<Rightarrow> write_event stream \<Rightarrow> bool" where
  "write_ends ks e bs out r out' ks' \<longleftrightarrow> (\<exists>i. tolerated e (stake i ks) \<and>
     (r = 0 \<and> length bs \<le> offered (stake i ks) \<and> out' = out @ bs \<and> ks' = sdrop i ks \<or>
      r = -1 \<and> offered (stake i ks) < length bs \<and> \<not> tolerated e (stake (Suc i) ks) \<and>
        out' = out @ take (offered (stake i ks)) bs \<and> ks' = sdrop (Suc i) ks))"

lemma write_ends_error:
  assumes "write_ends (stl ks) d bs out r out' ks'" and "shd ks = WriteErr d" and "d = EINTR"
  shows "write_ends ks e bs out r out' ks'"
proof -
  obtain i where "tolerated d (stake i (stl ks)) \<and>
     (r = 0 \<and> length bs \<le> offered (stake i (stl ks)) \<and> out' = out @ bs \<and> ks' = sdrop i (stl ks) \<or>
      r = -1 \<and> offered (stake i (stl ks)) < length bs \<and> \<not> tolerated d (stake (Suc i) (stl ks)) \<and>
        out' = out @ take (offered (stake i (stl ks))) bs \<and> ks' = sdrop (Suc i) (stl ks))"
    using assms(1) unfolding write_ends_def by blast
  then show ?thesis
    unfolding write_ends_def by (intro exI [of _ "Suc i"]) (use assms(2,3) in auto)
qed

lemma write_ends_accept:
  assumes "write_ends (stl ks) e (drop k bs) (out @ take k bs) r out' ks'" and "shd ks = Accept k" and "0 < k \<or> e = EINTR"
  shows "write_ends ks e bs out r out' ks'"
proof -
  obtain i where "tolerated e (stake i (stl ks)) \<and>
     (r = 0 \<and> length (drop k bs) \<le> offered (stake i (stl ks)) \<and> out' = (out @ take k bs) @ drop k bs \<and> ks' = sdrop i (stl ks) \<or>
      r = -1 \<and> offered (stake i (stl ks)) < length (drop k bs) \<and> \<not> tolerated e (stake (Suc i) (stl ks)) \<and>
        out' = (out @ take k bs) @ take (offered (stake i (stl ks))) (drop k bs) \<and> ks' = sdrop (Suc i) (stl ks))"
    using assms(1) unfolding write_ends_def by blast
  then show ?thesis
    unfolding write_ends_def by (intro exI [of _ "Suc i"]) (use assms(2,3) in \<open>auto simp: take_add\<close>)
qed

lemma write_ends_now: "shd ks = Accept 0 \<and> e \<noteq> EINTR \<or> shd ks = WriteErr d \<and> d \<noteq> EINTR \<Longrightarrow> bs \<noteq> [] \<Longrightarrow> write_ends ks e bs out (-1) out (stl ks)"
  unfolding write_ends_def by (intro exI [of _ 0]) auto

lemma write_loop_ends:
  assumes "\<not> (tolerated e (stake i ks) \<and> offered (stake i ks) < length bs)"
  shows "\<exists>r out' e' ks'. write_loop ks e bs out = Some (r, out', e', ks') \<and> write_ends ks e bs out r out' ks'"
  using assms
proof (induction i arbitrary: ks e bs out)
  case 0
  then show ?case by (auto simp: write_ends_def intro: exI [of _ "0 :: nat"])
next
  case (Suc i)
  show ?case
  proof (cases "bs = []")
    case True
    then show ?thesis by (auto simp: write_ends_def intro: exI [of _ "0 :: nat"])
  next
    case False
    show ?thesis
    proof (cases "shd ks")
      case (WriteErr d)
      show ?thesis
      proof (cases "d = EINTR")
        case True
        with Suc.prems WriteErr have "\<not> (tolerated d (stake i (stl ks)) \<and> offered (stake i (stl ks)) < length bs)" by simp
        from Suc.IH [OF this, of out] write_ends_error [OF _ WriteErr True] True WriteErr False show ?thesis
          by (simp add: write_loop_error [of ks d bs]) blast
      next
        case d: False
        with write_ends_now [of ks e d bs out] WriteErr False show ?thesis by (simp add: write_loop_error [of ks d bs])
      qed
    next
      case (Accept k)
      show ?thesis
      proof (cases "0 < k \<or> e = EINTR")
        case True
        with Suc.prems Accept have
          "\<not> (tolerated e (stake i (stl ks)) \<and> offered (stake i (stl ks)) < length (drop k bs))" by auto
        note ends = Suc.IH [OF this, of "out @ take k bs"]
        have w: "write_loop ks e bs out = write_loop (stl ks) e (drop k bs) (out @ take k bs)"
          using True False by (auto simp: write_loop_accept [of ks k bs, OF Accept])
        from ends write_ends_accept [OF _ Accept True] show ?thesis unfolding w by blast
      next
        case k: False
        with write_ends_now [of ks e _ bs out] Accept False show ?thesis by (simp add: write_loop_accept [of ks k bs])
      qed
    qed
  qed
qed

text \<open>With answers that are tolerated for ever and never complete the buffer it does not end.\<close>

lemma write_loop_spins:
  assumes "\<forall>i. tolerated e (stake i ks) \<and> offered (stake i ks) < length bs"
  shows "write_loop ks e bs out = None"
proof (cases "write_loop ks e bs out")
  case (Some r)
  have "\<not> (\<forall>i. tolerated e (stake i ks) \<and> offered (stake i ks) < length bs)"
  proof (rule write_loop.raw_induct [OF _ Some, where P = "\<lambda>ks e bs out r.
        \<not> (\<forall>i. tolerated e (stake i ks) \<and> offered (stake i ks) < length bs)"], rule notI)
    fix loop ks e bs out and r :: "int \<times> byte list \<times> nat \<times> write_event stream"
    assume IH: "\<And>ks e bs out r. loop ks e bs out = Some r \<Longrightarrow> \<not> (\<forall>i. tolerated e (stake i ks) \<and> offered (stake i ks) < length bs)"
      and turn: "(if bs \<noteq> [] then
        (case kernel_write (shd ks) e bs of (nwrite, taken, e') \<Rightarrow>
           if nwrite \<le> 0 then (if e' = EINTR then loop (stl ks) e' bs out else Some (-1, out, e', stl ks))
           else loop (stl ks) e' (drop (nat nwrite) bs) (out @ taken))
        else Some (0, out, e, ks)) = Some r"
      and all: "\<forall>i. tolerated e (stake i ks) \<and> offered (stake i ks) < length bs"
    have ne: "bs \<noteq> []" using all by fastforce
    have next_all: "tolerated e (shd ks # stake i (stl ks))" "offered (shd ks # stake i (stl ks)) < length bs" for i
      using spec [OF all, of "Suc i"] by simp_all
    show False
    proof (cases "shd ks")
      case (Accept k)
      have k: "0 < k \<or> e = EINTR" "k < length bs" using next_all [of 0] by (simp_all add: Accept)
      have "\<forall>i. tolerated e (stake i (stl ks)) \<and> offered (stake i (stl ks)) < length (drop k bs)"
        using next_all k(2) by (simp add: Accept less_diff_conv add.commute)
      moreover have "loop (stl ks) e (drop k bs) (if k = 0 then out else out @ take k bs) = Some r"
        using turn ne k by (auto simp: Accept split: if_splits)
      ultimately show False using IH by blast
    next
      case (WriteErr d)
      have d: "d = EINTR" using next_all [of 0] by (simp add: WriteErr)
      have "tolerated d (stake i (stl ks)) \<and> offered (stake i (stl ks)) < length bs" for i
        using next_all [of i] unfolding WriteErr by auto
      then have "\<forall>i. tolerated d (stake i (stl ks)) \<and> offered (stake i (stl ks)) < length bs" by simp
      moreover have "loop (stl ks) d bs out = Some r" using turn ne d by (simp add: WriteErr)
      ultimately show False using IH by blast
    qed
  qed
  with assms show ?thesis by simp
qed simp

text \<open>
  The functions that use \<open>write_n\<close> call it on a \<open>sock\<close>, whose script of answers is finite and goes on
  with a kernel that accepts everything, so that the loop ends: each turn either uses up an answer or
  transfers the rest. \<open>write_n_loop\<close> below shows that it is the same loop.
\<close>

function write_n :: "sock \<Rightarrow> byte list \<Rightarrow> int \<times> sock" where
  "write_n s bs =
     (if bs \<noteq> [] then
        (case sys_write s bs of (nwrite, s') \<Rightarrow>
           if nwrite \<le> 0 then (if errno s' = EINTR then write_n s' bs else (-1, s'))
           else write_n s' (drop (nat nwrite) bs))
      else (0, s))"
  by pat_completeness auto
termination
  by (relation "measure (\<lambda>(s, bs). length (outq s) + length bs)")
    (auto simp: sys_write_def Let_def split: list.splits write_event.splits)

declare write_n.simps [simp del]

lemma write_n_Nil [simp]: "write_n s [] = (0, s)"
  by (simp add: write_n.simps)

text \<open>
  A successful \<open>write_n\<close> has sent exactly its argument; a failed one a proper prefix. It
  never touches the bytes still to be read.
\<close>

lemma write_n_sent:
  assumes "write_n s bs = (r, s')"
  shows "(r = 0 \<and> sent s' = sent s @ bs \<or>
      r = -1 \<and> (\<exists>k < length bs. sent s' = sent s @ take k bs)) \<and> inq s' = inq s"
  using assms
proof (induction s bs rule: write_n.induct)
  case (1 s bs)
  show ?case
  proof (cases "bs = []")
    case True
    with 1(3) show ?thesis by simp
  next
    case ne: False
    obtain nw t where sw: "sys_write s bs = (nw, t)" by (cases "sys_write s bs") auto
    show ?thesis
    proof (cases "nw \<le> 0")
      case True
      then have t: "sent t = sent s \<and> inq t = inq s"
        using sw by (auto simp: sys_write_def Let_def split: list.splits write_event.splits)
      show ?thesis
      proof (cases "errno t = EINTR")
        case True
        with 1(1) [OF ne sw [symmetric] \<open>nw \<le> 0\<close>] 1(3) sw ne t \<open>nw \<le> 0\<close>
        show ?thesis by (simp add: write_n.simps [of s bs])
      next
        case False
        with 1(3) sw ne t \<open>nw \<le> 0\<close> have "r = -1 \<and> s' = t"
          by (simp add: write_n.simps [of s bs])
        with t ne show ?thesis by (auto intro!: exI [of _ 0])
      qed
    next
      case False
      then have t: "sent t = sent s @ take (nat nw) bs" "inq t = inq s" "nat nw \<le> length bs"
        using sw by (auto simp: sys_write_def Let_def split: list.splits write_event.splits)
      have w: "write_n t (drop (nat nw) bs) = (r, s')"
        using 1(3) sw ne False by (simp add: write_n.simps [of s bs])
      have app: "take (nat nw) bs @ take k (drop (nat nw) bs) = take (nat nw + k) bs" for k
        by (simp add: take_add)
      have bound: "nat nw + k < length bs" if "k < length bs - nat nw" for k
        using that by simp
      from 1(2) [OF ne sw [symmetric] False w] t show ?thesis
        by (auto simp: app dest: bound)
    qed
  qed
qed

text \<open>With a kernel that reports no error other than \<open>EINTR\<close> and no zero count, it succeeds.\<close>

fun harmless :: "write_event \<Rightarrow> bool" where
  "harmless (Accept k) = (0 < k)"
| "harmless (WriteErr e) = (e = EINTR)"

definition accepting :: "write_event list \<Rightarrow> bool" where
  "accepting es = list_all harmless es"

lemma write_n_success:
  assumes "accepting (outq s)"
  shows "\<exists>s'. write_n s bs = (0, s') \<and> accepting (outq s')"
  using assms
proof (induction s bs rule: write_n.induct)
  case (1 s bs)
  show ?case
  proof (cases "bs = []")
    case True
    with 1(3) show ?thesis by simp
  next
    case ne: False
    obtain nw t where sw: "sys_write s bs = (nw, t)" by (cases "sys_write s bs") auto
    then have acc: "accepting (outq t)" and ei: "nw \<le> 0 \<Longrightarrow> errno t = EINTR"
      using 1(3) ne
      by (auto simp: sys_write_def Let_def accepting_def min_def
          split: list.splits write_event.splits if_splits)
    show ?thesis
      using 1(1) [OF ne sw [symmetric] _ ei acc] 1(2) [OF ne sw [symmetric] _ acc] ne sw ei
      by (cases "nw \<le> 0") (simp_all add: write_n.simps [of s bs])
  qed
qed

lemma write_n_loop:
  assumes "length bs \<le> n"
  shows "\<exists>ks. write_loop (outq s @- sconst (Accept n)) (errno s) bs (sent s) =
    Some (fst (write_n s bs), sent (snd (write_n s bs)), errno (snd (write_n s bs)), ks)"
  using assms
proof (induction s bs rule: write_n.induct)
  case (1 s bs)
  show ?case
  proof (cases "bs = []")
    case ne: False
    show ?thesis
    proof (cases "outq s")
      case Nil
      have "write_n s bs = (0, s\<lparr>sent := sent s @ bs\<rparr>)"
        using ne Nil by (simp add: write_n.simps [of s bs] sys_write_def)
      moreover have "0 < n" using ne 1(3) by (cases bs) simp_all
      then have "write_loop (sconst (Accept n)) (errno s) bs (sent s) = Some (0, sent s @ bs, errno s, stl (sconst (Accept n)))"
        using ne 1(3) by (subst write_loop_accept [where k = n]) simp_all
      ultimately show ?thesis using Nil by (simp only: shift.simps) simp
    next
      case (Cons ev r)
      show ?thesis
      proof (cases ev)
        case (WriteErr d)
        let ?s = "s\<lparr>outq := r, errno := d\<rparr>"
        have w: "sys_write s bs = (-1, ?s)" using Cons WriteErr by (simp add: sys_write_def)
        show ?thesis using 1(1) [OF ne w [symmetric]] 1(3) ne Cons WriteErr
          by (cases "d = EINTR") (simp_all add: write_n.simps [of s bs] w write_loop_error [of _ d bs])
      next
        case (Accept k)
        let ?s = "s\<lparr>outq := r, sent := sent s @ take k bs\<rparr>"
        have w: "sys_write s bs = (int (min k (length bs)), ?s)"
          using Cons Accept by (auto simp: sys_write_def Let_def min_def)
        show ?thesis
        proof (cases "k = 0")
          case True
          then show ?thesis using 1(1) [OF ne w [symmetric]] 1(3) ne Cons Accept
            by (cases "errno s = EINTR") (simp_all add: write_n.simps [of s bs] w write_loop_accept [of _ 0 bs])
        next
          case False
          then have "\<not> int (min k (length bs)) \<le> 0" "drop (nat (int (min k (length bs)))) bs = drop k bs"
            and m: "min k (length bs) = 0 \<longleftrightarrow> False" and "length bs - min k (length bs) \<le> n"
            using ne 1(3) by (auto simp: min_def)
          with 1(2) [OF ne w [symmetric] this(1)] 1(3) ne Cons Accept False show ?thesis
            by (simp add: m write_n.simps [of s bs] w write_loop_accept [of _ k bs])
        qed
      qed
    qed
  qed simp
qed

subsection \<open>Creating and connecting sockets\<close>

text \<open>
  One entry of the list \<open>getaddrinfo\<close> fills in, with the answers of \<open>socket\<close> and
  \<open>connect\<close> for it. \<open>connect_loop\<close> is the \<open>for\<close> loop over the list: the variable \<open>s\<close>, and
  the descriptors the loop closes, in order.
\<close>

record addrinfo =
  socket_result :: "nat option"
  connects :: bool

fun connect_loop :: "int \<Rightarrow> addrinfo list \<Rightarrow> int \<times> int list" where
  "connect_loop s [] = (s, [])"
| "connect_loop s (a # r) =
     (case socket_result a of
        None \<Rightarrow> connect_loop (-1) r
      | Some fd \<Rightarrow>
          if \<not> connects a then
            (case connect_loop (-1) r of (s', closed) \<Rightarrow> (s', int fd # closed))
          else (int fd, []))"

definition connect_to :: "addrinfo list option \<Rightarrow> int \<times> int list" where
  "connect_to res0 = (case res0 of None \<Rightarrow> (-1, []) | Some l \<Rightarrow> connect_loop 1 l)"

definition usable :: "addrinfo \<Rightarrow> bool" where
  "usable a \<longleftrightarrow> socket_result a \<noteq> None \<and> connects a"

lemma connect_loop_result:
  "connect_loop s l =
     (case find usable l of
        Some a \<Rightarrow> int (the (socket_result a))
      | None \<Rightarrow> if l = [] then s else -1,
      map int (List.map_filter socket_result (takeWhile (\<lambda>a. \<not> usable a) l)))"
  by (induction l arbitrary: s)
    (auto simp: usable_def split_def List.map_filter_simps split: option.splits)

text \<open>\<open>resolve_hostname\<close>: the first address, or -1; \<open>addr\<close> is written only on success.\<close>

definition resolve_hostname :: "'a list option \<Rightarrow> 'a option \<Rightarrow> int \<times> 'a option" where
  "resolve_hostname res0 addr =
     (case res0 of
        None \<Rightarrow> (-1, addr)
      | Some [] \<Rightarrow> (-1, addr)
      | Some (a # _) \<Rightarrow> (0, Some a))"

text \<open>\<open>fcntl(fd, F_GETFL)\<close> and \<open>fcntl(fd, F_SETFL, flags | O_NONBLOCK)\<close>: the flags read, whether
  setting succeeds; the result and the flags the descriptor ends with.\<close>

definition O_NONBLOCK :: u32 where "O_NONBLOCK = 2048"

definition set_fd_nonblocking :: "u32 option \<Rightarrow> bool \<Rightarrow> int \<times> u32 option" where
  "set_fd_nonblocking flags setfl_ok =
     (case flags of
        None \<Rightarrow> (-1, flags)
      | Some f \<Rightarrow> if setfl_ok then (0, Some (or f O_NONBLOCK)) else (-1, flags))"

text \<open>The result, and the descriptors left open.\<close>

definition create_nonblocking_tcp_socket :: "int \<Rightarrow> u32 option \<Rightarrow> bool \<Rightarrow> int \<times> int list" where
  "create_nonblocking_tcp_socket fd flags setfl_ok =
     (if fd < 0 then (-1, [])
      else if fst (set_fd_nonblocking flags setfl_ok) = -1 then (-1, [])
      else (fd, [fd]))"

datatype protofamily = AF_INET | AF_INET6

definition sizeof_sockaddr :: nat where "sizeof_sockaddr = 16"

text \<open>
  \<open>create_server_tcp_socket\<close>: the address is built in a local \<open>struct sockaddr\<close> of 16 bytes
  through a cast to the family's own structure: \<open>sin_family\<close>/\<open>sin6_family\<close> at offset 0,
  \<open>sin_addr\<close> (4 bytes) at 4, \<open>sin6_addr\<close> (16 bytes) at 8, the port at 2. The result is the
  return value and the descriptors left open. \<open>addr_bytes\<close> are the bytes stored for the
  address, \<open>fam\<close> and \<open>port\<close> those for the family and the port.
\<close>

definition create_server_tcp_socket ::
  "int \<Rightarrow> bool \<Rightarrow> bool \<Rightarrow> byte list \<Rightarrow> byte list \<Rightarrow> protofamily \<Rightarrow> (int \<times> int list) res" where
  "create_server_tcp_socket fd bind_ok listen_ok fam port pf =
     (if fd < 0 then Inr (-1, [])
      else
        and_then
          (let addr = replicate sizeof_sockaddr 0 in
           case pf of
             AF_INET \<Rightarrow>
               and_then (store_at 0 fam addr) (\<lambda>addr.
               and_then (store_at 4 (replicate 4 0) addr) (\<lambda>addr.
               store_at 2 port addr))
           | AF_INET6 \<Rightarrow>
               and_then (store_at 0 fam addr) (\<lambda>addr.
               and_then (store_at 8 (replicate 16 0) addr) (\<lambda>addr.
               store_at 2 port addr)))
          (\<lambda>addr.
             if \<not> bind_ok then Inr (-1, [fd])
             else if \<not> listen_ok then Inr (-1, [fd])
             else Inr (fd, [fd])))"

text \<open>
  The constructor of \<open>CarrotServer\<close> (src/src/server/carrot_server.cpp), with the exception it
  throws or its \<open>listen_sock\<close>.
\<close>

definition PROTOCOL_IP4 :: nat where "PROTOCOL_IP4 = 0"
definition PROTOCOL_IP6 :: nat where "PROTOCOL_IP6 = 1"

definition CarrotServer_new :: "int \<Rightarrow> bool \<Rightarrow> bool \<Rightarrow> byte list \<Rightarrow> byte list \<Rightarrow> nat \<Rightarrow> (string + int) res" where
  "CarrotServer_new fd bind_ok listen_ok fam port protocol =
     and_then (create_server_tcp_socket fd bind_ok listen_ok fam port
         (if protocol = PROTOCOL_IP4 then AF_INET else AF_INET6)) (\<lambda>(listen_sock, _).
       Inr (if listen_sock = -1 then Inl ''failed to create a server socket'' else Inr listen_sock))"

lemma create_server_ipv4:
  assumes "length fam = 2" and "length port = 2"
  shows "create_server_tcp_socket fd bind_ok listen_ok fam port AF_INET =
    Inr (if fd < 0 then (-1, [])
         else (if bind_ok \<and> listen_ok then fd else -1, [fd]))"
  using assms
  by (simp add: create_server_tcp_socket_def sizeof_sockaddr_def store_at_def)

lemma create_server_ipv6_overflow:
  assumes "0 \<le> fd" and "length fam = 2"
  shows "create_server_tcp_socket fd bind_ok listen_ok fam port AF_INET6 = Inl OutOfBounds"
  using assms
  by (simp add: create_server_tcp_socket_def sizeof_sockaddr_def store_at_def)

subsection \<open>Properties\<close>

text \<open>
  C25. \<open>read_n\<close> fails to return exactly when the input ends (end of file, or an error) before
  \<open>n\<close> bytes while \<open>errno\<close> is \<open>EINTR\<close>: end of file does not set \<open>errno\<close>, so a stale \<open>EINTR\<close>
  of an earlier, interrupted call makes the loop spin on the closed connection for ever.
\<close>

theorem read_n_hang_iff:
  "read_n s n = Inl Hang \<longleftrightarrow>
   length (incoming (inq s)) < n \<and> final_errno (inq s) (errno s) = EINTR"
  using read_n_success [of n s] read_n_short [of s n]
  by (cases "n \<le> length (incoming (inq s))") (auto split: if_splits)

text \<open>
  The packet readers read a header and then a payload: two calls of \<open>read_n\<close> deliver the
  bytes one call for the sum would, in order and without losing any between them, however
  the kernel splits the input and interrupts the calls.
\<close>

theorem read_n_split:
  assumes "n + m \<le> length (incoming (inq s))"
  shows "\<exists>s2. and_then (read_n s n) (\<lambda>(r1, header, s1). and_then (read_n s1 m) (\<lambda>(r2, payload, s2).
      Inr (r1, r2, header, payload, s2))) =
    Inr (0, 0, take n (incoming (inq s)), take m (drop n (incoming (inq s))), s2) \<and>
    incoming (inq s2) = drop (n + m) (incoming (inq s))"
proof -
  obtain s1 where 1: "read_n s n = Inr (0, take n (incoming (inq s)), s1)"
    "incoming (inq s1) = drop n (incoming (inq s))"
    using read_n_success [of n s] assms by auto
  have "m \<le> length (incoming (inq s1))" using assms 1(2) by simp
  then obtain s2 where "read_n s1 m = Inr (0, take m (incoming (inq s1)), s2)"
    "incoming (inq s2) = drop m (incoming (inq s1))"
    using read_n_success [of m s1] by auto
  with 1 show ?thesis by (simp add: add.commute)
qed

theorem read_n_split_witness:
  "\<exists>s2. and_then (read_n \<lparr>inq = [Chunk 1 [2], ReadErr EINTR, Chunk 3 [4, 5]], outq = [],
        sent = [], errno = 0\<rparr> 3)
      (\<lambda>(r1, header, s1). and_then (read_n s1 2) (\<lambda>(r2, payload, s2).
      Inr (r1, r2, header, payload, s2))) = Inr (0, 0, [1, 2, 3], [4, 5], s2)"
proof -
  let ?s = "\<lparr>inq = [Chunk 1 [2], ReadErr EINTR, Chunk 3 [4, 5]], outq = [], sent = [], errno = 0\<rparr>"
  have i: "incoming (inq ?s) = [1, 2, 3, 4, 5]" by simp
  have "3 + 2 \<le> length (incoming (inq ?s))" unfolding i by simp
  note split = read_n_split [OF this, unfolded i]
  have "take 3 [1, 2, 3, 4, 5 :: byte] = [1, 2, 3]" "take 2 (drop 3 [1, 2, 3, 4, 5 :: byte]) = [4, 5]"
    by simp_all
  note split [unfolded this]
  then show ?thesis by blast
qed

text \<open>
  C26. \<open>write_n\<close> against every kernel, given by the endless sequence \<open>ks\<close> of its answers to
  \<open>write\<close>. (1) It never returns exactly when every answer is tolerated (\<open>EINTR\<close>, a positive count, or
  0 while \<open>errno\<close> is still \<open>EINTR\<close>) and the counts never add up to the buffer. (2) When it returns, it has
  consumed the answers up to the one that decides: with 0 it has sent exactly its buffer, in order and
  once; with -1 the first answer that is not tolerated came before the buffer was complete, and exactly
  the part accepted until then has been sent, a proper prefix. (3) \<open>write_n\<close> on a socket with a script is
  this loop on the script followed by a kernel that accepts everything.
\<close>

theorem write_n_correct:
  "(write_loop ks e bs out = None \<longleftrightarrow> (\<forall>i. tolerated e (stake i ks) \<and> offered (stake i ks) < length bs)) \<and>
   (write_loop ks e bs out = Some (r, out', e', ks') \<longrightarrow>
      (\<exists>i. tolerated e (stake i ks) \<and>
        (r = 0 \<and> length bs \<le> offered (stake i ks) \<and> out' = out @ bs \<and> ks' = sdrop i ks \<or>
         r = -1 \<and> offered (stake i ks) < length bs \<and> \<not> tolerated e (stake (Suc i) ks) \<and>
           out' = out @ take (offered (stake i ks)) bs \<and> ks' = sdrop (Suc i) ks))) \<and>
   (\<exists>ks'. write_loop (outq s @- sconst (Accept (length bs))) (errno s) bs (sent s) =
      Some (fst (write_n s bs), sent (snd (write_n s bs)), errno (snd (write_n s bs)), ks')) \<and>
   inq (snd (write_n s bs)) = inq s"
proof -
  have spins: "write_loop ks e bs out = None \<longleftrightarrow> (\<forall>i. tolerated e (stake i ks) \<and> offered (stake i ks) < length bs)"
    using write_loop_ends [of e _ ks bs out] write_loop_spins [of e ks bs out] by fastforce
  moreover have "write_ends ks e bs out r out' ks'" if some: "write_loop ks e bs out = Some (r, out', e', ks')"
  proof -
    from spins some obtain i where "\<not> (tolerated e (stake i ks) \<and> offered (stake i ks) < length bs)" by fastforce
    from write_loop_ends [OF this, of out] some show ?thesis by auto
  qed
  moreover have "inq (snd (write_n s bs)) = inq s" using write_n_sent [of s bs] by (cases "write_n s bs") auto
  ultimately show ?thesis using write_n_loop [of bs "length bs" s] unfolding write_ends_def by blast
qed

text \<open>A script with an interruption in it, and a kernel that interrupts every call.\<close>

theorem write_n_correct_witness:
  "write_loop (sconst (WriteErr EINTR)) 0 [7] [] = None \<and>
   (\<exists>e ks. write_loop ([Accept 1, WriteErr EINTR, Accept 5] @- sconst (Accept 3)) 0 [7, 8, 9] [] = Some (0, [7, 8, 9], e, ks)) \<and>
   (\<exists>i. tolerated 0 (stake i ([Accept 1] @- sconst (WriteErr 32))) \<and>
     \<not> tolerated 0 (stake (Suc i) ([Accept 1] @- sconst (WriteErr 32))) \<and>
     [7] = take (offered (stake i ([Accept 1] @- sconst (WriteErr 32)))) [7, 8, 9 :: byte])"
proof -
  have endless: "tolerated e (stake i (sconst (WriteErr EINTR)))" "offered (stake i (sconst (WriteErr EINTR))) = 0" for e i
    by (induction i arbitrary: e) (simp_all add: stake.simps(2) del: stake_siterate)
  let ?s = "\<lparr>inq = [], outq = [Accept 1, WriteErr EINTR, Accept 5], sent = [], errno = 0\<rparr>"
  have n: "write_n ?s [7, 8, 9] = (0, ?s\<lparr>outq := [], errno := EINTR, sent := [7, 8, 9]\<rparr>)"
    by (simp add: write_n.simps sys_write_def Let_def)
  let ?f = "[Accept 1] @- sconst (WriteErr 32)"
  have f: "write_loop ?f 0 [7, 8, 9] [] = Some (-1, [7], 32, sconst (WriteErr 32))"
    by (simp add: write_loop_accept [of _ 1] write_loop_error [of _ 32] EINTR_def)
  note stuck = write_n_correct [of "sconst (WriteErr EINTR)" 0 "[7]" "[]" 0 "[]" 0 undefined ?s, THEN conjunct1]
  note script = write_n_correct [of ?f 0 "[7, 8, 9]" "[]" 0 "[]" 0 ?f ?s, THEN conjunct2, THEN conjunct2, THEN conjunct1]
  note partial = write_n_correct [of ?f 0 "[7, 8, 9]" "[]" "-1" "[7]" 32 "sconst (WriteErr 32)" ?s, THEN conjunct2, THEN conjunct1,
      rule_format, OF f]
  show ?thesis
  proof (intro conjI)
    show "write_loop (sconst (WriteErr EINTR)) 0 [7] [] = None" using endless by (intro iffD2 [OF stuck]) simp
    show "\<exists>e ks. write_loop ([Accept 1, WriteErr EINTR, Accept 5] @- sconst (Accept 3)) 0 [7, 8, 9] [] = Some (0, [7, 8, 9], e, ks)"
      using script n by (auto simp: numeral_3_eq_3)
    show "\<exists>i. tolerated 0 (stake i ?f) \<and> \<not> tolerated 0 (stake (Suc i) ?f) \<and> [7] = take (offered (stake i ?f)) [7, 8, 9 :: byte]"
      using partial by (elim exE) force
  qed
qed

text \<open>
  \<open>connect_to\<close> returns the descriptor of the first address that can be used, or -1 when
  there is none, and closes exactly the descriptors of the addresses it tried in vain, so no
  descriptor is leaked. (A resolver that succeeds with an empty list would make it return 1,
  the initial value of \<open>s\<close>.)
\<close>

theorem connect_to_first_usable:
  "connect_to (Some l) =
     (case find usable l of
        Some a \<Rightarrow> int (the (socket_result a))
      | None \<Rightarrow> if l = [] then 1 else -1,
      map int (List.map_filter socket_result (takeWhile (\<lambda>a. \<not> usable a) l)))"
  by (simp add: connect_to_def connect_loop_result)

text \<open>
  C30. \<open>create_server_tcp_socket\<close> works for IPv4, but for IPv6 it stores the 16 bytes of
  \<open>sin6_addr\<close> beyond the end of its 16-byte local \<open>struct sockaddr\<close>, whenever a descriptor
  is available. So a server for IPv4 is constructed, or its constructor throws, exactly as
  socket, bind and listen succeed; one for IPv6 never is.
\<close>

theorem server_socket_families:
  assumes "length fam = 2" and "length port = 2" and "0 \<le> fd"
  shows "create_server_tcp_socket fd True True fam port AF_INET = Inr (fd, [fd]) \<and>
    create_server_tcp_socket fd bind_ok listen_ok fam port AF_INET6 = Inl OutOfBounds \<and>
    CarrotServer_new fd bind_ok listen_ok fam port PROTOCOL_IP4 =
      Inr (if bind_ok \<and> listen_ok then Inr fd else Inl ''failed to create a server socket'') \<and>
    CarrotServer_new (-1) bind_ok listen_ok fam port protocol = Inr (Inl ''failed to create a server socket'') \<and>
    CarrotServer_new fd bind_ok listen_ok fam port PROTOCOL_IP6 = Inl OutOfBounds"
proof -
  note four = create_server_ipv4 [OF assms(1,2)] and six = create_server_ipv6_overflow [OF assms(3,1)]
  have "create_server_tcp_socket (-1) bind_ok listen_ok fam port pf = Inr (-1, [])" for pf
    by (simp add: create_server_tcp_socket_def)
  then show ?thesis
    using four six assms(3) by (simp add: CarrotServer_new_def PROTOCOL_IP4_def PROTOCOL_IP6_def)
qed

theorem server_socket_families_witness:
  "create_server_tcp_socket 3 True True [2, 0] [31, 144] AF_INET = Inr (3, [3]) \<and>
   CarrotServer_new 3 True True [2, 0] [31, 144] PROTOCOL_IP4 = Inr (Inr 3) \<and>
   CarrotServer_new 3 True True [2, 0] [31, 144] PROTOCOL_IP6 = Inl OutOfBounds"
  using server_socket_families [of "[2, 0]" "[31, 144]" 3 True True] by simp

end
