(* ===== verification/Packet_Buffer.thy ===== *)
theory Packet_Buffer
  imports Packet
begin

section \<open>Growing packet buffers: realloc and expand_packet\<close>

text \<open>
  A packet buffer is the pair the code keeps as \<open>packet* p; uint32_t size\<close>. This theory
  models \<open>expand_packet\<close> of src/src/common/utils.cpp, states the contract that every
  component relies on as the locale \<open>growable_buffer\<close>, proves the senders' and receivers'
  bounds facts once inside it, and interprets it on \<open>expand_packet\<close>. The simple server
  interprets it again on its own \<open>expand_connection_packet\<close>.
\<close>

record pbuf =
  buf_p :: "block option"
  buf_size :: u32

definition null_buf :: pbuf where
  "null_buf = \<lparr>buf_p = None, buf_size = 0\<rparr>"

text \<open>
  The C library's \<open>realloc\<close>: on failure the result is null (and the old block is lost to a
  caller that overwrites its only pointer); on success the common prefix is kept and the
  rest of the new block is indeterminate.
\<close>

definition realloc :: "machine \<Rightarrow> block option \<Rightarrow> nat \<Rightarrow> block option" where
  "realloc M q n =
     (let old = (case q of None \<Rightarrow> [] | Some b \<Rightarrow> b)
      in if can_alloc M n then Some (take n old @ map (junk M) [length old..<n]) else None)"

lemma realloc_eq_Some: "realloc M q n = Some b \<Longrightarrow> can_alloc M n \<and> length b = n"
  by (auto simp: realloc_def Let_def min_def split: if_splits option.splits)

lemma realloc_eq_None_iff [simp]: "realloc M q n = None \<longleftrightarrow> \<not> can_alloc M n"
  by (simp add: realloc_def Let_def)

lemma realloc_prefix:
  "realloc M (Some b) n = Some b' \<Longrightarrow> k \<le> n \<Longrightarrow> k \<le> length b \<Longrightarrow> take k b' = take k b"
  by (auto simp: realloc_def Let_def min_def split: if_splits)

subsection \<open>expand_packet\<close>

text \<open>\<open>while (*size < n) *size *= 2;\<close> on \<open>uint32_t\<close>. \<open>None\<close>: the loop never ends.\<close>

partial_function (option) double_until :: "u32 \<Rightarrow> u32 \<Rightarrow> u32 option" where
  "double_until s n = (if s < n then double_until (s * 2) n else Some s)"

definition expand_packet :: "machine \<Rightarrow> pbuf \<Rightarrow> u32 \<Rightarrow> (int \<times> pbuf) res" where
  "expand_packet M b n =
     (if buf_size b < n \<or> buf_p b = None then
        (let s = (if buf_size b = 0 then 1 else buf_size b) in
         case double_until s n of
           None \<Rightarrow> Inl Hang
         | Some s' \<Rightarrow>
             (case realloc M (buf_p b) (unat s') of
                None \<Rightarrow> Inr (-1, \<lparr>buf_p = None, buf_size = s'\<rparr>)
              | Some blk \<Rightarrow> Inr (0, \<lparr>buf_p = Some blk, buf_size = s'\<rparr>)))
      else Inr (0, b))"

text \<open>The sizes \<open>expand_packet\<close> produces: zero (never grown) or a power of two.\<close>

definition pow2_size :: "u32 \<Rightarrow> bool" where
  "pow2_size s \<longleftrightarrow> s = 0 \<or> (\<exists>k<32. unat s = 2 ^ k)"

lemma pow2_size_1 [simp]: "pow2_size 1"
  by (auto simp: pow2_size_def intro: exI [of _ 0])

lemma unat_double: "unat (s * 2 :: u32) = unat s * 2 mod 4294967296"
  by (simp add: unat_word_ariths)

lemma pow2_size_double:
  assumes "pow2_size s" shows "pow2_size (s * 2)"
proof (cases "s = 0")
  case False
  with assms obtain k where k: "k < 32" "unat s = 2 ^ k" by (auto simp: pow2_size_def)
  show ?thesis
  proof (cases "k = 31")
    case True
    with k have "unat (s * 2) = 0" by (simp add: unat_double)
    then show ?thesis by (simp add: pow2_size_def unat_eq_zero)
  next
    case False
    with k have "Suc k < 32" by simp
    then have "(2::nat) ^ Suc k < 2 ^ 32" by (rule power_strict_increasing) simp
    with k have "unat (s * 2) = 2 ^ Suc k" by (simp add: unat_double)
    with \<open>Suc k < 32\<close> show ?thesis by (auto simp: pow2_size_def simp del: power_Suc)
  qed
qed (simp add: pow2_size_def)

lemma pow2_size_le: "pow2_size s \<Longrightarrow> unat s \<le> 2147483648"
proof -
  assume "pow2_size s"
  moreover have "(2::nat) ^ k \<le> 2 ^ 31" if "k < 32" for k
    using that by (intro power_increasing) auto
  ultimately show ?thesis by (fastforce simp: pow2_size_def)
qed

text \<open>Below \<open>2 ^ 31\<close> doubling cannot wrap, so the loop ends, at the first size that fits.\<close>

lemma double_until_returns:
  assumes "0 < unat s" and "unat n \<le> 2147483648"
  shows "\<exists>s'. double_until s n = Some s' \<and> n \<le> s'"
  using assms(1)
proof (induction "unat n - unat s" arbitrary: s rule: less_induct)
  case less
  show ?case
  proof (cases "s < n")
    case True
    then have lt: "unat s < unat n" by (simp add: word_less_nat_alt)
    with assms(2) have d: "unat (s * 2) = unat s * 2" by (simp add: unat_double)
    have "\<exists>s'. double_until (s * 2) n = Some s' \<and> n \<le> s'"
      using less.prems lt d by (intro less.hyps) auto
    with True show ?thesis by (simp add: double_until.simps [of s n])
  qed (auto simp: double_until.simps [of s n])
qed

lemma double_until_ge: "double_until s n = Some s' \<Longrightarrow> n \<le> s'"
  by (erule double_until.raw_induct [rotated]) (auto split: if_splits)

lemma double_until_ge_unat: "double_until s n = Some s' \<Longrightarrow> unat n \<le> unat s'"
  by (drule double_until_ge) (simp add: word_le_nat_alt)

lemma double_until_pow2: "double_until s n = Some s' \<Longrightarrow> pow2_size s \<Longrightarrow> pow2_size s'"
proof -
  assume a: "double_until s n = Some s'" and p: "pow2_size s"
  have "pow2_size s \<longrightarrow> pow2_size s'"
    by (rule double_until.raw_induct [OF _ a, where P = "\<lambda>s n s'. pow2_size s \<longrightarrow> pow2_size s'"])
      (auto split: if_splits dest: pow2_size_double)
  with p show ?thesis by simp
qed

text \<open>Above \<open>2 ^ 31\<close> the size wraps to zero before it reaches \<open>n\<close> and stays there.\<close>

lemma double_until_diverges:
  assumes "pow2_size s" and "2147483648 < unat n"
  shows "double_until s n = None"
proof (rule ccontr)
  assume "double_until s n \<noteq> None"
  then obtain s' where s': "double_until s n = Some s'" by auto
  have "unat s' \<le> 2147483648"
    using double_until_pow2 [OF s' assms(1)] by (rule pow2_size_le)
  moreover have "unat n \<le> unat s'"
    using double_until_ge [OF s'] by (simp add: word_le_nat_alt)
  ultimately show False using assms(2) by simp
qed

definition wf_pbuf :: "pbuf \<Rightarrow> bool" where
  "wf_pbuf b \<longleftrightarrow> pow2_size (buf_size b) \<and>
     (\<forall>blk. buf_p b = Some blk \<longrightarrow> length blk = unat (buf_size b))"

lemma wf_null_buf [simp]: "wf_pbuf null_buf"
  by (simp add: wf_pbuf_def null_buf_def pow2_size_def)

lemma expand_packet_preserves_wf:
  assumes "wf_pbuf b" and "expand_packet M b n = Inr (r, b')"
  shows "wf_pbuf b'"
  using assms
  by (auto simp: expand_packet_def Let_def wf_pbuf_def split: if_splits option.splits
      dest: double_until_pow2 realloc_eq_Some)

lemma expand_packet_ok:
  assumes "wf_pbuf b" and "expand_packet M b n = Inr (0, b')"
  shows "\<exists>blk. buf_p b' = Some blk \<and> unat n \<le> length blk"
  using assms
  by (auto simp: expand_packet_def Let_def wf_pbuf_def word_le_nat_alt not_less
      split: if_splits option.splits dest!: double_until_ge_unat realloc_eq_Some)

lemma expand_packet_result:
  "expand_packet M b n = Inr (r, b') \<Longrightarrow> r = 0 \<or> r = -1 \<and> buf_p b' = None"
  by (auto simp: expand_packet_def Let_def split: if_splits option.splits)

lemma expand_packet_total:
  assumes "unat n \<le> 2147483648"
  shows "\<exists>r b'. expand_packet M b n = Inr (r, b')"
proof -
  have "0 < unat (if buf_size b = 0 then 1 else buf_size b)"
    by (simp add: unat_gt_0)
  from double_until_returns [OF this assms] show ?thesis
    by (auto simp: expand_packet_def Let_def split: option.splits)
qed

lemma expand_packet_grown_prefix:
  assumes "wf_pbuf b" and "buf_p b = Some old" and "expand_packet M b n = Inr (0, b')"
    and "buf_p b' = Some blk" and "k \<le> length old"
  shows "take k blk = take k old"
proof (cases "buf_size b < n")
  case True
  then obtain s where s: "double_until (if buf_size b = 0 then 1 else buf_size b) n = Some s"
    and r: "realloc M (Some old) (unat s) = Some blk"
    using assms(2-4) by (auto simp: expand_packet_def Let_def split: option.splits)
  have "unat (buf_size b) \<le> unat s"
    using True double_until_ge [OF s] by (simp add: word_less_nat_alt word_le_nat_alt)
  then show ?thesis
    using assms(1,2,5) by (intro realloc_prefix [OF r]) (auto simp: wf_pbuf_def)
qed (use assms in \<open>auto simp: expand_packet_def\<close>)

lemma expand_packet_grows:
  assumes "expand_packet M b n = Inr (0, b')"
  shows "unat (buf_size b) \<le> unat (buf_size b')"
proof (cases "buf_size b < n \<or> buf_p b = None")
  case True
  then obtain s where s: "double_until (if buf_size b = 0 then 1 else buf_size b) n = Some s"
    and b': "buf_size b' = s"
    using assms by (auto simp: expand_packet_def Let_def split: option.splits)
  have "t \<le> s" if "double_until t n = Some s" for t
  proof (cases "t < n")
    case True
    then show ?thesis using double_until_ge [OF that] by simp
  next
    case False
    with that show ?thesis by (simp add: double_until.simps [of t n])
  qed
  from this [OF s] b' show ?thesis by (simp add: word_le_nat_alt split: if_splits)
qed (use assms in \<open>auto simp: expand_packet_def\<close>)

lemma expand_packet_keeps_header:
  assumes "wf_pbuf b" and "buf_p b = Some (host_header M x y z @ rest)"
    and "expand_packet M b n = Inr (0, b')"
  shows "\<exists>rest'. buf_p b' = Some (host_header M x y z @ rest') \<and> unat n \<le> 12 + length rest'"
proof -
  obtain blk where blk: "buf_p b' = Some blk" "unat n \<le> length blk"
    using expand_packet_ok [OF assms(1,3)] by auto
  have "take 12 blk = host_header M x y z"
    using expand_packet_grown_prefix [OF assms(1,2,3) blk(1), of 12] by simp
  then have "blk = host_header M x y z @ drop 12 blk"
    by (metis append_take_drop_id)
  moreover have "12 \<le> length blk"
    using expand_packet_grows [OF assms(3)] assms(1,2) blk(1)
      expand_packet_preserves_wf [OF assms(1,3)]
    by (auto simp: wf_pbuf_def)
  ultimately show ?thesis using blk
    by (metis append_take_drop_id length_append length_headers(2))
qed

text \<open>
  How the destructors of the objects that own a buffer release it, with the block that is given
  to \<open>free\<close>. The test of the size would leak a block of size zero; \<open>expand_packet\<close> makes none.
\<close>

definition free_packet :: "pbuf \<Rightarrow> block option \<times> pbuf" where
  "free_packet b =
     (if buf_p b \<noteq> None \<and> buf_size b \<noteq> 0 then (buf_p b, null_buf) else (None, b))"

lemma double_until_nonzero:
  assumes "double_until s n = Some s'" and "0 < s"
  shows "0 < s'"
proof (cases "s < n")
  case True
  then have "s < s'" using double_until_ge [OF assms(1)] by (rule less_le_trans)
  then show ?thesis by (rule le_less_trans [OF word_zero_le])
next
  case False
  with assms show ?thesis by (simp add: double_until.simps [of s n])
qed

lemma expand_packet_freed:
  assumes "expand_packet M b n = Inr (r, b')" and "buf_p b \<noteq> None \<longrightarrow> buf_size b \<noteq> 0"
  shows "fst (free_packet b') = buf_p b' \<and> (buf_p b' \<noteq> None \<longrightarrow> buf_size b' \<noteq> 0)"
proof -
  define s where "s = (if buf_size b = 0 then 1 else buf_size b)"
  have "0 < s" by (simp add: s_def word_gt_0)
  then have nz: "s' \<noteq> 0" if "double_until s n = Some s'" for s'
    using double_until_nonzero [OF that] by (simp add: word_gt_0)
  show ?thesis
  proof (cases "buf_size b < n \<or> buf_p b = None")
    case True
    with assms(1) obtain s' where "double_until s n = Some s'"
      and "b' = \<lparr>buf_p = None, buf_size = s'\<rparr> \<or> (\<exists>blk. b' = \<lparr>buf_p = Some blk, buf_size = s'\<rparr>)"
      by (auto simp: expand_packet_def s_def [symmetric] split: option.splits)
    with nz show ?thesis by (auto simp: free_packet_def)
  next
    case False
    with assms show ?thesis by (auto simp: expand_packet_def free_packet_def)
  qed
qed

subsection \<open>The contract of a growable buffer\<close>

lemma wf_pbuf_store:
  assumes "wf_pbuf b" and "buf_p b = Some blk" and "length blk' = length blk"
  shows "wf_pbuf (b\<lparr>buf_p := Some blk'\<rparr>)"
  using assms by (auto simp: wf_pbuf_def)

text \<open>
  What a component relies on when it grows a buffer before it stores into it. \<open>fits n\<close>
  names the requests for which the operation is known to return.
\<close>

locale growable_buffer =
  fixes expand :: "machine \<Rightarrow> pbuf \<Rightarrow> u32 \<Rightarrow> (int \<times> pbuf) res"
    and wf :: "pbuf \<Rightarrow> bool"
    and fits :: "u32 \<Rightarrow> bool"
  assumes returns: "wf b \<Longrightarrow> fits n \<Longrightarrow> \<exists>r b'. expand M b n = Inr (r, b')"
    and result: "expand M b n = Inr (r, b') \<Longrightarrow> r = 0 \<or> r = -1 \<and> buf_p b' = None"
    and room: "wf b \<Longrightarrow> expand M b n = Inr (0, b') \<Longrightarrow>
      \<exists>blk. buf_p b' = Some blk \<and> unat n \<le> length blk"
    and keeps_wf: "wf b \<Longrightarrow> expand M b n = Inr (r, b') \<Longrightarrow> wf b'"
    and keeps_store: "wf b \<Longrightarrow> buf_p b = Some blk \<Longrightarrow> length blk' = length blk \<Longrightarrow>
      wf (b\<lparr>buf_p := Some blk'\<rparr>)"
    and only_hangs: "expand M b n = Inl e \<Longrightarrow> e = Hang"
begin

lemma fits_cases:
  assumes "wf b" and "fits n"
  obtains (grown) b' blk where "expand M b n = Inr (0, b')" "buf_p b' = Some blk"
      "unat n \<le> length blk" "wf b'"
    | (out_of_memory) b' where "expand M b n = Inr (-1, b')" "buf_p b' = None" "wf b'"
proof -
  from returns [OF assms] obtain r b' where e: "expand M b n = Inr (r, b')" by blast
  then have wf': "wf b'" using assms(1) by (rule keeps_wf [rotated])
  from result [OF e] show ?thesis
  proof
    assume "r = 0"
    with e room [OF assms(1)] wf' show ?thesis by (metis grown)
  next
    assume "r = -1 \<and> buf_p b' = None"
    with e wf' show ?thesis by (metis out_of_memory)
  qed
qed

lemma header_room:
  assumes "wf b" and "expand M b n = Inr (0, b')" and "12 \<le> unat n"
  shows "\<exists>blk. buf_p b' = Some blk \<and>
    store_header M x y z blk = Inr (host_header M x y z @ drop 12 blk)"
  using room [OF assms(1,2)] assms(3) by (auto intro!: store_header_ok)

lemma payload_room:
  assumes "wf b" and "expand M b n = Inr (0, b')" and "off + length bs \<le> unat n"
  shows "\<exists>blk blk'. buf_p b' = Some blk \<and> store_at off bs blk = Inr blk' \<and>
    length blk' = length blk"
  using room [OF assms(1,2)] assms(3)
  by (auto simp: store_at_def)

end

interpretation utils_buffer: growable_buffer expand_packet wf_pbuf "\<lambda>n. unat n \<le> 2147483648"
proof
  show "\<exists>r b'. expand_packet M b n = Inr (r, b')" if "unat n \<le> 2147483648" for M b n
    using that by (rule expand_packet_total)
  show "e = Hang" if "expand_packet M b n = Inl e" for M b n e
    using that by (auto simp: expand_packet_def Let_def split: if_splits option.splits)
qed (fact expand_packet_result expand_packet_ok expand_packet_preserves_wf wf_pbuf_store)+

subsection \<open>Frames written into a block\<close>

text \<open>
  The protocol's unit of transfer: the three lengths, then the bytes they count. All senders
  build it in a block and hand its first bytes to the socket.
\<close>

definition frame :: "u32 \<Rightarrow> u32 \<Rightarrow> u32 \<Rightarrow> byte list \<Rightarrow> byte list" where
  "frame a b c body = wire_header a b c @ body"

lemma length_frame [simp]: "length (frame a b c body) = 12 + length body"
  by (simp add: frame_def)

lemma frame_inject: "frame a b c xs = frame a' b' c' ys \<longleftrightarrow> a = a' \<and> b = b' \<and> c = c' \<and> xs = ys"
  by (auto simp: frame_def wire_header_inject)

lemma store_after_header:
  assumes "length xs \<le> length rest"
  shows "store_at 12 xs (host_header M a b c @ rest) =
    Inr (host_header M a b c @ xs @ drop (length xs) rest)"
  using assms by (simp add: store_at_def)

lemma store_after_prefix:
  assumes "length ys \<le> length rest" and "off = 12 + length xs"
  shows "store_at off ys (host_header M a b c @ xs @ rest) =
    Inr (host_header M a b c @ xs @ ys @ drop (length ys) rest)"
  using assms by (simp add: store_at_def)

lemma load_frame:
  assumes "n = 12 + length body"
  shows "load_at 0 n (wire_header a b c @ body @ rest) = Inr (frame a b c body)"
  using assms by (simp add: load_at_def frame_def)

lemma store_header_over:
  "store_header M x y z (host_header M a b c @ rest) = Inr (host_header M x y z @ rest)"
  by (simp add: store_header_ok)

subsection \<open>Sizes announced by a header\<close>

text \<open>
  \<open>n_ = sizeof(packet) + rpc_len + req_len + resp_len\<close>: the sum is taken in 64 bits and
  truncated to the 32 bits of \<open>n_\<close>, which is the sum modulo \<open>2 ^ 32\<close>.
\<close>

definition announced :: "u32 \<Rightarrow> u32 \<Rightarrow> u32 \<Rightarrow> u32" where
  "announced a b c = of_nat sizeof_packet + a + b + c"

text \<open>\<open>n_ - sizeof(packet)\<close> in \<open>size_t\<close>.\<close>

definition payload_size :: "u32 \<Rightarrow> u64" where
  "payload_size n = ucast n - of_nat sizeof_packet"

lemma unat_announced:
  assumes "12 + a + b + c < 4294967296"
  shows "unat (announced (of_nat a) (of_nat b) (of_nat c)) = 12 + a + b + c"
proof -
  have "announced (of_nat a) (of_nat b) (of_nat c) = (of_nat (12 + a + b + c) :: u32)"
    by (simp add: announced_def)
  then show ?thesis using assms by (simp del: of_nat_add)
qed

lemma unat_payload_size: "12 \<le> unat n \<Longrightarrow> unat (payload_size n) = unat n - 12"
  by (simp add: payload_size_def unat_sub_if')

lemma store_header_length:
  "store_header M x y z blk = Inr blk' \<Longrightarrow> length blk' = length blk"
  unfolding store_header_def store_u32_def and_then_eq_Inr_iff
  by (elim exE conjE) (simp add: store_at_length)

subsection \<open>Properties\<close>

lemma double_until_bound:
  "double_until s n = Some s' \<Longrightarrow> s' = s \<or> unat s' < 2 * unat n"
proof (rule double_until.raw_induct [where P = "\<lambda>s n s'. s' = s \<or> unat s' < 2 * unat n"])
  fix f :: "u32 \<Rightarrow> u32 \<Rightarrow> u32 option" and s n s'
  assume IH: "\<And>s n s'. f s n = Some s' \<Longrightarrow> s' = s \<or> unat s' < 2 * unat n"
    and step: "(if s < n then f (s * 2) n else Some s) = Some s'"
  show "s' = s \<or> unat s' < 2 * unat n"
  proof (cases "s < n")
    case True
    have "unat (s * 2) \<le> unat s * 2" by (simp add: unat_double)
    also have "\<dots> < 2 * unat n" using True by (simp add: word_less_nat_alt)
    finally show ?thesis using IH [of "s * 2" n s'] step True by auto
  qed (use step in simp)
qed

lemma expand_packet_hang_iff:
  assumes "wf_pbuf b"
  shows "expand_packet M b n = Inl Hang \<longleftrightarrow> 2147483648 < unat n"
proof (cases "unat n \<le> 2147483648")
  case True
  with expand_packet_total [OF True, of M b] show ?thesis by auto
next
  case False
  have "pow2_size (buf_size b)" "unat (buf_size b) \<le> 2147483648"
    using assms pow2_size_le by (auto simp: wf_pbuf_def)
  with False show ?thesis
    by (simp add: expand_packet_def Let_def word_less_nat_alt double_until_diverges)
qed

text \<open>
  C23. On a well-formed buffer \<open>expand_packet\<close> returns exactly when at most \<open>2 ^ 31\<close> bytes are
  asked for; beyond that the doubled size wraps to zero and the loop never ends.
\<close>

theorem expand_packet_returns_iff:
  assumes "wf_pbuf b"
  shows "(\<exists>r b'. expand_packet M b n = Inr (r, b')) \<longleftrightarrow> unat n \<le> 2147483648"
proof -
  have "e = Hang" if "expand_packet M b n = Inl e" for e
    using that by (rule utils_buffer.only_hangs)
  with expand_packet_hang_iff [OF assms, of M n] show ?thesis
    by (cases "expand_packet M b n") auto
qed

theorem expand_packet_returns_iff_witness:
  "\<not> (\<exists>r b'. expand_packet little_host null_buf 2147483649 = Inr (r, b')) \<and>
   (\<exists>r b'. expand_packet little_host null_buf 2147483648 = Inr (r, b'))"
  using expand_packet_returns_iff [OF wf_null_buf, of little_host] by simp

text \<open>
  C24. What \<open>expand_packet\<close> leaves behind when it returns: with result 0 a well-formed buffer
  with room for \<open>n\<close> bytes, whose old content is kept, which never shrinks, and which is not
  grown to twice what was asked for or more; with result -1 a null pointer, because the
  allocator refused.
\<close>

theorem expand_packet_correct:
  assumes "wf_pbuf b" and "expand_packet M b n = Inr (r, b')"
  shows "wf_pbuf b' \<and>
    (if r = 0 then
       (\<exists>blk. buf_p b' = Some blk \<and> unat n \<le> length blk \<and>
          (\<forall>old. buf_p b = Some old \<longrightarrow> length old \<le> length blk \<and> take (length old) blk = old)) \<and>
       unat (buf_size b') \<le> max (max 1 (unat (buf_size b))) (2 * unat n - 1)
     else r = -1 \<and> buf_p b' = None \<and> \<not> can_alloc M (unat (buf_size b')))"
proof (cases "r = 0")
  case True
  note e = assms(2) [unfolded True]
  obtain blk where blk: "buf_p b' = Some blk" "unat n \<le> length blk"
    using expand_packet_ok [OF assms(1) e] by auto
  have wf': "wf_pbuf b'" by (rule expand_packet_preserves_wf [OF assms])
  have keep: "length old \<le> length blk \<and> take (length old) blk = old" if "buf_p b = Some old" for old
    using expand_packet_grown_prefix [OF assms(1) that e blk(1) order_refl]
      expand_packet_grows [OF e] assms(1) wf' that blk(1)
    by (auto simp: wf_pbuf_def)
  have "unat (buf_size b') \<le> max (max 1 (unat (buf_size b))) (2 * unat n - 1)"
  proof (cases "buf_size b < n \<or> buf_p b = None")
    case True
    then have "double_until (if buf_size b = 0 then 1 else buf_size b) n = Some (buf_size b')"
      using e by (auto simp: expand_packet_def Let_def split: option.splits)
    from double_until_bound [OF this] show ?thesis by (auto split: if_splits)
  next
    case False
    then show ?thesis using e by (auto simp: expand_packet_def)
  qed
  with True blk keep wf' show ?thesis by auto
next
  case False
  with expand_packet_result [OF assms(2)] have "r = -1 \<and> buf_p b' = None" by simp
  moreover from this have "\<not> can_alloc M (unat (buf_size b'))"
    using assms(2) by (auto simp: expand_packet_def Let_def split: option.splits if_splits)
  ultimately show ?thesis using False expand_packet_preserves_wf [OF assms] by simp
qed

theorem expand_packet_correct_witness:
  "\<exists>r b'. expand_packet little_host null_buf 12 = Inr (r, b') \<and> wf_pbuf b' \<and> r = 0 \<and>
     unat (buf_size b') \<le> 23"
proof -
  obtain r b' where e: "expand_packet little_host null_buf 12 = Inr (r, b')"
    using expand_packet_total [of 12 little_host null_buf] by auto
  from expand_packet_correct [OF wf_null_buf e] show ?thesis
    using e by (auto simp: null_buf_def split: if_splits)
qed

end
