(* ===== verification/Rpc_Message.thy ===== *)
theory Rpc_Message
  imports Carrot_Prelude
begin

section \<open>The protocol messages: src/src/protob/rpc.pb.h and rpc.pb.cc\<close>

text \<open>
  \<open>carrot.rpc.Request\<close> and \<open>carrot.rpc.Response\<close>, the metadata that travels in front of the
  parameters of a call. The classes keep which fields are set in the bits of
  \<open>_has_bits_[0]\<close>; so do the records here. The protobuf runtime the generated code calls
  (\<open>WireFormatLite\<close>, \<open>CodedInputStream\<close>, \<open>UnknownFieldSet\<close>) is not part of the repository
  and is the parameter \<open>pb_lib\<close>; what the code relies on is stated in \<open>Message_Codec\<close>.
  The memo \<open>_cached_size_\<close>, which none of the modelled code reads, is left out, and
  \<open>VerifyUTF8StringNamedField\<close>, which only logs.
\<close>

subsection \<open>The protobuf runtime, as a parameter\<close>

text \<open>
  \<open>'is\<close>: the state of a \<open>CodedInputStream\<close>. \<open>'u\<close>: an \<open>UnknownFieldSet\<close>. A read returns the
  stream after it, \<open>None\<close> where the library returns false. A write returns the bytes stored
  at \<open>target\<close>.
\<close>

record ('is, 'u) pb_lib =
  GetTagFieldNumber :: "u32 \<Rightarrow> nat"
  GetTagWireType :: "u32 \<Rightarrow> nat"
  ReadTagWithCutoff :: "u32 \<Rightarrow> 'is \<Rightarrow> (u32 \<times> bool) \<times> 'is"
  ExpectTag :: "u32 \<Rightarrow> 'is \<Rightarrow> bool \<times> 'is"
  ExpectAtEnd :: "'is \<Rightarrow> bool \<times> 'is"
  ReadUInt64 :: "'is \<Rightarrow> (u64 \<times> 'is) option"
  ReadEnum :: "'is \<Rightarrow> (int \<times> 'is) option"
  ReadString :: "'is \<Rightarrow> (string \<times> 'is) option"
  SkipField :: "u32 \<Rightarrow> 'is \<Rightarrow> 'u \<Rightarrow> ('is \<times> 'u) option"
  WriteUInt64ToArray :: "nat \<Rightarrow> u64 \<Rightarrow> byte list"
  WriteEnumToArray :: "nat \<Rightarrow> int \<Rightarrow> byte list"
  WriteStringToArray :: "nat \<Rightarrow> string \<Rightarrow> byte list"
  SerializeUnknownFieldsToArray :: "'u \<Rightarrow> byte list"
  UInt64Size :: "u64 \<Rightarrow> nat"
  EnumSize :: "int \<Rightarrow> nat"
  StringSize :: "string \<Rightarrow> nat"
  ComputeUnknownFieldsSize :: "'u \<Rightarrow> nat"
  uf_new :: 'u
  uf_empty :: "'u \<Rightarrow> bool"
  uf_add_varint :: "nat \<Rightarrow> int \<Rightarrow> 'u \<Rightarrow> 'u"
  uf_merge :: "'u \<Rightarrow> 'u \<Rightarrow> 'u"

definition WIRETYPE_END_GROUP :: nat where "WIRETYPE_END_GROUP = 4"

text \<open>Where one turn of a parse loop goes: \<open>break\<close>, \<open>goto success\<close>, \<open>goto failure\<close>.\<close>

datatype parse_next = Continue | Success | Failure

subsection \<open>Request\<close>

record 'u Request =
  rq_has_bits :: u32
  rq_id :: u64
  rq_method_identity :: string
  rq_unknown :: 'u

definition Request_New :: "('is, 'u) pb_lib \<Rightarrow> 'u Request" where
  "Request_New L =
     \<lparr>rq_has_bits = 0, rq_id = 0, rq_method_identity = '''', rq_unknown = uf_new L\<rparr>"

definition Request_has_id :: "'u Request \<Rightarrow> bool" where
  "Request_has_id m \<longleftrightarrow> and (rq_has_bits m) 1 \<noteq> 0"

definition Request_has_method_identity :: "'u Request \<Rightarrow> bool" where
  "Request_has_method_identity m \<longleftrightarrow> and (rq_has_bits m) 2 \<noteq> 0"

definition Request_set_has_id :: "'u Request \<Rightarrow> 'u Request" where
  "Request_set_has_id m = m\<lparr>rq_has_bits := or (rq_has_bits m) 1\<rparr>"

definition Request_set_has_method_identity :: "'u Request \<Rightarrow> 'u Request" where
  "Request_set_has_method_identity m = m\<lparr>rq_has_bits := or (rq_has_bits m) 2\<rparr>"

definition Request_clear_id :: "'u Request \<Rightarrow> 'u Request" where
  "Request_clear_id m = m\<lparr>rq_id := 0, rq_has_bits := and (rq_has_bits m) (not 1)\<rparr>"

definition Request_clear_method_identity :: "'u Request \<Rightarrow> 'u Request" where
  "Request_clear_method_identity m =
     m\<lparr>rq_method_identity := '''', rq_has_bits := and (rq_has_bits m) (not 2)\<rparr>"

definition Request_set_id :: "u64 \<Rightarrow> 'u Request \<Rightarrow> 'u Request" where
  "Request_set_id v m = (Request_set_has_id m)\<lparr>rq_id := v\<rparr>"

definition Request_set_method_identity :: "string \<Rightarrow> 'u Request \<Rightarrow> 'u Request" where
  "Request_set_method_identity v m =
     (Request_set_has_method_identity m)\<lparr>rq_method_identity := v\<rparr>"

definition Request_Clear :: "('is, 'u) pb_lib \<Rightarrow> 'u Request \<Rightarrow> 'u Request" where
  "Request_Clear L m =
     (let m1 =
        (if and (rq_has_bits m) 3 \<noteq> 0 then
           (let m0 = m\<lparr>rq_id := 0\<rparr>
            in if Request_has_method_identity m0 then m0\<lparr>rq_method_identity := ''''\<rparr> else m0)
         else m)
      in m1\<lparr>rq_has_bits := 0, rq_unknown := uf_new L\<rparr>)"

definition Request_IsInitialized :: "'u Request \<Rightarrow> bool" where
  "Request_IsInitialized m \<longleftrightarrow> and (rq_has_bits m) 3 = 3"

text \<open>The code at the label \<open>parse_method_identity\<close>.\<close>

definition Request_parse_method_identity ::
  "('is, 'u) pb_lib \<Rightarrow> 'is \<Rightarrow> 'u Request \<Rightarrow> parse_next \<times> 'is \<times> 'u Request" where
  "Request_parse_method_identity L s m =
     (let m1 = Request_set_has_method_identity m in
      case ReadString L s of
        None \<Rightarrow> (Failure, s, m1)
      | Some (x, s1) \<Rightarrow>
          (let m2 = m1\<lparr>rq_method_identity := x\<rparr> in
           case ExpectAtEnd L s1 of (at_end, s2) \<Rightarrow>
             (if at_end then Success else Continue, s2, m2)))"

text \<open>The code at the label \<open>handle_unusual\<close>.\<close>

definition Request_handle_unusual ::
  "('is, 'u) pb_lib \<Rightarrow> u32 \<Rightarrow> 'is \<Rightarrow> 'u Request \<Rightarrow> parse_next \<times> 'is \<times> 'u Request" where
  "Request_handle_unusual L tag s m =
     (if tag = 0 \<or> GetTagWireType L tag = WIRETYPE_END_GROUP then (Success, s, m)
      else case SkipField L tag s (rq_unknown m) of
             None \<Rightarrow> (Failure, s, m)
           | Some (s1, u) \<Rightarrow> (Continue, s1, m\<lparr>rq_unknown := u\<rparr>))"

definition Request_parse_step ::
  "('is, 'u) pb_lib \<Rightarrow> 'is \<Rightarrow> 'u Request \<Rightarrow> parse_next \<times> 'is \<times> 'u Request" where
  "Request_parse_step L s m =
     (case ReadTagWithCutoff L 127 s of ((tag, known), s1) \<Rightarrow>
        if \<not> known then Request_handle_unusual L tag s1 m
        else if GetTagFieldNumber L tag = 1 then
          (if tag = 8 then
             (case ReadUInt64 L s1 of
                None \<Rightarrow> (Failure, s1, m)
              | Some (v, s2) \<Rightarrow>
                  (let m1 = Request_set_has_id (m\<lparr>rq_id := v\<rparr>) in
                   case ExpectTag L 18 s2 of (expected, s3) \<Rightarrow>
                     if expected then Request_parse_method_identity L s3 m1
                     else (Continue, s3, m1)))
           else Request_handle_unusual L tag s1 m)
        else if GetTagFieldNumber L tag = 2 then
          (if tag = 18 then Request_parse_method_identity L s1 m
           else Request_handle_unusual L tag s1 m)
        else Request_handle_unusual L tag s1 m)"

partial_function (option) Request_MergePartialFromCodedStream ::
  "('is, 'u) pb_lib \<Rightarrow> 'is \<Rightarrow> 'u Request \<Rightarrow> (bool \<times> 'is \<times> 'u Request) option" where
  "Request_MergePartialFromCodedStream L s m =
     (case Request_parse_step L s m of (nx, s1, m1) \<Rightarrow>
        (case nx of
           Success \<Rightarrow> Some (True, s1, m1)
         | Failure \<Rightarrow> Some (False, s1, m1)
         | Continue \<Rightarrow> Request_MergePartialFromCodedStream L s1 m1))"

definition Request_SerializeWithCachedSizesToArray ::
  "('is, 'u) pb_lib \<Rightarrow> 'u Request \<Rightarrow> byte list" where
  "Request_SerializeWithCachedSizesToArray L m =
     (if Request_has_id m then WriteUInt64ToArray L 1 (rq_id m) else []) @
     (if Request_has_method_identity m then WriteStringToArray L 2 (rq_method_identity m) else []) @
     (if \<not> uf_empty L (rq_unknown m) then SerializeUnknownFieldsToArray L (rq_unknown m) else [])"

definition Request_ByteSize :: "('is, 'u) pb_lib \<Rightarrow> 'u Request \<Rightarrow> nat" where
  "Request_ByteSize L m =
     (if and (rq_has_bits m) 255 \<noteq> 0 then
        (if Request_has_id m then 1 + UInt64Size L (rq_id m) else 0) +
        (if Request_has_method_identity m then 1 + StringSize L (rq_method_identity m) else 0)
      else 0) +
     (if \<not> uf_empty L (rq_unknown m) then ComputeUnknownFieldsSize L (rq_unknown m) else 0)"

definition Request_MergeFrom ::
  "('is, 'u) pb_lib \<Rightarrow> 'u Request \<Rightarrow> 'u Request \<Rightarrow> 'u Request" where
  "Request_MergeFrom L m from_m =
     (let m1 =
        (if and (rq_has_bits from_m) 255 \<noteq> 0 then
           (let m0 = (if Request_has_id from_m then Request_set_id (rq_id from_m) m else m)
            in if Request_has_method_identity from_m
               then Request_set_method_identity (rq_method_identity from_m) m0 else m0)
         else m)
      in m1\<lparr>rq_unknown := uf_merge L (rq_unknown m1) (rq_unknown from_m)\<rparr>)"

text \<open>\<open>CopyFrom\<close> of a distinct object; copying an object onto itself returns at once.\<close>

definition Request_CopyFrom ::
  "('is, 'u) pb_lib \<Rightarrow> 'u Request \<Rightarrow> 'u Request \<Rightarrow> 'u Request" where
  "Request_CopyFrom L m from_m = Request_MergeFrom L (Request_Clear L m) from_m"

definition Request_Swap :: "'u Request \<Rightarrow> 'u Request \<Rightarrow> 'u Request \<times> 'u Request" where
  "Request_Swap m other =
     (m\<lparr>rq_id := rq_id other, rq_method_identity := rq_method_identity other,
        rq_has_bits := rq_has_bits other, rq_unknown := rq_unknown other\<rparr>,
      other\<lparr>rq_id := rq_id m, rq_method_identity := rq_method_identity m,
        rq_has_bits := rq_has_bits m, rq_unknown := rq_unknown m\<rparr>)"

subsection \<open>Response\<close>

datatype Status = SUCCESS | ERROR | NOT_FOUND | FAILED

definition int_of_Status :: "Status \<Rightarrow> int" where
  "int_of_Status st = (case st of SUCCESS \<Rightarrow> 1 | ERROR \<Rightarrow> 2 | NOT_FOUND \<Rightarrow> 3 | FAILED \<Rightarrow> 4)"

definition Status_IsValid :: "int \<Rightarrow> bool" where
  "Status_IsValid v \<longleftrightarrow> v = 1 \<or> v = 2 \<or> v = 3 \<or> v = 4"

text \<open>\<open>static_cast<Status>\<close> of a valid value.\<close>

definition Status_of_int :: "int \<Rightarrow> Status" where
  "Status_of_int v =
     (if v = 2 then ERROR else if v = 3 then NOT_FOUND else if v = 4 then FAILED else SUCCESS)"

record 'u Response =
  rs_has_bits :: u32
  rs_id :: u64
  rs_status :: int
  rs_message :: string
  rs_unknown :: 'u

definition Response_New :: "('is, 'u) pb_lib \<Rightarrow> 'u Response" where
  "Response_New L =
     \<lparr>rs_has_bits = 0, rs_id = 0, rs_status = 1, rs_message = '''', rs_unknown = uf_new L\<rparr>"

definition Response_has_id :: "'u Response \<Rightarrow> bool" where
  "Response_has_id m \<longleftrightarrow> and (rs_has_bits m) 1 \<noteq> 0"

definition Response_has_status :: "'u Response \<Rightarrow> bool" where
  "Response_has_status m \<longleftrightarrow> and (rs_has_bits m) 2 \<noteq> 0"

definition Response_has_message :: "'u Response \<Rightarrow> bool" where
  "Response_has_message m \<longleftrightarrow> and (rs_has_bits m) 4 \<noteq> 0"

definition Response_set_has_id :: "'u Response \<Rightarrow> 'u Response" where
  "Response_set_has_id m = m\<lparr>rs_has_bits := or (rs_has_bits m) 1\<rparr>"

definition Response_set_has_status :: "'u Response \<Rightarrow> 'u Response" where
  "Response_set_has_status m = m\<lparr>rs_has_bits := or (rs_has_bits m) 2\<rparr>"

definition Response_set_has_message :: "'u Response \<Rightarrow> 'u Response" where
  "Response_set_has_message m = m\<lparr>rs_has_bits := or (rs_has_bits m) 4\<rparr>"

definition Response_clear_id :: "'u Response \<Rightarrow> 'u Response" where
  "Response_clear_id m = m\<lparr>rs_id := 0, rs_has_bits := and (rs_has_bits m) (not 1)\<rparr>"

definition Response_clear_status :: "'u Response \<Rightarrow> 'u Response" where
  "Response_clear_status m = m\<lparr>rs_status := 1, rs_has_bits := and (rs_has_bits m) (not 2)\<rparr>"

definition Response_clear_message :: "'u Response \<Rightarrow> 'u Response" where
  "Response_clear_message m = m\<lparr>rs_message := '''', rs_has_bits := and (rs_has_bits m) (not 4)\<rparr>"

definition Response_set_id :: "u64 \<Rightarrow> 'u Response \<Rightarrow> 'u Response" where
  "Response_set_id v m = (Response_set_has_id m)\<lparr>rs_id := v\<rparr>"

definition Response_set_status :: "Status \<Rightarrow> 'u Response \<Rightarrow> 'u Response" where
  "Response_set_status v m = (Response_set_has_status m)\<lparr>rs_status := int_of_Status v\<rparr>"

definition Response_set_message :: "string \<Rightarrow> 'u Response \<Rightarrow> 'u Response" where
  "Response_set_message v m = (Response_set_has_message m)\<lparr>rs_message := v\<rparr>"

definition Response_status :: "'u Response \<Rightarrow> Status" where
  "Response_status m = Status_of_int (rs_status m)"

definition Response_Clear :: "('is, 'u) pb_lib \<Rightarrow> 'u Response \<Rightarrow> 'u Response" where
  "Response_Clear L m =
     (let m1 =
        (if and (rs_has_bits m) 7 \<noteq> 0 then
           (let m0 = m\<lparr>rs_id := 0, rs_status := 1\<rparr>
            in if Response_has_message m0 then m0\<lparr>rs_message := ''''\<rparr> else m0)
         else m)
      in m1\<lparr>rs_has_bits := 0, rs_unknown := uf_new L\<rparr>)"

definition Response_IsInitialized :: "'u Response \<Rightarrow> bool" where
  "Response_IsInitialized m \<longleftrightarrow> and (rs_has_bits m) 3 = 3"

text \<open>The code at the labels \<open>parse_message\<close>, \<open>parse_status\<close> and \<open>handle_unusual\<close>.\<close>

definition Response_parse_message ::
  "('is, 'u) pb_lib \<Rightarrow> 'is \<Rightarrow> 'u Response \<Rightarrow> parse_next \<times> 'is \<times> 'u Response" where
  "Response_parse_message L s m =
     (let m1 = Response_set_has_message m in
      case ReadString L s of
        None \<Rightarrow> (Failure, s, m1)
      | Some (x, s1) \<Rightarrow>
          (let m2 = m1\<lparr>rs_message := x\<rparr> in
           case ExpectAtEnd L s1 of (at_end, s2) \<Rightarrow>
             (if at_end then Success else Continue, s2, m2)))"

definition Response_parse_status ::
  "('is, 'u) pb_lib \<Rightarrow> 'is \<Rightarrow> 'u Response \<Rightarrow> parse_next \<times> 'is \<times> 'u Response" where
  "Response_parse_status L s m =
     (case ReadEnum L s of
        None \<Rightarrow> (Failure, s, m)
      | Some (v, s1) \<Rightarrow>
          (let m1 = (if Status_IsValid v then Response_set_status (Status_of_int v) m
                     else m\<lparr>rs_unknown := uf_add_varint L 2 v (rs_unknown m)\<rparr>) in
           case ExpectTag L 26 s1 of (expected, s2) \<Rightarrow>
             if expected then Response_parse_message L s2 m1 else (Continue, s2, m1)))"

definition Response_handle_unusual ::
  "('is, 'u) pb_lib \<Rightarrow> u32 \<Rightarrow> 'is \<Rightarrow> 'u Response \<Rightarrow> parse_next \<times> 'is \<times> 'u Response" where
  "Response_handle_unusual L tag s m =
     (if tag = 0 \<or> GetTagWireType L tag = WIRETYPE_END_GROUP then (Success, s, m)
      else case SkipField L tag s (rs_unknown m) of
             None \<Rightarrow> (Failure, s, m)
           | Some (s1, u) \<Rightarrow> (Continue, s1, m\<lparr>rs_unknown := u\<rparr>))"

definition Response_parse_step ::
  "('is, 'u) pb_lib \<Rightarrow> 'is \<Rightarrow> 'u Response \<Rightarrow> parse_next \<times> 'is \<times> 'u Response" where
  "Response_parse_step L s m =
     (case ReadTagWithCutoff L 127 s of ((tag, known), s1) \<Rightarrow>
        if \<not> known then Response_handle_unusual L tag s1 m
        else if GetTagFieldNumber L tag = 1 then
          (if tag = 8 then
             (case ReadUInt64 L s1 of
                None \<Rightarrow> (Failure, s1, m)
              | Some (v, s2) \<Rightarrow>
                  (let m1 = Response_set_has_id (m\<lparr>rs_id := v\<rparr>) in
                   case ExpectTag L 16 s2 of (expected, s3) \<Rightarrow>
                     if expected then Response_parse_status L s3 m1
                     else (Continue, s3, m1)))
           else Response_handle_unusual L tag s1 m)
        else if GetTagFieldNumber L tag = 2 then
          (if tag = 16 then Response_parse_status L s1 m
           else Response_handle_unusual L tag s1 m)
        else if GetTagFieldNumber L tag = 3 then
          (if tag = 26 then Response_parse_message L s1 m
           else Response_handle_unusual L tag s1 m)
        else Response_handle_unusual L tag s1 m)"

partial_function (option) Response_MergePartialFromCodedStream ::
  "('is, 'u) pb_lib \<Rightarrow> 'is \<Rightarrow> 'u Response \<Rightarrow> (bool \<times> 'is \<times> 'u Response) option" where
  "Response_MergePartialFromCodedStream L s m =
     (case Response_parse_step L s m of (nx, s1, m1) \<Rightarrow>
        (case nx of
           Success \<Rightarrow> Some (True, s1, m1)
         | Failure \<Rightarrow> Some (False, s1, m1)
         | Continue \<Rightarrow> Response_MergePartialFromCodedStream L s1 m1))"

definition Response_SerializeWithCachedSizesToArray ::
  "('is, 'u) pb_lib \<Rightarrow> 'u Response \<Rightarrow> byte list" where
  "Response_SerializeWithCachedSizesToArray L m =
     (if Response_has_id m then WriteUInt64ToArray L 1 (rs_id m) else []) @
     (if Response_has_status m then WriteEnumToArray L 2 (rs_status m) else []) @
     (if Response_has_message m then WriteStringToArray L 3 (rs_message m) else []) @
     (if \<not> uf_empty L (rs_unknown m) then SerializeUnknownFieldsToArray L (rs_unknown m) else [])"

definition Response_ByteSize :: "('is, 'u) pb_lib \<Rightarrow> 'u Response \<Rightarrow> nat" where
  "Response_ByteSize L m =
     (if and (rs_has_bits m) 255 \<noteq> 0 then
        (if Response_has_id m then 1 + UInt64Size L (rs_id m) else 0) +
        (if Response_has_status m then 1 + EnumSize L (rs_status m) else 0) +
        (if Response_has_message m then 1 + StringSize L (rs_message m) else 0)
      else 0) +
     (if \<not> uf_empty L (rs_unknown m) then ComputeUnknownFieldsSize L (rs_unknown m) else 0)"

definition Response_MergeFrom ::
  "('is, 'u) pb_lib \<Rightarrow> 'u Response \<Rightarrow> 'u Response \<Rightarrow> 'u Response" where
  "Response_MergeFrom L m from_m =
     (let m1 =
        (if and (rs_has_bits from_m) 255 \<noteq> 0 then
           (let m0 = (if Response_has_id from_m then Response_set_id (rs_id from_m) m else m);
                m2 = (if Response_has_status from_m
                      then Response_set_status (Response_status from_m) m0 else m0)
            in if Response_has_message from_m
               then Response_set_message (rs_message from_m) m2 else m2)
         else m)
      in m1\<lparr>rs_unknown := uf_merge L (rs_unknown m1) (rs_unknown from_m)\<rparr>)"

definition Response_CopyFrom ::
  "('is, 'u) pb_lib \<Rightarrow> 'u Response \<Rightarrow> 'u Response \<Rightarrow> 'u Response" where
  "Response_CopyFrom L m from_m = Response_MergeFrom L (Response_Clear L m) from_m"

definition Response_Swap :: "'u Response \<Rightarrow> 'u Response \<Rightarrow> 'u Response \<times> 'u Response" where
  "Response_Swap m other =
     (m\<lparr>rs_id := rs_id other, rs_status := rs_status other, rs_message := rs_message other,
        rs_has_bits := rs_has_bits other, rs_unknown := rs_unknown other\<rparr>,
      other\<lparr>rs_id := rs_id m, rs_status := rs_status m, rs_message := rs_message m,
        rs_has_bits := rs_has_bits m, rs_unknown := rs_unknown m\<rparr>)"

subsection \<open>Which fields are set\<close>

text \<open>The masks of the generated code are tests of single bits.\<close>

lemma bit_small_numerals:
  "bit (1 :: u32) n \<longleftrightarrow> n = 0"
  "bit (2 :: u32) n \<longleftrightarrow> n = 1"
  "bit (4 :: u32) n \<longleftrightarrow> n = 2"
  using bit_push_bit_iff [of 1 "1 :: u32" n] bit_push_bit_iff [of 2 "1 :: u32" n]
  by (auto simp: bit_1_iff)

lemma and_mask_bits [simp]:
  "and (w :: u32) 1 \<noteq> 0 \<longleftrightarrow> bit w 0"
  "and (w :: u32) 2 \<noteq> 0 \<longleftrightarrow> bit w 1"
  "and (w :: u32) 4 \<noteq> 0 \<longleftrightarrow> bit w 2"
  using and_exp_eq_0_iff_not_bit [of w 0] and_exp_eq_0_iff_not_bit [of w 1]
    and_exp_eq_0_iff_not_bit [of w 2]
  by simp_all

lemma and_3_eq_3 [simp]: "and (w :: u32) 3 = 3 \<longleftrightarrow> bit w 0 \<and> bit w 1"
proof -
  have three: "bit (3 :: u32) n \<longleftrightarrow> n = 0 \<or> n = 1" for n
  proof -
    have "(3 :: u32) = or 1 2" by simp
    then show ?thesis by (simp only: bit_or_iff bit_small_numerals)
  qed
  show ?thesis
  proof
    assume "and w 3 = 3"
    then have "bit (and w 3) n = bit (3 :: u32) n" for n by simp
    from this [of 0] this [of 1] show "bit w 0 \<and> bit w 1"
      by (simp only: bit_and_iff three) simp
  next
    assume "bit w 0 \<and> bit w 1"
    then show "and w 3 = 3"
      by (intro bit_word_eqI) (auto simp only: bit_and_iff three)
  qed
qed

lemma Request_IsInitialized_iff:
  "Request_IsInitialized m \<longleftrightarrow> Request_has_id m \<and> Request_has_method_identity m"
  by (simp add: Request_IsInitialized_def Request_has_id_def Request_has_method_identity_def)

lemma Response_IsInitialized_iff:
  "Response_IsInitialized m \<longleftrightarrow> Response_has_id m \<and> Response_has_status m"
  by (simp add: Response_IsInitialized_def Response_has_id_def Response_has_status_def)

text \<open>Setters and tests, as rewrite rules.\<close>

lemma Request_set_simps [simp]:
  "Request_has_id (Request_set_id v m)"
  "Request_has_id (Request_set_has_id m)"
  "Request_has_id (Request_set_method_identity x m) = Request_has_id m"
  "Request_has_id (Request_set_has_method_identity m) = Request_has_id m"
  "Request_has_method_identity (Request_set_method_identity x m)"
  "Request_has_method_identity (Request_set_has_method_identity m)"
  "Request_has_method_identity (Request_set_id v m) = Request_has_method_identity m"
  "Request_has_method_identity (Request_set_has_id m) = Request_has_method_identity m"
  "rq_id (Request_set_id v m) = v"
  "rq_id (Request_set_method_identity x m) = rq_id m"
  "rq_method_identity (Request_set_method_identity x m) = x"
  "rq_method_identity (Request_set_id v m) = rq_method_identity m"
  "rq_unknown (Request_set_id v m) = rq_unknown m"
  "rq_unknown (Request_set_method_identity x m) = rq_unknown m"
  by (simp_all add: Request_has_id_def Request_set_id_def Request_set_has_id_def
      Request_has_method_identity_def Request_set_method_identity_def
      Request_set_has_method_identity_def bit_or_iff bit_small_numerals)

lemma Response_set_simps [simp]:
  "Response_has_id (Response_set_id v m)"
  "Response_has_id (Response_set_status st m) = Response_has_id m"
  "Response_has_id (Response_set_message x m) = Response_has_id m"
  "Response_has_status (Response_set_status st m)"
  "Response_has_status (Response_set_id v m) = Response_has_status m"
  "Response_has_status (Response_set_message x m) = Response_has_status m"
  "Response_has_message (Response_set_message x m)"
  "Response_has_message (Response_set_id v m) = Response_has_message m"
  "Response_has_message (Response_set_status st m) = Response_has_message m"
  "rs_id (Response_set_id v m) = v"
  "rs_id (Response_set_status st m) = rs_id m"
  "rs_id (Response_set_message x m) = rs_id m"
  "rs_message (Response_set_message x m) = x"
  "rs_message (Response_set_id v m) = rs_message m"
  "rs_message (Response_set_status st m) = rs_message m"
  "rs_message (Response_set_status st m) = rs_message m"
  "rs_unknown (Response_set_id v m) = rs_unknown m"
  "rs_unknown (Response_set_status st m) = rs_unknown m"
  "rs_unknown (Response_set_message x m) = rs_unknown m"
  by (simp_all add: Response_has_id_def Response_set_id_def Response_set_has_id_def
      Response_has_status_def Response_set_status_def Response_set_has_status_def
      Response_has_message_def Response_set_message_def Response_set_has_message_def
      bit_or_iff bit_small_numerals)

lemma Status_roundtrip [simp]:
  "Status_of_int (int_of_Status st) = st" "Status_IsValid (int_of_Status st)"
  by (cases st; simp add: Status_of_int_def int_of_Status_def Status_IsValid_def)+

lemma Status_of_int_inverse: "Status_IsValid v \<Longrightarrow> int_of_Status (Status_of_int v) = v"
  by (auto simp: Status_of_int_def int_of_Status_def Status_IsValid_def)

lemma Response_status_set [simp]:
  "Response_status (Response_set_status st m) = st"
  "Response_status (Response_set_id v m) = Response_status m"
  "Response_status (Response_set_message x m) = Response_status m"
  by (simp_all add: Response_status_def Response_set_status_def Response_set_id_def
      Response_set_message_def Response_set_has_id_def Response_set_has_message_def)

text \<open>
  A message whose fields hold their defaults where they are not set and which carries no
  unknown field: what \<open>New\<close>, \<open>Clear\<close> and the setters produce.
\<close>

definition Request_canonical :: "('is, 'u) pb_lib \<Rightarrow> 'u Request \<Rightarrow> bool" where
  "Request_canonical L m \<longleftrightarrow>
     m = (let m0 = Request_New L;
              m1 = (if Request_has_id m then Request_set_id (rq_id m) m0 else m0)
          in if Request_has_method_identity m
             then Request_set_method_identity (rq_method_identity m) m1 else m1)"

definition Response_canonical :: "('is, 'u) pb_lib \<Rightarrow> 'u Response \<Rightarrow> bool" where
  "Response_canonical L m \<longleftrightarrow>
     m = (let m0 = Response_New L;
              m1 = (if Response_has_id m then Response_set_id (rs_id m) m0 else m0);
              m2 = (if Response_has_status m then Response_set_status (Response_status m) m1 else m1)
          in if Response_has_message m then Response_set_message (rs_message m) m2 else m2)"

lemma has_New [simp]:
  "\<not> Request_has_id (Request_New L)" "\<not> Request_has_method_identity (Request_New L)"
  "\<not> Response_has_id (Response_New L)" "\<not> Response_has_status (Response_New L)"
  "\<not> Response_has_message (Response_New L)"
  by (simp_all add: Request_has_id_def Request_has_method_identity_def Response_has_id_def
      Response_has_status_def Response_has_message_def Request_New_def Response_New_def)

lemma Request_has_bits_eq_0:
  "and (rq_has_bits m) 255 = 0 \<Longrightarrow> \<not> Request_has_id m \<and> \<not> Request_has_method_identity m"
proof -
  assume "and (rq_has_bits m) 255 = 0"
  then have "and (and (rq_has_bits m) 255) k = 0" for k by simp
  from this [of 1] this [of 2] show ?thesis
    by (simp add: Request_has_id_def Request_has_method_identity_def and.assoc del: and_mask_bits)
qed

lemma Response_has_bits_eq_0:
  "and (rs_has_bits m) 255 = 0 \<Longrightarrow>
   \<not> Response_has_id m \<and> \<not> Response_has_status m \<and> \<not> Response_has_message m"
proof -
  assume "and (rs_has_bits m) 255 = 0"
  then have "and (and (rs_has_bits m) 255) k = 0" for k by simp
  from this [of 1] this [of 2] this [of 4] show ?thesis
    by (simp add: Response_has_id_def Response_has_status_def Response_has_message_def
        and.assoc del: and_mask_bits)
qed

lemma Request_canonical_unknown:
  assumes "Request_canonical L m" shows "rq_unknown m = uf_new L"
proof -
  have "rq_unknown m = rq_unknown (let m0 = Request_New L;
      m1 = (if Request_has_id m then Request_set_id (rq_id m) m0 else m0)
    in if Request_has_method_identity m
       then Request_set_method_identity (rq_method_identity m) m1 else m1)"
    using assms by (simp only: Request_canonical_def)
  then show ?thesis by (simp add: Let_def Request_New_def split: if_splits)
qed

lemma Response_canonical_unknown:
  assumes "Response_canonical L m" shows "rs_unknown m = uf_new L"
proof -
  have "rs_unknown m = rs_unknown (let m0 = Response_New L;
      m1 = (if Response_has_id m then Response_set_id (rs_id m) m0 else m0);
      m2 = (if Response_has_status m then Response_set_status (Response_status m) m1 else m1)
    in if Response_has_message m then Response_set_message (rs_message m) m2 else m2)"
    using assms by (simp only: Response_canonical_def)
  then show ?thesis by (simp add: Let_def Response_New_def split: if_splits)
qed

end
