(* ===== verification/Message_Codec.thy ===== *)
theory Message_Codec
  imports Rpc_Message
begin

section \<open>Messages as the channels and servers use them\<close>

text \<open>
  The channels and servers see a protobuf message only through three operations of the
  class \<open>google::protobuf::Message\<close>. \<open>message_api\<close> is that interface, for the protocol's own
  messages and for the parameters of the user's methods alike; \<open>message_codec\<close> is the
  contract its callers rely on. The locale \<open>wire_format\<close> states what the generated code of
  rpc.pb.cc relies on in the protobuf runtime, following the runtime's documentation;
  \<open>request_wire\<close> and \<open>response_wire\<close> derive the contract from it for the two messages of
  the protocol.
\<close>

record 'm message_api =
  ParseFromArray :: "byte list \<Rightarrow> 'm option"
  ByteSize :: "'m \<Rightarrow> nat"
  SerializeToArray :: "'m \<Rightarrow> nat \<Rightarrow> byte list option"

subsection \<open>The contract\<close>

text \<open>
  \<open>good m\<close>: the messages for which the round trip is promised (all required fields set).
\<close>

locale message_codec =
  fixes api :: "'m message_api"
    and good :: "'m \<Rightarrow> bool"
  assumes serialize_length: "SerializeToArray api m n = Some bs \<Longrightarrow> length bs = ByteSize api m"
    and serialize_good: "good m \<Longrightarrow> ByteSize api m \<le> n \<Longrightarrow> SerializeToArray api m n \<noteq> None"
    and roundtrip: "good m \<Longrightarrow> SerializeToArray api m n = Some bs \<Longrightarrow> ParseFromArray api bs = Some m"
begin

lemma good_bytes:
  assumes "good m" and "ByteSize api m \<le> n"
  obtains bs where "SerializeToArray api m n = Some bs" "length bs = ByteSize api m"
    "ParseFromArray api bs = Some m"
  using serialize_good [OF assms] serialize_length roundtrip [OF assms(1)]
  by (metis not_Some_eq)

end

text \<open>The protocol's messages as the handlers use them, and freshly constructed ones.\<close>

record 'u protocol =
  proto_request :: "'u Request message_api"
  proto_response :: "'u Response message_api"
  fresh_request :: "'u Request"
  fresh_response :: "'u Response"

subsection \<open>What the generated code relies on in the protobuf runtime\<close>

text \<open>
  \<open>rest s\<close>: the input still to be read; \<open>consumed s\<close>: \<open>ConsumedEntireMessage\<close>. \<open>ExpectTag\<close>
  and \<open>ExpectAtEnd\<close> are documented to return true only when the tag is next, or the input
  is at its end; they may return false even then, and the generated code has to cope.
  \<open>str_ok\<close> delimits the strings within the runtime's size limits.
\<close>

locale wire_format =
  fixes L :: "('is, 'u) pb_lib"
    and open_stream :: "byte list \<Rightarrow> 'is"
    and rest :: "'is \<Rightarrow> byte list"
    and consumed :: "'is \<Rightarrow> bool"
    and str_ok :: "string \<Rightarrow> bool"
    and enc_u64 :: "u64 \<Rightarrow> byte list"
    and enc_enum :: "int \<Rightarrow> byte list"
    and enc_str :: "string \<Rightarrow> byte list"
  assumes rest_open: "rest (open_stream bs) = bs"
    and tag_field_number: "k \<in> {8, 16, 18, 26} \<Longrightarrow> GetTagFieldNumber L k = unat k div 8"
    and read_tag: "rest s = t # r \<Longrightarrow> 0 < t \<Longrightarrow> t < 128 \<Longrightarrow>
      \<exists>s'. ReadTagWithCutoff L 127 s = ((ucast t, True), s') \<and> rest s' = r"
    and read_tag_end: "rest s = [] \<Longrightarrow>
      \<exists>s'. ReadTagWithCutoff L 127 s = ((0, False), s') \<and> consumed s'"
    and expect_tag: "ExpectTag L (ucast t) s = (True, s') \<Longrightarrow> t < 128 \<Longrightarrow> rest s = t # rest s'"
    and expect_tag_not: "ExpectTag L k s = (False, s') \<Longrightarrow> rest s' = rest s"
    and expect_at_end: "ExpectAtEnd L s = (True, s') \<Longrightarrow> rest s = [] \<and> consumed s'"
    and expect_at_end_not: "ExpectAtEnd L s = (False, s') \<Longrightarrow> rest s' = rest s"
    and write_u64: "WriteUInt64ToArray L 1 v = 8 # enc_u64 v"
    and write_enum: "WriteEnumToArray L 2 e = 16 # enc_enum e"
    and write_str: "WriteStringToArray L 2 x = 18 # enc_str x"
      "WriteStringToArray L 3 x = 26 # enc_str x"
    and read_u64: "rest s = enc_u64 v @ r \<Longrightarrow> \<exists>s'. ReadUInt64 L s = Some (v, s') \<and> rest s' = r"
    and read_enum: "rest s = enc_enum e @ r \<Longrightarrow> Status_IsValid e \<Longrightarrow>
      \<exists>s'. ReadEnum L s = Some (e, s') \<and> rest s' = r"
    and read_str: "rest s = enc_str x @ r \<Longrightarrow> str_ok x \<Longrightarrow>
      \<exists>s'. ReadString L s = Some (x, s') \<and> rest s' = r"
    and sizes: "UInt64Size L v = length (enc_u64 v)" "EnumSize L e = length (enc_enum e)"
      "StringSize L x = length (enc_str x)"
      "ComputeUnknownFieldsSize L u = length (SerializeUnknownFieldsToArray L u)"
    and new_empty: "uf_empty L (uf_new L)"
begin

lemma tags:
  "GetTagFieldNumber L 8 = 1" "GetTagFieldNumber L 16 = 2"
  "GetTagFieldNumber L 18 = 2" "GetTagFieldNumber L 26 = 3"
  by (simp_all add: tag_field_number)

text \<open>Reading one of the four tags of the two messages.\<close>

lemma read_known_tag:
  assumes "rest s = t # r" and "t \<in> {8, 16, 18, 26}"
  obtains s' where "ReadTagWithCutoff L 127 s = ((ucast t, True), s')" "rest s' = r"
  using read_tag [OF assms(1)] assms(2) by auto

lemma expect_known_tag:
  assumes "rest s = r" and "t \<in> {16, 18, 26}"
  obtains (there) s' where "ExpectTag L (ucast t) s = (True, s')" "r = t # rest s'"
    | (not_there) s' where "ExpectTag L (ucast t) s = (False, s')" "rest s' = r"
proof (cases "ExpectTag L (ucast t) s")
  case (Pair b s')
  show ?thesis
  proof (cases b)
    case True
    with Pair assms expect_tag [of t s s'] show ?thesis by (intro there [of s']) auto
  next
    case False
    with Pair assms expect_tag_not show ?thesis by (intro not_there [of s']) auto
  qed
qed

end

subsection \<open>The functions of MessageLite\<close>

text \<open>
  \<open>ParseFromArray\<close> and \<open>SerializeToArray\<close> are inherited from the runtime, which implements
  them by the generated functions.
\<close>

locale lite_message =
  fixes api :: "'m message_api"
    and open_stream :: "byte list \<Rightarrow> 'is"
    and consumed :: "'is \<Rightarrow> bool"
    and merge :: "'is \<Rightarrow> 'm \<Rightarrow> (bool \<times> 'is \<times> 'm) option"
    and fresh :: 'm
    and is_initialized :: "'m \<Rightarrow> bool"
    and byte_size :: "'m \<Rightarrow> nat"
    and serialize :: "'m \<Rightarrow> byte list"
  assumes parse: "merge (open_stream bs) fresh = Some (ok, s, m) \<Longrightarrow>
      ParseFromArray api bs = (if ok \<and> is_initialized m \<and> consumed s then Some m else None)"
    and size: "ByteSize api = byte_size"
    and serialize_some: "is_initialized m \<Longrightarrow> byte_size m \<le> n \<Longrightarrow> SerializeToArray api m n \<noteq> None"
    and serialize_is: "SerializeToArray api m n = Some bs \<Longrightarrow> bs = serialize m"
begin

lemma parse_serialized:
  assumes "merge (open_stream (serialize m)) fresh = Some (True, s, m)" and "consumed s"
    and "SerializeToArray api m n = Some bs"
  shows "ParseFromArray api bs = (if is_initialized m then Some m else None)"
  using parse [OF assms(1)] assms(2) serialize_is [OF assms(3)] by simp

end

end
