(* ===== verification/Controller.thy ===== *)
theory Controller
  imports Carrot_Prelude
begin

section \<open>CarrotController: src/src/common/carrot_controller.h\<close>

text \<open>
  The per-call record of failure, cancellation and addressing that clients and services
  share. A \<open>Closure*\<close> is represented by an optional name. The constructors leave
  \<open>cancel_callback_\<close> (and the default one \<open>timeout_\<close>) uninitialised, so the value such a
  field happens to have is an argument of the model's constructors.
\<close>

datatype error_code =
    EC_SUCCESS | EC_ERROR | EC_FAILED | EC_CONNECTION_FAILED | EC_OOM | EC_SERIALIZATION_ERROR
  | EC_TRANSPORT_ERROR | EC_INVALID_INTERNAL_STATE | EC_METHOD_NOT_FOUND | EC_RPC_TIMEOUT

definition TIMEOUT_NEVER :: u32 where "TIMEOUT_NEVER = 0"

record controller =
  ctl_failed :: bool
  ctl_cancelled :: bool
  ctl_error_text :: string
  ctl_cancel_callback :: "nat option"
  ctl_code :: error_code
  ctl_host :: string
  ctl_service :: string
  ctl_timeout :: u32

definition CarrotController_default :: "nat option \<Rightarrow> u32 \<Rightarrow> controller" where
  "CarrotController_default garbage_cb garbage_timeout =
     \<lparr>ctl_failed = False, ctl_cancelled = False, ctl_error_text = '''',
      ctl_cancel_callback = garbage_cb, ctl_code = EC_SUCCESS, ctl_host = '''',
      ctl_service = '''', ctl_timeout = garbage_timeout\<rparr>"

definition CarrotController_addr ::
  "nat option \<Rightarrow> string \<Rightarrow> string \<Rightarrow> u32 \<Rightarrow> controller" where
  "CarrotController_addr garbage_cb h s t =
     \<lparr>ctl_failed = False, ctl_cancelled = False, ctl_error_text = '''',
      ctl_cancel_callback = garbage_cb, ctl_code = EC_SUCCESS, ctl_host = h,
      ctl_service = s, ctl_timeout = t\<rparr>"

definition SetFailed :: "string \<Rightarrow> controller \<Rightarrow> controller" where
  "SetFailed reason c = c\<lparr>ctl_error_text := reason, ctl_failed := True, ctl_code := EC_FAILED\<rparr>"

definition SetFailed_ec :: "string \<Rightarrow> error_code \<Rightarrow> controller \<Rightarrow> controller" where
  "SetFailed_ec reason ec c = (SetFailed reason c)\<lparr>ctl_code := ec\<rparr>"

definition IsCanceled :: "controller \<Rightarrow> bool" where "IsCanceled c = ctl_cancelled c"
definition Failed :: "controller \<Rightarrow> bool" where "Failed c = ctl_failed c"
definition ErrorText :: "controller \<Rightarrow> string" where "ErrorText c = ctl_error_text c"
definition ErrorCode :: "controller \<Rightarrow> error_code" where "ErrorCode c = ctl_code c"

definition Reset :: "controller \<Rightarrow> controller" where
  "Reset c = c\<lparr>ctl_error_text := '''', ctl_cancelled := False, ctl_failed := False,
     ctl_code := EC_SUCCESS\<rparr>"

definition StartCancel :: "controller \<Rightarrow> controller" where
  "StartCancel c = c\<lparr>ctl_cancelled := True\<rparr>"

definition NotifyOnCancel :: "nat option \<Rightarrow> controller \<Rightarrow> controller" where
  "NotifyOnCancel cb c = c\<lparr>ctl_cancel_callback := cb\<rparr>"

lemmas controller_defs =
  CarrotController_default_def CarrotController_addr_def SetFailed_def SetFailed_ec_def
  IsCanceled_def Failed_def ErrorText_def ErrorCode_def Reset_def StartCancel_def
  NotifyOnCancel_def

lemma SetFailed_simps [simp]:
  "Failed (SetFailed r c)" "ErrorText (SetFailed r c) = r" "ErrorCode (SetFailed r c) = EC_FAILED"
  "Failed (SetFailed_ec r ec c)" "ErrorText (SetFailed_ec r ec c) = r"
  "ErrorCode (SetFailed_ec r ec c) = ec"
  "ctl_host (SetFailed r c) = ctl_host c" "ctl_service (SetFailed r c) = ctl_service c"
  "ctl_timeout (SetFailed r c) = ctl_timeout c"
  "ctl_host (SetFailed_ec r ec c) = ctl_host c"
  "ctl_service (SetFailed_ec r ec c) = ctl_service c"
  "ctl_timeout (SetFailed_ec r ec c) = ctl_timeout c"
  by (simp_all add: controller_defs)

lemma fresh_controller_simps [simp]:
  "\<not> Failed (CarrotController_default g t)"
  "ErrorCode (CarrotController_default g t) = EC_SUCCESS"
  "\<not> Failed (CarrotController_addr g h s t)"
  "ErrorCode (CarrotController_addr g h s t) = EC_SUCCESS"
  by (simp_all add: controller_defs)

text \<open>
  The consistency the code keeps between the failure flag, the code and the text: a
  controller that has not failed has no error text and the code \<open>EC_SUCCESS\<close>.
\<close>

definition wf_controller :: "controller \<Rightarrow> bool" where
  "wf_controller c \<longleftrightarrow> Failed c \<or> ErrorCode c = EC_SUCCESS \<and> ErrorText c = ''''"

lemma wf_controller_ops [simp, intro]:
  "wf_controller (CarrotController_default g t)"
  "wf_controller (CarrotController_addr g h s t)"
  "wf_controller (SetFailed r c)"
  "wf_controller (SetFailed_ec r ec c)"
  "wf_controller (Reset c)"
  "wf_controller c \<Longrightarrow> wf_controller (StartCancel c)"
  "wf_controller c \<Longrightarrow> wf_controller (NotifyOnCancel cb c)"
  by (auto simp: wf_controller_def controller_defs)

text \<open>The operations of a controller, as a client of it performs them, and their runs.\<close>

datatype controller_op =
    OpSetFailed string
  | OpSetFailedEc string error_code
  | OpReset
  | OpStartCancel
  | OpNotifyOnCancel "nat option"
  | OpHost string
  | OpService string
  | OpTimeout u32

fun controller_step :: "controller_op \<Rightarrow> controller \<Rightarrow> controller" where
  "controller_step (OpSetFailed r) c = SetFailed r c"
| "controller_step (OpSetFailedEc r ec) c = SetFailed_ec r ec c"
| "controller_step OpReset c = Reset c"
| "controller_step OpStartCancel c = StartCancel c"
| "controller_step (OpNotifyOnCancel cb) c = NotifyOnCancel cb c"
| "controller_step (OpHost h) c = c\<lparr>ctl_host := h\<rparr>"
| "controller_step (OpService s) c = c\<lparr>ctl_service := s\<rparr>"
| "controller_step (OpTimeout t) c = c\<lparr>ctl_timeout := t\<rparr>"

definition controller_run :: "controller_op list \<Rightarrow> controller \<Rightarrow> controller" where
  "controller_run = fold controller_step"

lemma controller_step_wf: "wf_controller c \<Longrightarrow> wf_controller (controller_step x c)"
  by (cases x) (auto simp: wf_controller_def controller_defs)

lemma controller_run_wf: "wf_controller c \<Longrightarrow> wf_controller (controller_run xs c)"
  unfolding controller_run_def
  by (induction xs arbitrary: c) (simp_all add: controller_step_wf)

subsection \<open>Property\<close>

text \<open>
  C29. Whatever operations a client and a service perform on a controller, in any order, one
  that does not report failure carries no error text and the code \<open>EC_SUCCESS\<close>, and a
  \<open>Reset\<close> makes it indistinguishable, in all the state a call inspects, from a fresh one.
\<close>

theorem controller_consistent:
  "let c = controller_run ops (CarrotController_addr g h s t) in
     (\<not> Failed c \<longrightarrow> ErrorCode c = EC_SUCCESS \<and> ErrorText c = '''') \<and>
     Failed (Reset c) = False \<and> IsCanceled (Reset c) = False \<and>
     ErrorCode (Reset c) = EC_SUCCESS \<and> ErrorText (Reset c) = ''''"
  using controller_run_wf [of "CarrotController_addr g h s t" ops]
  by (auto simp: Let_def wf_controller_def Reset_def controller_defs)

theorem controller_consistent_witness:
  "ErrorText (controller_run [OpSetFailed ''x'', OpStartCancel, OpReset]
     (CarrotController_addr None ''h'' ''80'' 5)) = ''''"
proof -
  have "\<not> Failed (controller_run [OpSetFailed ''x'', OpStartCancel, OpReset]
     (CarrotController_addr None ''h'' ''80'' 5))"
    by (simp add: controller_run_def controller_defs)
  with controller_consistent [of "[OpSetFailed ''x'', OpStartCancel, OpReset]" None "''h''" "''80''" 5]
  show ?thesis by (simp add: Let_def)
qed

end
