(* ===== verification/Service_Registry.thy ===== *)
theory Service_Registry
  imports Message_Codec Controller
begin

section \<open>Registering services and resolving a method identity\<close>

text \<open>
  The table of services every server keeps (\<open>CarrotServer\<close> in src/src/server/carrot_server.h
  and .cpp, and \<open>CarrotAsyncServer\<close> with the same code), and the resolution of the
  \<open>service.method\<close> string of a request that the three servers share. A service is the
  user's code and so a parameter: a \<open>service\<close> record with its name and its methods.
\<close>

subsection \<open>Services, as the user provides them\<close>

text \<open>
  \<open>call_method req ctl resp\<close> is \<open>Service::CallMethod\<close>: the controller and the response as
  the method leaves them, and the text of the exception it throws, if it throws one.
\<close>

record 'm rpc_method =
  request_api :: "'m message_api"
  response_api :: "'m message_api"
  response_new :: 'm
  call_method :: "'m \<Rightarrow> controller \<Rightarrow> 'm \<Rightarrow> controller \<times> 'm \<times> string option"

record 'm service =
  svc_name :: string
  find_method :: "string \<Rightarrow> 'm rpc_method option"

record 'm carrot_service =
  cs_s :: "'m service"
  cs_c :: "nat option"

type_synonym 'm services = "string \<Rightarrow> 'm carrot_service option"

subsection \<open>RegisterService\<close>

definition RegisterService ::
  "'m services \<Rightarrow> 'm service \<Rightarrow> nat option \<Rightarrow> bool \<times> 'm services" where
  "RegisterService tab s closure =
     (let key = svc_name s in
      if tab key \<noteq> None then (False, tab)
      else (True, tab(key \<mapsto> \<lparr>cs_s = s, cs_c = closure\<rparr>)))"

text \<open>
  The contract of a registry: a free name is bound, a bound name is left alone, and no other
  name is touched.
\<close>

locale registry =
  fixes look :: "'t \<Rightarrow> string \<Rightarrow> 'e option"
    and register :: "'t \<Rightarrow> 'e \<Rightarrow> bool \<times> 't"
    and name_of :: "'e \<Rightarrow> string"
  assumes binds: "look t (name_of e) = None \<Longrightarrow> fst (register t e) \<and>
      look (snd (register t e)) = (look t)(name_of e \<mapsto> e)"
    and refuses: "look t (name_of e) \<noteq> None \<Longrightarrow> register t e = (False, t)"
begin

lemma register_keeps: "look t k = Some e \<Longrightarrow> look (snd (register t e')) k = Some e"
  using binds [of t e'] refuses [of t e'] by (cases "look t (name_of e')") auto

lemma register_accepts_iff: "fst (register t e) \<longleftrightarrow> look t (name_of e) = None"
  using binds [of t e] refuses [of t e] by (cases "look t (name_of e)") auto

lemma fold_register_look:
  "look (fold (\<lambda>e t. snd (register t e)) es t) k =
     (case look t k of Some e \<Rightarrow> Some e | None \<Rightarrow> find (\<lambda>e. name_of e = k) es)"
proof (induction es arbitrary: t)
  case Nil
  then show ?case by (simp split: option.splits)
next
  case (Cons e es)
  show ?case
    using Cons.IH [of "snd (register t e)"] binds [of t e] refuses [of t e]
      register_keeps [of t k _ e]
    by (cases "look t (name_of e)") (auto split: option.splits)
qed

end

definition register_entry :: "'m services \<Rightarrow> 'm carrot_service \<Rightarrow> bool \<times> 'm services" where
  "register_entry tab e = RegisterService tab (cs_s e) (cs_c e)"

interpretation service_table: registry "\<lambda>tab. tab" register_entry
  "\<lambda>e. svc_name (cs_s e)"
  by unfold_locales (auto simp: register_entry_def RegisterService_def Let_def)

subsection \<open>From a method identity to a method\<close>

text \<open>\<open>std::string::find_first_of(c)\<close>; \<open>None\<close> is \<open>npos\<close>.\<close>

fun find_first_of :: "char \<Rightarrow> string \<Rightarrow> nat option" where
  "find_first_of c [] = None"
| "find_first_of c (x # xs) = (if x = c then Some 0 else map_option Suc (find_first_of c xs))"

datatype 'm dispatch =
    InvalidIdentity
  | ServiceNotFound
  | MethodNotFound
  | Target "'m carrot_service" "'m rpc_method"

definition dispatch_to :: "'m services \<Rightarrow> string \<Rightarrow> 'm dispatch" where
  "dispatch_to tab method_identity =
     (case find_first_of CHR ''.'' method_identity of
        None \<Rightarrow> InvalidIdentity
      | Some pos \<Rightarrow>
          (let service_name = take pos method_identity;
               method_name = drop (pos + 1) method_identity in
           case tab service_name of
             None \<Rightarrow> ServiceNotFound
           | Some cs \<Rightarrow>
               (case find_method (cs_s cs) method_name of
                  None \<Rightarrow> MethodNotFound
                | Some md \<Rightarrow> Target cs md)))"

text \<open>\<open>method->service()->name() + "." + method->name()\<close>, as the channels write it.\<close>

definition identity_of :: "string \<Rightarrow> string \<Rightarrow> string" where
  "identity_of service_name method_name = service_name @ ''.'' @ method_name"

lemma find_first_of_None: "find_first_of c x = None \<longleftrightarrow> c \<notin> set x"
  by (induction x) auto

lemma find_first_of_app:
  "c \<notin> set x \<Longrightarrow> find_first_of c (x @ c # y) = Some (length x)"
  by (induction x) auto

lemma find_first_of_Some:
  "find_first_of c x = Some n \<Longrightarrow> x = take n x @ c # drop (n + 1) x \<and> c \<notin> set (take n x)"
  by (induction x arbitrary: n) (auto split: if_splits)

lemma dispatch_identity:
  assumes "CHR ''.'' \<notin> set sn"
  shows "dispatch_to tab (identity_of sn mn) =
    (case tab sn of
       None \<Rightarrow> ServiceNotFound
     | Some cs \<Rightarrow> (case find_method (cs_s cs) mn of None \<Rightarrow> MethodNotFound | Some md \<Rightarrow> Target cs md))"
  using find_first_of_app [OF assms, of mn]
  by (simp add: dispatch_to_def identity_of_def)

lemma dispatch_invalid_iff:
  "dispatch_to tab x = InvalidIdentity \<longleftrightarrow> CHR ''.'' \<notin> set x"
  by (auto simp: dispatch_to_def Let_def find_first_of_None [symmetric] split: option.splits)

subsection \<open>Properties\<close>

text \<open>
  Registering a list of services into an empty table binds each name to the first service
  of that name, with its closure, and no other name: a later service cannot replace an
  earlier one.
\<close>

theorem register_first_wins:
  "fold (\<lambda>(s, c) tab. snd (RegisterService tab s c)) regs (\<lambda>_. None) name =
   map_option (\<lambda>(s, c). \<lparr>cs_s = s, cs_c = c\<rparr>) (find (\<lambda>(s, c). svc_name s = name) regs)"
proof -
  let ?entry = "\<lambda>(s, c). \<lparr>cs_s = s, cs_c = c\<rparr> :: 'a carrot_service"
  have "fold (\<lambda>(s, c) tab. snd (RegisterService tab s c)) regs tab =
      fold (\<lambda>e t. snd (register_entry t e)) (map ?entry regs) tab" for tab
    by (induction regs arbitrary: tab) (auto simp: register_entry_def)
  moreover have "find (\<lambda>e. svc_name (cs_s e) = name) (map ?entry regs) =
      map_option ?entry (find (\<lambda>(s, c). svc_name s = name) regs)"
    by (induction regs) auto
  ultimately show ?thesis
    using service_table.fold_register_look [of "map ?entry regs" "\<lambda>_. None" name] by simp
qed

text \<open>
  The identity a channel writes for a method is resolved by the server to that method
  of the service registered under that name: splitting at the first dot undoes the join,
  for service names without a dot, whatever the method name contains.
\<close>

theorem identity_resolves:
  assumes "CHR ''.'' \<notin> set sn" and "tab sn = Some cs" and "find_method (cs_s cs) mn = Some md"
  shows "dispatch_to tab (identity_of sn mn) = Target cs md"
  using assms by (simp add: dispatch_identity)

definition nat_api :: "nat message_api" where
  "nat_api = \<lparr>ParseFromArray = (\<lambda>bs. Some (length bs)), ByteSize = (\<lambda>n. n),
     SerializeToArray = (\<lambda>m n. if m \<le> n then Some (replicate m 0) else None)\<rparr>"

definition example_method :: "nat rpc_method" where
  "example_method = \<lparr>request_api = nat_api, response_api = nat_api, response_new = 0,
     call_method = (\<lambda>req ctl resp. (ctl, req + 1, None))\<rparr>"

definition example_service :: "nat service" where
  "example_service = \<lparr>svc_name = ''Math'',
     find_method = (\<lambda>m. if m = ''next.one'' then Some example_method else None)\<rparr>"

theorem identity_resolves_witness:
  "dispatch_to (snd (RegisterService (\<lambda>_. None) example_service None)) (identity_of ''Math'' ''next.one'') =
   Target \<lparr>cs_s = example_service, cs_c = None\<rparr> example_method"
  by (rule identity_resolves) (simp_all add: RegisterService_def example_service_def)

end
