(* ===== verification/Blocking_Requests.thy ===== *)
theory Blocking_Requests
  imports Socket_IO Packet_Buffer Service_Registry
begin

section \<open>Blocking requests: what the simple and the threaded server have in common\<close>

text \<open>
  The two servers in src/src/server/carrot_simple_server.cpp and carrot_threaded_server.cpp
  handle a request in the same way, statement by statement, over blocking descriptors: read
  three lengths, make room, read the payload, parse, dispatch, call, reply. They differ in how
  they grow the buffer, in the widths of the lengths, and in what they do afterwards. The
  common parts are here, over the function \<open>expand\<close> that grows the buffer, with their lemmas
  proved once in the locale \<open>growable_buffer\<close>. The blocking channel shares the reading of the
  three lengths.
\<close>

subsection \<open>Descriptors\<close>

text \<open>
  The process's descriptors: the open ones with the sockets they refer to, and \<open>errno\<close>. A
  system call on a closed descriptor fails with \<open>EBADF\<close>.
\<close>

definition EBADF :: nat where "EBADF = 9"

record os =
  os_fds :: "nat \<Rightarrow> sock option"
  os_errno :: nat

definition fd_read_n :: "nat \<Rightarrow> nat \<Rightarrow> os \<Rightarrow> (int \<times> byte list \<times> os) res" where
  "fd_read_n fd n w =
     (case os_fds w fd of
        None \<Rightarrow> Inr (if n = 0 then (0, [], w) else (-1, [], w\<lparr>os_errno := EBADF\<rparr>))
      | Some s \<Rightarrow>
          and_then (read_n (s\<lparr>errno := os_errno w\<rparr>) n) (\<lambda>(r, bs, s').
            Inr (r, bs, w\<lparr>os_fds := (os_fds w)(fd \<mapsto> s'), os_errno := errno s'\<rparr>)))"

definition fd_write_n :: "nat \<Rightarrow> byte list \<Rightarrow> os \<Rightarrow> int \<times> os" where
  "fd_write_n fd bs w =
     (case os_fds w fd of
        None \<Rightarrow> if bs = [] then (0, w) else (-1, w\<lparr>os_errno := EBADF\<rparr>)
      | Some s \<Rightarrow>
          (case write_n (s\<lparr>errno := os_errno w\<rparr>) bs of (r, s') \<Rightarrow>
             (r, w\<lparr>os_fds := (os_fds w)(fd \<mapsto> s'), os_errno := errno s'\<rparr>)))"

definition fd_close :: "nat \<Rightarrow> os \<Rightarrow> int \<times> os" where
  "fd_close fd w =
     (case os_fds w fd of
        None \<Rightarrow> (-1, w\<lparr>os_errno := EBADF\<rparr>)
      | Some s \<Rightarrow> (0, w\<lparr>os_fds := (os_fds w)(fd := None)\<rparr>))"

text \<open>
  The macro of utils.h that repeats a system call while a signal interrupts it. The servers
  close descriptors under it. \<open>close\<close> is not interrupted here, so it is evaluated once, and the
  operations below call \<open>fd_close\<close> in its place.
\<close>

partial_function (option) TEMP_FAILURE_RETRY :: "(os \<Rightarrow> int \<times> os) \<Rightarrow> os \<Rightarrow> (int \<times> os) option" where
  "TEMP_FAILURE_RETRY call w =
     (case call w of (r, w') \<Rightarrow>
        if r = -1 \<and> os_errno w' = EINTR then TEMP_FAILURE_RETRY call w' else Some (r, w'))"

lemma TEMP_FAILURE_RETRY_fd_close: "TEMP_FAILURE_RETRY (fd_close fd) w = Some (fd_close fd w)"
  by (subst TEMP_FAILURE_RETRY.simps) (auto simp: fd_close_def EBADF_def EINTR_def split: option.split)

subsection \<open>Receiving a request\<close>

text \<open>The three lengths, converted to host order, or \<open>None\<close> when one of the reads fails.\<close>

definition read_lengths ::
  "machine \<Rightarrow> nat \<Rightarrow> os \<Rightarrow> ((u32 \<times> u32 \<times> u32) option \<times> os) res" where
  "read_lengths M fd w =
     and_then (fd_read_n fd 4 w) (\<lambda>(r, rpc, w).
     if r = -1 then Inr (None, w) else
     and_then (fd_read_n fd 4 w) (\<lambda>(r, req, w).
     if r = -1 then Inr (None, w) else
     and_then (fd_read_n fd 4 w) (\<lambda>(r, resp, w).
     if r = -1 then Inr (None, w) else
       Inr (Some (ntohl M (host_word M rpc), ntohl M (host_word M req), ntohl M (host_word M resp)), w))))"

text \<open>
  \<open>None\<close>: a read or the allocator failed, and the connection is to be destroyed. Bytes that
  the last read stores before it fails stay in the buffer.
\<close>

definition receive_packet ::
  "(machine \<Rightarrow> pbuf \<Rightarrow> u32 \<Rightarrow> (int \<times> pbuf) res) \<Rightarrow> machine \<Rightarrow> nat \<Rightarrow> pbuf \<Rightarrow> os \<Rightarrow>
   ((u32 \<times> u32) option \<times> pbuf \<times> os) res" where
  "receive_packet expand M fd b w =
     and_then (read_lengths M fd w) (\<lambda>(ls, w).
     case ls of
       None \<Rightarrow> Inr (None, b, w)
     | Some (rpc_len, req_len, resp_len) \<Rightarrow>
         (let n = announced rpc_len req_len resp_len in
          and_then (expand M b n) (\<lambda>(r, b).
          if r = -1 then Inr (None, b, w) else
          and_then (deref (buf_p b)) (\<lambda>blk.
          and_then (store_header M rpc_len req_len resp_len blk) (\<lambda>blk.
          and_then (fd_read_n fd (unat (payload_size n)) w) (\<lambda>(r, bs, w).
          and_then (store_at off_data bs blk) (\<lambda>blk.
            Inr (if r = -1 then None else Some (rpc_len, req_len), b\<lparr>buf_p := Some blk\<rparr>, w))))))))"

subsection \<open>Answering it\<close>

text \<open>
  \<open>Drop\<close>: the connection is destroyed without a reply. \<open>Throws\<close>: the method threw; neither
  server catches it.
\<close>

datatype ('m, 'u) answer =
    Drop
  | Reply "('m message_api \<times> 'm) option" "'u Response"
  | Throws string

definition not_found :: "string \<Rightarrow> 'u protocol \<Rightarrow> 'u Response" where
  "not_found msg P = Response_set_message msg (Response_set_status NOT_FOUND (fresh_response P))"

definition outcome_of :: "controller \<Rightarrow> 'u protocol \<Rightarrow> 'u Response" where
  "outcome_of ctl P =
     (if Failed ctl
      then Response_set_message ''server side failure'' (Response_set_status FAILED (fresh_response P))
      else Response_set_status SUCCESS (fresh_response P))"

definition serve_request ::
  "machine \<Rightarrow> 'u protocol \<Rightarrow> 'm services \<Rightarrow> u32 \<Rightarrow> u32 \<Rightarrow> block \<Rightarrow> 'u Request \<Rightarrow> ('m, 'u) answer res" where
  "serve_request M P tab rpc_len req_len blk rpc_req =
     (case dispatch_to tab (rq_method_identity rpc_req) of
        InvalidIdentity \<Rightarrow> Inr (Reply None (not_found ''invalid method method identity'' P))
      | ServiceNotFound \<Rightarrow> Inr (Reply None (not_found ''service not found'' P))
      | MethodNotFound \<Rightarrow> Inr (Reply None (not_found ''method not found'' P))
      | Target cs md \<Rightarrow>
          and_then (load_at (off_data + unat rpc_len) (unat req_len) blk) (\<lambda>param.
          case ParseFromArray (request_api md) param of
            None \<Rightarrow> Inr Drop
          | Some request \<Rightarrow>
              (case call_method md request
                      (CarrotController_default (junk_callback M) (junk_u32 M)) (response_new md) of
                 (ctl, response, thrown) \<Rightarrow>
                   (case thrown of
                      Some what \<Rightarrow> Inr (Throws what)
                    | None \<Rightarrow> Inr (Reply (Some (response_api md, response)) (outcome_of ctl P))))))"

definition parse_and_serve ::
  "machine \<Rightarrow> 'u protocol \<Rightarrow> 'm services \<Rightarrow> u32 \<Rightarrow> u32 \<Rightarrow> pbuf \<Rightarrow> ('m, 'u) answer res" where
  "parse_and_serve M P tab rpc_len req_len b =
     and_then (deref (buf_p b)) (\<lambda>blk.
     and_then (load_at off_data (unat rpc_len) blk) (\<lambda>meta.
     case ParseFromArray (proto_request P) meta of
       None \<Rightarrow> Inr Drop
     | Some rpc_req \<Rightarrow> serve_request M P tab rpc_len req_len blk rpc_req))"

subsection \<open>Building the reply\<close>

text \<open>
  The bytes handed to \<open>write_n\<close>, or \<open>None\<close> when the allocator or a serialisation fails. The
  log statement evaluates \<open>resp->DebugString()\<close> before anything else. \<open>len\<close> is the width the
  lengths are kept in: \<open>size_t\<close> in one server, \<open>uint32_t\<close> in the other.
\<close>

definition build_reply ::
  "(machine \<Rightarrow> pbuf \<Rightarrow> u32 \<Rightarrow> (int \<times> pbuf) res) \<Rightarrow> (nat \<Rightarrow> nat) \<Rightarrow> machine \<Rightarrow> 'u protocol \<Rightarrow>
   ('m message_api \<times> 'm) option \<Rightarrow> 'u Response option \<Rightarrow> pbuf \<Rightarrow> (byte list option \<times> pbuf) res" where
  "build_reply expand len M P resp rpc_resp b =
     (let rpc_len = len (case rpc_resp of None \<Rightarrow> 0 | Some r \<Rightarrow> ByteSize (proto_response P) r);
          resp_len = len (case resp of None \<Rightarrow> 0 | Some (api, m) \<Rightarrow> ByteSize api m);
          n = len (sizeof_packet + rpc_len + resp_len) in
      and_then (deref resp) (\<lambda>_.
      and_then (expand M b (of_nat n)) (\<lambda>(r, b).
        if r = -1 then Inr (None, b)
        else
          and_then (deref (buf_p b)) (\<lambda>blk.
          and_then (store_header M (htonl M (of_nat rpc_len)) (htonl M 0)
                      (htonl M (of_nat resp_len)) blk) (\<lambda>blk.
          case (case rpc_resp of None \<Rightarrow> Some []
                | Some rr \<Rightarrow> SerializeToArray (proto_response P) rr rpc_len) of
            None \<Rightarrow> Inr (None, b\<lparr>buf_p := Some blk\<rparr>)
          | Some bs1 \<Rightarrow>
              and_then (store_at off_data bs1 blk) (\<lambda>blk.
              case (case resp of None \<Rightarrow> Some []
                    | Some (api, m) \<Rightarrow> SerializeToArray api m resp_len) of
                None \<Rightarrow> Inr (None, b\<lparr>buf_p := Some blk\<rparr>)
              | Some bs2 \<Rightarrow>
                  and_then (store_at (off_data + rpc_len) bs2 blk) (\<lambda>blk.
                  and_then (load_at 0 n blk) (\<lambda>out.
                    Inr (Some out, b\<lparr>buf_p := Some blk\<rparr>)))))))))"

subsection \<open>What the descriptor operations touch\<close>

text \<open>Only the descriptor they are given, which stays open.\<close>

definition touches :: "nat \<Rightarrow> os \<Rightarrow> os \<Rightarrow> bool" where
  "touches fd w w' \<longleftrightarrow> (\<forall>x. x \<noteq> fd \<longrightarrow> os_fds w' x = os_fds w x) \<and>
     (os_fds w' fd = None \<longleftrightarrow> os_fds w fd = None)"

named_theorems os_frame \<open>which descriptors an operation touches\<close>

lemma touches_refl [simp, os_frame]: "touches fd w w"
  by (simp add: touches_def)

lemma touches_trans: "touches fd w w1 \<Longrightarrow> touches fd w1 w2 \<Longrightarrow> touches fd w w2"
  by (simp add: touches_def)

lemma touches_dom: "touches fd w w' \<Longrightarrow> dom (os_fds w') = dom (os_fds w)"
  by (auto simp: touches_def dom_def) (metis option.distinct(1) option.exhaust)+

lemma fd_read_touches [os_frame]: "fd_read_n fd n w = Inr (r, bs, w') \<Longrightarrow> touches fd w w'"
  by (auto simp: fd_read_n_def touches_def res_simps split: option.splits if_splits)

lemma fd_write_touches [os_frame]: "fd_write_n fd bs w = (r, w') \<Longrightarrow> touches fd w w'"
  by (auto simp: fd_write_n_def touches_def split: option.splits if_splits prod.splits)

lemma read_lengths_touches [os_frame]: "read_lengths M fd w = Inr (ls, w') \<Longrightarrow> touches fd w w'"
  unfolding read_lengths_def
  by (auto simp: res_simps split: if_splits dest!: fd_read_touches intro: touches_trans)

lemma receive_touches [os_frame]:
  assumes "receive_packet expand M fd b w = Inr (got, b', w')"
  shows "touches fd w w'"
  using assms unfolding receive_packet_def
  by (auto simp: res_simps Let_def split: if_splits option.splits
      dest!: fd_read_touches read_lengths_touches intro: touches_trans)

subsection \<open>Reading from a descriptor whose peer has sent enough, or too little\<close>

text \<open>What the peer of a descriptor has sent that is not read yet, and what ends it.\<close>

definition to_read :: "nat \<Rightarrow> os \<Rightarrow> byte list" where
  "to_read fd w = (case os_fds w fd of None \<Rightarrow> [] | Some s \<Rightarrow> incoming (inq s))"

definition end_errno :: "nat \<Rightarrow> os \<Rightarrow> nat" where
  "end_errno fd w =
     (case os_fds w fd of None \<Rightarrow> EBADF | Some s \<Rightarrow> final_errno (inq s) (os_errno w))"

text \<open>What has been sent to it, and what the kernel will answer to writes.\<close>

definition sent_to :: "nat \<Rightarrow> os \<Rightarrow> byte list" where
  "sent_to fd w = (case os_fds w fd of None \<Rightarrow> [] | Some s \<Rightarrow> sent s)"

definition write_answers :: "nat \<Rightarrow> os \<Rightarrow> write_event list option" where
  "write_answers fd w = map_option outq (os_fds w fd)"

definition will_accept :: "nat \<Rightarrow> os \<Rightarrow> bool" where
  "will_accept fd w = (case write_answers fd w of None \<Rightarrow> False | Some q \<Rightarrow> accepting q)"

text \<open>\<open>advanced\<close>: bytes have been read from \<open>fd\<close> and nothing else has happened.\<close>

definition advanced :: "nat \<Rightarrow> byte list \<Rightarrow> os \<Rightarrow> os \<Rightarrow> bool" where
  "advanced fd bs w w' \<longleftrightarrow> touches fd w w' \<and> to_read fd w = bs @ to_read fd w' \<and>
     end_errno fd w' = end_errno fd w \<and> sent_to fd w' = sent_to fd w \<and>
     write_answers fd w' = write_answers fd w"

lemma advanced_trans: "advanced fd xs w w1 \<Longrightarrow> advanced fd ys w1 w2 \<Longrightarrow> advanced fd (xs @ ys) w w2"
  by (auto simp: advanced_def intro: touches_trans)

lemma fd_read_enough:
  assumes "to_read fd w = bs @ rest" and "os_fds w fd \<noteq> None"
  obtains w' where "fd_read_n fd (length bs) w = Inr (0, bs, w')" "to_read fd w' = rest"
    "advanced fd bs w w'" "os_fds w' fd \<noteq> None"
proof -
  obtain s where s: "os_fds w fd = Some s" using assms(2) by auto
  have i: "incoming (inq s) = bs @ rest" using assms(1) s by (simp add: to_read_def)
  define s0 where "s0 = s\<lparr>errno := os_errno w\<rparr>"
  have "length bs \<le> length (incoming (inq s0))" using i by (simp add: s0_def)
  from read_n_success [OF this] obtain s' where r: "read_n s0 (length bs) = Inr (0, bs, s')"
      "incoming (inq s') = rest" "final_errno (inq s') (errno s') = final_errno (inq s) (os_errno w)"
      "sent s' = sent s" "outq s' = outq s"
    using i by (auto simp: s0_def)
  let ?w = "w\<lparr>os_fds := (os_fds w)(fd \<mapsto> s'), os_errno := errno s'\<rparr>"
  show ?thesis
  proof (rule that [of ?w])
    show "advanced fd bs w ?w"
      using r s i by (simp add: advanced_def touches_def to_read_def end_errno_def sent_to_def write_answers_def)
  qed (use r s in \<open>simp_all add: fd_read_n_def to_read_def s0_def\<close>)
qed

lemma fd_read_too_little:
  assumes "length (to_read fd w) < n"
  shows "if end_errno fd w = EINTR then fd_read_n fd n w = Inl Hang
    else \<exists>w' bs. fd_read_n fd n w = Inr (-1, bs, w') \<and> bs = to_read fd w \<and> touches fd w w' \<and>
      sent_to fd w' = sent_to fd w"
proof (cases "os_fds w fd")
  case None
  then show ?thesis
    using assms
    by (auto simp: fd_read_n_def end_errno_def to_read_def touches_def sent_to_def EBADF_def EINTR_def)
next
  case (Some s)
  then have "length (incoming (inq (s\<lparr>errno := os_errno w\<rparr>))) < n" using assms by (simp add: to_read_def)
  from read_n_short [OF this] Some show ?thesis
    by (auto simp: fd_read_n_def end_errno_def to_read_def touches_def sent_to_def split: if_splits)
qed

lemma read_lengths_arrive:
  assumes "to_read fd w = wire_header a b c @ rest" and "os_fds w fd \<noteq> None"
  obtains w' where "read_lengths M fd w = Inr (Some (a, b, c), w')" "to_read fd w' = rest"
    "advanced fd (wire_header a b c) w w'" "os_fds w' fd \<noteq> None"
proof -
  have four: "length (u32_be x) = 4" for x by simp
  have split: "to_read fd w = u32_be a @ u32_be b @ u32_be c @ rest"
    using assms(1) by (simp add: wire_header_def)
  obtain w1 where 1: "fd_read_n fd 4 w = Inr (0, u32_be a, w1)" "to_read fd w1 = u32_be b @ u32_be c @ rest"
      "advanced fd (u32_be a) w w1" "os_fds w1 fd \<noteq> None"
    using fd_read_enough [OF split assms(2)] four by metis
  obtain w2 where 2: "fd_read_n fd 4 w1 = Inr (0, u32_be b, w2)" "to_read fd w2 = u32_be c @ rest"
      "advanced fd (u32_be b) w1 w2" "os_fds w2 fd \<noteq> None"
    using fd_read_enough [OF 1(2,4)] four by metis
  obtain w3 where 3: "fd_read_n fd 4 w2 = Inr (0, u32_be c, w3)" "to_read fd w3 = rest"
      "advanced fd (u32_be c) w2 w3" "os_fds w3 fd \<noteq> None"
    using fd_read_enough [OF 2(2,4)] four by metis
  show ?thesis
  proof (rule that [OF _ 3(2) _ 3(4)])
    show "read_lengths M fd w = Inr (Some (a, b, c), w3)"
      using 1(1) 2(1) 3(1) by (simp add: read_lengths_def)
    show "advanced fd (wire_header a b c) w w3"
      using advanced_trans [OF 1(3) advanced_trans [OF 2(3) 3(3)]] by (simp add: wire_header_def)
  qed
qed

text \<open>
  A peer that has sent less than a header: one of the three reads fails, only the descriptor
  was touched, and the caller ends as \<open>ends\<close> says; or, when \<open>errno\<close> is \<open>EINTR\<close>, it never ends.
\<close>

definition stops :: "nat \<Rightarrow> (os \<Rightarrow> 'r res \<Rightarrow> bool) \<Rightarrow> os \<Rightarrow> 'r res \<Rightarrow> bool" where
  "stops fd ends w m \<longleftrightarrow>
     (if end_errno fd w = EINTR then m = Inl Hang
      else \<exists>w'. ends w' m \<and> touches fd w w' \<and> sent_to fd w' = sent_to fd w)"

lemma stops_later: "advanced fd bs w w' \<Longrightarrow> stops fd ends w' m \<Longrightarrow> stops fd ends w m"
  unfolding stops_def advanced_def by (metis touches_trans)

lemma short_read_stops:
  assumes "os_fds w fd \<noteq> None" and "4 \<le> length (to_read fd w) \<Longrightarrow> P" and "\<And>w'. ends w' (h w')"
    and "\<And>bs w'. P \<Longrightarrow> to_read fd w' = drop 4 (to_read fd w) \<Longrightarrow> os_fds w' fd \<noteq> None \<Longrightarrow>
      stops fd ends w' (g bs w')"
  shows "stops fd ends w (and_then (fd_read_n fd 4 w) (\<lambda>(r, bs, w'). if r = -1 then h w' else g bs w'))"
proof (cases "4 \<le> length (to_read fd w)")
  case True
  then have "to_read fd w = take 4 (to_read fd w) @ drop 4 (to_read fd w)" by simp
  from fd_read_enough [OF this assms(1)] obtain w' where
    w': "fd_read_n fd 4 w = Inr (0, take 4 (to_read fd w), w')" "to_read fd w' = drop 4 (to_read fd w)"
      "advanced fd (take 4 (to_read fd w)) w w'" "os_fds w' fd \<noteq> None"
    using True by (metis length_take min.absorb2)
  have "stops fd ends w (g (take 4 (to_read fd w)) w')"
    by (rule stops_later [OF w'(3) assms(4) [OF assms(2) [OF True] w'(2,4)]])
  then show ?thesis using w'(1) by simp
next
  case False
  then have "length (to_read fd w) < 4" by simp
  note short = fd_read_too_little [OF this]
  show ?thesis
  proof (cases "end_errno fd w = EINTR")
    case True
    with short show ?thesis by (simp add: stops_def)
  next
    case False
    with short obtain w' where "fd_read_n fd 4 w = Inr (-1, to_read fd w, w')" "touches fd w w'"
      "sent_to fd w' = sent_to fd w" by auto
    with False show ?thesis unfolding stops_def by (auto intro!: exI [of _ w'] assms(3))
  qed
qed

definition gives_up :: "nat \<Rightarrow> os \<Rightarrow> ('a option \<times> os) res \<Rightarrow> bool" where
  "gives_up fd = stops fd (\<lambda>w' m. m = Inr (None, w'))"

lemma read_lengths_short:
  assumes "length (to_read fd w) < 12" and "os_fds w fd \<noteq> None"
  shows "gives_up fd w (read_lengths M fd w)"
  unfolding read_lengths_def gives_up_def
proof (rule short_read_stops [OF assms(2)])
  fix a w1
  assume w1: "to_read fd w1 = drop 4 (to_read fd w)" "os_fds w1 fd \<noteq> None"
  show "stops fd (\<lambda>w' m. m = Inr (None, w')) w1
      (and_then (fd_read_n fd 4 w1) (\<lambda>(r, req, w). if r = -1 then Inr (None, w) else
      and_then (fd_read_n fd 4 w) (\<lambda>(r, resp, w). if r = -1 then Inr (None, w) else
        Inr (Some (ntohl M (host_word M a), ntohl M (host_word M req), ntohl M (host_word M resp)), w))))"
  proof (rule short_read_stops [OF w1(2)])
    fix b w2
    assume l: "4 \<le> length (to_read fd w1)"
      and w2: "to_read fd w2 = drop 4 (to_read fd w1)" "os_fds w2 fd \<noteq> None"
    show "stops fd (\<lambda>w' m. m = Inr (None, w')) w2
        (and_then (fd_read_n fd 4 w2) (\<lambda>(r, resp, w). if r = -1 then Inr (None, w) else
        Inr (Some (ntohl M (host_word M a), ntohl M (host_word M b), ntohl M (host_word M resp)), w)))"
      by (rule short_read_stops [OF w2(2), where P = False]) (use assms(1) w1(1) w2(1) in simp_all)
  qed simp_all
qed simp_all

subsection \<open>A whole request and its reply\<close>

definition reply_frame :: "'u protocol \<Rightarrow> 'u Response \<Rightarrow> 'm message_api \<Rightarrow> 'm \<Rightarrow> byte list option" where
  "reply_frame P rr api m =
     (case SerializeToArray (proto_response P) rr (ByteSize (proto_response P) rr) of
        None \<Rightarrow> None
      | Some bs1 \<Rightarrow> map_option (\<lambda>bs2. frame (of_nat (length bs1)) 0 (of_nat (length bs2)) (bs1 @ bs2))
          (SerializeToArray api m (ByteSize api m)))"

context growable_buffer
begin

lemma grown_stored:
  "wf b \<Longrightarrow> expand M b n = Inr (r, b1) \<Longrightarrow> buf_p b1 = Some blk \<Longrightarrow> length blk' = length blk \<Longrightarrow>
   wf (b1\<lparr>buf_p := Some blk'\<rparr>)"
  by (rule keeps_store [OF keeps_wf])

lemma receive_keeps_wf:
  assumes "receive_packet expand M fd b w = Inr (got, b', w')" and "wf b"
  shows "wf b'"
proof -
  obtain ls w1 where rl: "read_lengths M fd w = Inr (ls, w1)"
    using assms(1) by (auto simp: receive_packet_def and_then_eq_Inr_iff)
  show ?thesis
  proof (cases ls)
    case None
    with assms rl show ?thesis by (simp add: receive_packet_def)
  next
    case (Some a)
    obtain x y z where a: "a = (x, y, z)" by (cases a) auto
    with assms(1) rl Some show ?thesis
      unfolding receive_packet_def
      by (auto simp: res_simps Let_def split: if_splits dest!: store_at_length store_header_length
          intro: keeps_wf [OF assms(2)]) (rule grown_stored [OF assms(2)], assumption, assumption, simp)+
  qed
qed

lemma build_reply_keeps_wf:
  assumes "build_reply expand len M P resp rr b = Inr (out, b')" and "wf b"
  shows "wf b'"
  using assms(1) unfolding build_reply_def
  by (auto simp: res_simps Let_def split: if_splits option.splits prod.splits
      dest!: store_at_length store_header_length intro: keeps_wf [OF assms(2)])
    (rule grown_stored [OF assms(2)], assumption, assumption, simp)+

lemma receive_arrives:
  assumes "wf b" and "os_fds w fd \<noteq> None"
    and "to_read fd w = frame (of_nat (length meta)) (of_nat (length param)) 0 (meta @ param) @ later"
    and "12 + length meta + length param < 4294967296"
    and "expand M b (of_nat (12 + length meta + length param)) = Inr (0, b1)"
  obtains b2 w2 tail where
    "receive_packet expand M fd b w = Inr (Some (of_nat (length meta), of_nat (length param)), b2, w2)"
    and "wf b2" and "buf_p b2 = Some (host_header M (of_nat (length meta)) (of_nat (length param)) 0
      @ meta @ param @ tail)"
    and "to_read fd w2 = later" and "os_fds w2 fd \<noteq> None"
    and "advanced fd (frame (of_nat (length meta)) (of_nat (length param)) 0 (meta @ param)) w w2"
proof -
  let ?a = "of_nat (length meta) :: u32" and ?b = "of_nat (length param) :: u32"
  have tr: "to_read fd w = wire_header ?a ?b 0 @ (meta @ param) @ later"
    using assms(3) by (simp add: frame_def)
  obtain w1 where 1: "read_lengths M fd w = Inr (Some (?a, ?b, 0), w1)"
      "to_read fd w1 = (meta @ param) @ later" "advanced fd (wire_header ?a ?b 0) w w1" "os_fds w1 fd \<noteq> None"
    using read_lengths_arrive [OF tr assms(2)] by metis
  have n: "announced ?a ?b 0 = of_nat (12 + length meta + length param)" by (simp add: announced_def)
  have un: "unat (announced ?a ?b 0) = 12 + length meta + length param"
    using unat_announced [of "length meta" "length param" 0] assms(4) by simp
  have ps: "unat (payload_size (announced ?a ?b 0)) = length (meta @ param)"
    using unat_payload_size [of "announced ?a ?b 0"] un by simp
  obtain blk where blk: "buf_p b1 = Some blk" "12 + length meta + length param \<le> length blk"
    using room [OF assms(1,5)] un n by auto
  obtain w2 where 2: "fd_read_n fd (length (meta @ param)) w1 = Inr (0, meta @ param, w2)"
      "to_read fd w2 = later" "advanced fd (meta @ param) w1 w2" "os_fds w2 fd \<noteq> None"
    using fd_read_enough [OF 1(2,4)] by metis
  define h where "h = host_header M ?a ?b 0"
  define b2 where "b2 = b1\<lparr>buf_p := Some (h @ meta @ param @ drop (12 + length meta + length param) blk)\<rparr>"
  have sh: "store_header M ?a ?b 0 blk = Inr (h @ drop 12 blk)"
    unfolding h_def using blk(2) by (intro store_header_ok) simp
  have st: "store_at off_data (meta @ param) (h @ drop 12 blk) =
      Inr (h @ meta @ param @ drop (12 + length meta + length param) blk)"
    using store_after_header [of "meta @ param" "drop 12 blk" M ?a ?b 0] blk(2)
    by (simp add: h_def ac_simps)
  have lh: "length h = 12" by (simp add: h_def)
  show ?thesis
  proof (rule that [of b2 w2])
    show "receive_packet expand M fd b w = Inr (Some (?a, ?b), b2, w2)"
      unfolding receive_packet_def 1(1) and_then_simps prod.case option.case Let_def ps
      by (simp only: n assms(5) and_then_simps prod.case blk(1) deref_simps sh 2(1) st b2_def) simp
    show "wf b2"
      unfolding b2_def
      by (rule keeps_store [OF keeps_wf [OF assms(1,5)] blk(1)]) (use blk(2) lh in simp)
    show "advanced fd (frame ?a ?b 0 (meta @ param)) w w2"
      using advanced_trans [OF 1(3) 2(3)] by (simp add: frame_def)
  qed (use 2 in \<open>simp_all add: b2_def h_def\<close>)
qed

lemma build_reply_succeeds:
  assumes "wf b" and "n = 12 + length bs1 + length bs2" and "n < 4294967296"
    and "\<And>x. x \<le> n \<Longrightarrow> len x = x"
    and "expand M b (of_nat n) = Inr (0, b1)"
    and "SerializeToArray (proto_response P) rr (length bs1) = Some bs1"
    and "ByteSize (proto_response P) rr = length bs1"
    and "SerializeToArray api m (length bs2) = Some bs2" and "ByteSize api m = length bs2"
  obtains b2 where
    "build_reply expand len M P (Some (api, m)) (Some rr) b =
       Inr (Some (frame (of_nat (length bs1)) 0 (of_nat (length bs2)) (bs1 @ bs2)), b2)"
    and "wf b2"
proof -
  obtain blk where blk: "buf_p b1 = Some blk" "n \<le> length blk"
    using room [OF assms(1,5)] assms(3) by (auto simp: unat_of_nat_u32)
  have lens: "len (length bs1) = length bs1" "len (length bs2) = length bs2"
    "len (12 + length bs1 + length bs2) = n" using assms(2,4) by simp_all
  let ?a = "of_nat (length bs1) :: u32" and ?b = "of_nat (length bs2) :: u32"
  have wh: "wire_header ?a 0 ?b = host_header M (htonl M ?a) (htonl M 0) (htonl M ?b)" by simp
  have s0: "store_header M (htonl M ?a) (htonl M 0) (htonl M ?b) blk = Inr (wire_header ?a 0 ?b @ drop 12 blk)"
    using store_header_ok [of blk M "htonl M ?a" "htonl M 0" "htonl M ?b"] blk(2) assms(2) by (simp only: wh)
  have s1: "store_at 12 bs1 (wire_header ?a 0 ?b @ drop 12 blk) =
      Inr (wire_header ?a 0 ?b @ bs1 @ drop (12 + length bs1) blk)"
    using blk(2) assms(2) by (simp add: store_at_def add.commute)
  have s2: "store_at (12 + length bs1) bs2 (wire_header ?a 0 ?b @ bs1 @ drop (12 + length bs1) blk) =
      Inr (wire_header ?a 0 ?b @ (bs1 @ bs2) @ drop n blk)"
    using blk(2) assms(2) by (simp add: store_at_def add.commute add.left_commute)
  define b2 where "b2 = b1\<lparr>buf_p := Some (wire_header ?a 0 ?b @ (bs1 @ bs2) @ drop n blk)\<rparr>"
  have ld: "load_at 0 n (wire_header ?a 0 ?b @ (bs1 @ bs2) @ drop n blk) = Inr (frame ?a 0 ?b (bs1 @ bs2))"
    by (rule load_frame) (simp add: assms(2))
  show ?thesis
  proof (rule that [of b2])
    show "build_reply expand len M P (Some (api, m)) (Some rr) b = Inr (Some (frame ?a 0 ?b (bs1 @ bs2)), b2)"
      unfolding build_reply_def option.case prod.case assms(7,9) Let_def lens packet_layout deref_simps
        and_then_simps assms(5) blk(1) s0 assms(6,8) s1 s2 ld b2_def
      by simp
    show "wf b2"
      unfolding b2_def
      by (rule keeps_store [OF keeps_wf [OF assms(1,5)] blk(1)]) (use blk(2) assms(2) in simp)
  qed
qed

text \<open>The reply both servers are to send, or \<open>None\<close> when a part cannot be serialised.\<close>

lemma build_reply_outcome:
  assumes "wf b" and "n = 12 + ByteSize (proto_response P) rr + ByteSize api m" and "n < 4294967296"
    and "\<And>x. x \<le> n \<Longrightarrow> len x = x" and "expand M b (of_nat n) = Inr (0, b1)"
    and "\<And>bs. SerializeToArray (proto_response P) rr (ByteSize (proto_response P) rr) = Some bs \<Longrightarrow>
      length bs = ByteSize (proto_response P) rr"
    and "\<And>bs. SerializeToArray api m (ByteSize api m) = Some bs \<Longrightarrow> length bs = ByteSize api m"
  shows "\<exists>b2. build_reply expand len M P (Some (api, m)) (Some rr) b = Inr (reply_frame P rr api m, b2)"
proof (cases "SerializeToArray (proto_response P) rr (ByteSize (proto_response P) rr)")
  case None
  have "unat (of_nat n :: u32) = n" using assms(3) by (simp add: unat_of_nat_u32)
  with room [OF assms(1,5)] obtain blk where "buf_p b1 = Some blk" "n \<le> length blk" by auto
  then have blk: "buf_p b1 = Some blk" "12 \<le> length blk" using assms(2) by simp_all
  have "len (ByteSize (proto_response P) rr) = ByteSize (proto_response P) rr" "len (ByteSize api m) = ByteSize api m"
    "len (12 + ByteSize (proto_response P) rr + ByteSize api m) = n"
    using assms(2,4) by simp_all
  then show ?thesis
    using None assms(5) blk by (simp add: build_reply_def Let_def store_header_ok reply_frame_def)
next
  case (Some bs1)
  note l1 = assms(6) [OF Some]
  show ?thesis
  proof (cases "SerializeToArray api m (ByteSize api m)")
    case None
    obtain blk where blk: "buf_p b1 = Some blk" "n \<le> length blk"
      using room [OF assms(1,5)] assms(3) by (auto simp: unat_of_nat_u32)
    have lens: "len (ByteSize (proto_response P) rr) = ByteSize (proto_response P) rr" "len (ByteSize api m) = ByteSize api m"
      "len (12 + ByteSize (proto_response P) rr + ByteSize api m) = n"
      using assms(2,4) by simp_all
    have "store_at 12 bs1 (h @ drop 12 blk) = Inr (h @ bs1 @ drop (12 + length bs1) blk)"
      if "length h = 12" for h
      using that blk(2) l1 assms(2) by (simp add: store_at_def add.commute)
    then show ?thesis
      using None Some assms(2,5) blk lens l1
      by (simp add: build_reply_def Let_def store_header_ok reply_frame_def)
  next
    case bs2: (Some bs2)
    note l2 = assms(7) [OF bs2]
    have "n = 12 + length bs1 + length bs2" using assms(2) l1 l2 by simp
    from build_reply_succeeds [OF assms(1) this assms(3,4,5) Some [folded l1] l1 [symmetric]
        bs2 [folded l2] l2 [symmetric]]
    show ?thesis using Some bs2 by (auto simp: reply_frame_def)
  qed
qed

end

subsection \<open>A request that has arrived\<close>

lemma metadata_loaded:
  assumes "buf_p b = Some (host_header M x y z @ meta @ rest)" and "unat rpc_len = length meta"
  shows "parse_and_serve M P tab rpc_len req_len b =
    (case ParseFromArray (proto_request P) meta of
       None \<Rightarrow> Inr Drop
     | Some rpc_req \<Rightarrow> serve_request M P tab rpc_len req_len (host_header M x y z @ meta @ rest) rpc_req)"
  using assms by (simp add: parse_and_serve_def load_at_def)

lemma parameter_loaded:
  assumes "dispatch_to tab (rq_method_identity rq) = Target cs md"
    and "unat rpc_len = length meta" and "unat req_len = length param"
    and "ParseFromArray (request_api md) param = Some request"
    and "call_method md request (CarrotController_default (junk_callback M) (junk_u32 M)) (response_new md)
      = (ctl, response, thrown)"
  shows "serve_request M P tab rpc_len req_len (host_header M x y z @ meta @ param @ tail) rq =
    (case thrown of None \<Rightarrow> Inr (Reply (Some (response_api md, response)) (outcome_of ctl P))
     | Some what \<Rightarrow> Inr (Throws what))"
proof -
  have "load_at (off_data + unat rpc_len) (unat req_len) (host_header M x y z @ meta @ param @ tail)
      = Inr param"
    using assms(2,3) by (simp add: load_at_def)
  then show ?thesis using assms(1,4,5) by (cases thrown) (simp_all add: serve_request_def)
qed

text \<open>A reply without a response message, which is every reply to an unknown method, faults.\<close>

lemma no_response_faults: "build_reply expand len M P None rr b = Inl NullDeref"
  by (simp add: build_reply_def Let_def)

lemma unknown_method_reply:
  assumes "\<forall>cs md. dispatch_to tab (rq_method_identity rq) \<noteq> Target cs md"
  obtains rr where "serve_request M P tab rpc_len req_len blk rq = Inr (Reply None rr)"
  using assms by (cases "dispatch_to tab (rq_method_identity rq)") (auto simp: serve_request_def)

text \<open>Writing to a peer that takes everything.\<close>

lemma fd_write_sends: "fd_write_n fd bs w = (0, w') \<Longrightarrow> sent_to fd w' = sent_to fd w @ bs"
  by (auto simp: fd_write_n_def sent_to_def split: option.splits if_splits prod.splits dest!: write_n_sent)

lemma fd_write_all:
  assumes "will_accept fd w"
  obtains w' where "fd_write_n fd bs w = (0, w')" "touches fd w w'" "sent_to fd w' = sent_to fd w @ bs"
    "to_read fd w' = to_read fd w" "will_accept fd w'"
proof -
  obtain s where s: "os_fds w fd = Some s" "accepting (outq s)"
    using assms by (auto simp: will_accept_def write_answers_def split: option.splits)
  define s0 where "s0 = s\<lparr>errno := os_errno w\<rparr>"
  have "accepting (outq s0)" using s by (simp add: s0_def)
  from write_n_success [OF this, of bs] obtain s' where s': "write_n s0 bs = (0, s')" "accepting (outq s')"
    by blast
  from write_n_sent [OF s'(1)] have "sent s' = sent s @ bs" "inq s' = inq s" by (auto simp: s0_def)
  with s s' show ?thesis
    by (intro that [of "w\<lparr>os_fds := (os_fds w)(fd \<mapsto> s'), os_errno := errno s'\<rparr>"])
      (simp_all add: fd_write_n_def touches_def sent_to_def to_read_def will_accept_def write_answers_def s0_def)
qed

text \<open>Writing to a peer whose kernel takes everything at once: \<open>errno\<close> is left alone too.\<close>

lemma fd_write_at_once:
  assumes "write_answers fd w = Some []"
  obtains w' where "fd_write_n fd bs w = (0, w')" "touches fd w w'" "sent_to fd w' = sent_to fd w @ bs"
    "to_read fd w' = to_read fd w" "end_errno fd w' = end_errno fd w" "write_answers fd w' = Some []"
proof -
  obtain s where s: "os_fds w fd = Some s" "outq s = []" using assms by (auto simp: write_answers_def)
  define s0 where "s0 = s\<lparr>errno := os_errno w\<rparr>"
  have wr: "write_n s0 bs = (0, s0\<lparr>sent := sent s @ bs\<rparr>)"
  proof -
    have "write_n x bs = (0, x\<lparr>sent := sent x @ bs\<rparr>)" if "outq x = []" for x
      using that by (cases "bs = []") (simp_all add: write_n.simps [of x bs] sys_write_def)
    from this [of s0] s show ?thesis by (simp add: s0_def)
  qed
  show ?thesis
    by (rule that [of "w\<lparr>os_fds := (os_fds w)(fd \<mapsto> s0\<lparr>sent := sent s @ bs\<rparr>), os_errno := os_errno w\<rparr>"])
      (use s wr in \<open>simp_all add: fd_write_n_def touches_def sent_to_def to_read_def end_errno_def
        write_answers_def s0_def\<close>)
qed

subsection \<open>The reply a request is to get\<close>

text \<open>
  The specification of both servers: the bytes that answer a request of a known method, as a
  function of the two parts of the request, with no buffer, descriptor or width in it. \<open>None\<close>:
  there is no reply, since the request is malformed, unknown, or fails with an exception.
\<close>

definition expected_reply ::
  "machine \<Rightarrow> 'u protocol \<Rightarrow> 'm services \<Rightarrow> byte list \<Rightarrow> byte list \<Rightarrow> byte list option" where
  "expected_reply M P tab meta param =
     (case ParseFromArray (proto_request P) meta of
        None \<Rightarrow> None
      | Some rq \<Rightarrow>
          (case dispatch_to tab (rq_method_identity rq) of
             Target cs md \<Rightarrow>
               (case ParseFromArray (request_api md) param of
                  None \<Rightarrow> None
                | Some request \<Rightarrow>
                    (case call_method md request
                            (CarrotController_default (junk_callback M) (junk_u32 M)) (response_new md) of
                       (ctl, response, None) \<Rightarrow> reply_frame P (outcome_of ctl P) (response_api md) response
                     | (ctl, response, Some what) \<Rightarrow> None))
           | _ \<Rightarrow> None))"

text \<open>Messages whose \<open>ByteSize\<close> is the number of bytes they serialise to.\<close>

definition sized :: "'m message_api \<Rightarrow> bool" where
  "sized api \<longleftrightarrow> (\<forall>m n bs. SerializeToArray api m n = Some bs \<longrightarrow> length bs = ByteSize api m)"

definition all_sized :: "'m services \<Rightarrow> bool" where
  "all_sized tab \<longleftrightarrow> (\<forall>x cs name md. tab x = Some cs \<longrightarrow> find_method (cs_s cs) name = Some md \<longrightarrow>
     sized (response_api md))"

lemma codec_sized: "message_codec api good \<Longrightarrow> sized api"
  by (simp add: sized_def message_codec.serialize_length)

lemma expected_replyE:
  assumes "expected_reply M P tab meta param = Some reply" and "sized (proto_response P)" and "all_sized tab"
  obtains rq cs md request ctl response where
    "ParseFromArray (proto_request P) meta = Some rq"
    and "dispatch_to tab (rq_method_identity rq) = Target cs md"
    and "ParseFromArray (request_api md) param = Some request"
    and "call_method md request (CarrotController_default (junk_callback M) (junk_u32 M)) (response_new md)
      = (ctl, response, None)"
    and "reply_frame P (outcome_of ctl P) (response_api md) response = Some reply"
    and "sized (response_api md)"
    and "length reply = 12 + ByteSize (proto_response P) (outcome_of ctl P) + ByteSize (response_api md) response"
proof -
  obtain rq where rq: "ParseFromArray (proto_request P) meta = Some rq"
    using assms(1) by (auto simp: expected_reply_def split: option.splits)
  obtain cs md where t: "dispatch_to tab (rq_method_identity rq) = Target cs md"
    using assms(1) rq by (auto simp: expected_reply_def split: dispatch.splits)
  obtain request where p: "ParseFromArray (request_api md) param = Some request"
    using assms(1) rq t by (auto simp: expected_reply_def split: option.splits)
  obtain ctl response thrown where c: "call_method md request
      (CarrotController_default (junk_callback M) (junk_u32 M)) (response_new md) = (ctl, response, thrown)"
    by (metis prod.exhaust)
  have r: "thrown = None" "reply_frame P (outcome_of ctl P) (response_api md) response = Some reply"
    using assms(1) rq t p c by (simp_all add: expected_reply_def split: option.splits)
  have sz: "sized (response_api md)"
    using t assms(3) unfolding all_sized_def dispatch_to_def
    by (auto split: option.splits simp: Let_def)
  have "length reply = 12 + ByteSize (proto_response P) (outcome_of ctl P) + ByteSize (response_api md) response"
    using r(2) assms(2) sz by (auto simp: reply_frame_def sized_def split: option.splits)
  with rq t p c r sz show ?thesis by (intro that) simp_all
qed

end
