(* ===== verification/Simple_Server.thy ===== *)
theory Simple_Server
  imports Blocking_Requests
begin

section \<open>The simple server: src/src/server/carrot_simple_server.h and .cpp\<close>

text \<open>
  A single-threaded server over the reactor of the cheetah library. Each accepted client gets
  an \<open>rpc_connection\<close>; a destroyed one is kept in \<open>conns_unused\<close>, with its buffer, for the
  next client. The objects live in a table indexed by the value of the pointer. The reactor is
  not part of the repository: its registered events are a list here, whether
  \<open>reactor_add_event\<close> succeeds is an argument, and its loop goes through a list of the events it
  reports, or is the step relation at the end when any order of them is meant.
  What a handler returns is the new state and the text of the exception that leaves it.
\<close>

subsection \<open>expand_connection_packet\<close>

definition expand_connection_packet :: "machine \<Rightarrow> pbuf \<Rightarrow> u32 \<Rightarrow> (int \<times> pbuf) res" where
  "expand_connection_packet M b n =
     (if buf_size b < n \<or> buf_p b = None then
        (case realloc M (buf_p b) (unat n) of
           None \<Rightarrow> Inr (-1, b\<lparr>buf_p := None\<rparr>)
         | Some blk \<Rightarrow> Inr (0, \<lparr>buf_p = Some blk, buf_size = n\<rparr>))
      else Inr (0, b))"

text \<open>Its buffers are exactly as long as their recorded size, which need not be a power of two.\<close>

definition exact_pbuf :: "pbuf \<Rightarrow> bool" where
  "exact_pbuf b \<longleftrightarrow> (case buf_p b of None \<Rightarrow> True | Some blk \<Rightarrow> length blk = unat (buf_size b))"

lemma exact_null [simp]: "exact_pbuf null_buf"
  by (simp add: exact_pbuf_def null_buf_def)

lemma expand_connection_exact:
  "exact_pbuf b \<Longrightarrow> expand_connection_packet M b n = Inr (r, b') \<Longrightarrow> exact_pbuf b'"
  by (auto simp: expand_connection_packet_def exact_pbuf_def dest: realloc_eq_Some
      split: if_splits option.splits)

interpretation connection_buffer: growable_buffer expand_connection_packet exact_pbuf "\<lambda>_. True"
proof
  show "\<exists>r b'. expand_connection_packet M b n = Inr (r, b')" for M b n
    by (auto simp: expand_connection_packet_def split: option.splits)
  show "\<exists>blk. buf_p b' = Some blk \<and> unat n \<le> length blk"
    if "exact_pbuf b" "expand_connection_packet M b n = Inr (0, b')" for M b n b'
    using that by (auto simp: expand_connection_packet_def exact_pbuf_def word_less_nat_alt
        dest: realloc_eq_Some split: if_splits option.splits)
qed (auto simp: expand_connection_packet_def exact_pbuf_def
    intro: expand_connection_exact split: if_splits option.splits dest: realloc_eq_Some)

subsection \<open>State\<close>

record rpc_connection =
  client_fd :: nat
  alive :: bool
  c_buf :: pbuf

record 'm sserver =
  ss_services :: "'m services"
  ss_unused :: "nat list"
  ss_in_use :: "nat \<Rightarrow> nat option"
  ss_objs :: "nat \<Rightarrow> rpc_connection option"
  ss_events :: "nat list"
  ss_os :: os
  ss_next :: nat

definition put_sconn :: "nat \<Rightarrow> rpc_connection \<Rightarrow> 'm sserver \<Rightarrow> 'm sserver" where
  "put_sconn c k S = S\<lparr>ss_objs := (ss_objs S)(c \<mapsto> k)\<rparr>"

text \<open>\<open>new rpc_connection()\<close> sets every member to zero.\<close>

definition rpc_connection_new :: rpc_connection where
  "rpc_connection_new = \<lparr>client_fd = 0, alive = False, c_buf = null_buf\<rparr>"

definition CarrotSimpleServer_new :: "os \<Rightarrow> 'm sserver" where
  "CarrotSimpleServer_new w =
     \<lparr>ss_services = (\<lambda>_. None), ss_unused = [], ss_in_use = (\<lambda>_. None), ss_objs = (\<lambda>_. None),
      ss_events = [], ss_os = w, ss_next = 0\<rparr>"

subsection \<open>The operations\<close>

definition destroy_rpc_connection :: "nat \<Rightarrow> 'm sserver \<Rightarrow> 'm sserver res" where
  "destroy_rpc_connection c S =
     and_then (deref (ss_objs S c)) (\<lambda>k.
       let S1 = S\<lparr>ss_events := removeAll c (ss_events S)\<rparr>;
           S2 = (if alive k
                 then put_sconn c (k\<lparr>alive := False\<rparr>) (S1\<lparr>ss_os := snd (fd_close (client_fd k) (ss_os S1))\<rparr>)
                 else S1) in
       Inr (S2\<lparr>ss_unused := ss_unused S2 @ [c], ss_in_use := (ss_in_use S2)(c := None)\<rparr>))"

definition simple_respond_to_client ::
  "machine \<Rightarrow> 'u protocol \<Rightarrow> ('m message_api \<times> 'm) option \<Rightarrow> 'u Response option \<Rightarrow> nat \<Rightarrow>
   'm sserver \<Rightarrow> 'm sserver res" where
  "simple_respond_to_client M P resp rpc_resp c S =
     and_then (deref (ss_objs S c)) (\<lambda>k.
     and_then (build_reply expand_connection_packet (\<lambda>x. x) M P resp rpc_resp (c_buf k)) (\<lambda>(out, b).
       let S1 = put_sconn c (k\<lparr>c_buf := b\<rparr>) S in
       case out of
         None \<Rightarrow> destroy_rpc_connection c S1
       | Some bs \<Rightarrow>
           (case fd_write_n (client_fd k) bs (ss_os S1) of (r, w) \<Rightarrow>
              let S2 = S1\<lparr>ss_os := w\<rparr> in
              if r = -1 then destroy_rpc_connection c S2 else Inr S2)))"

type_synonym 'm simple_outcome = "('m sserver \<times> string option) res"

definition simple_handle_client ::
  "machine \<Rightarrow> 'u protocol \<Rightarrow> nat \<Rightarrow> 'm sserver \<Rightarrow> 'm simple_outcome" where
  "simple_handle_client M P c S =
     and_then (deref (ss_objs S c)) (\<lambda>k.
     and_then (receive_packet expand_connection_packet M (client_fd k) (c_buf k) (ss_os S)) (\<lambda>(got, b, w).
       let S1 = put_sconn c (k\<lparr>c_buf := b\<rparr>) (S\<lparr>ss_os := w\<rparr>) in
       case got of
         None \<Rightarrow> and_then (destroy_rpc_connection c S1) (\<lambda>S. Inr (S, None))
       | Some (rpc_len, req_len) \<Rightarrow>
           and_then (parse_and_serve M P (ss_services S1) rpc_len req_len b) (\<lambda>ans.
           case ans of
             Drop \<Rightarrow> and_then (destroy_rpc_connection c S1) (\<lambda>S. Inr (S, None))
           | Reply resp rpc_resp \<Rightarrow>
               and_then (simple_respond_to_client M P resp (Some rpc_resp) c S1) (\<lambda>S. Inr (S, None))
           | Throws what \<Rightarrow> Inr (S1, Some what))))"

text \<open>\<open>only_read\<close>: whether the reactor reports \<open>E_READ\<close> and nothing else.\<close>

definition client_callback ::
  "machine \<Rightarrow> 'u protocol \<Rightarrow> bool \<Rightarrow> nat \<Rightarrow> 'm sserver \<Rightarrow> 'm simple_outcome" where
  "client_callback M P only_read c S =
     (if \<not> only_read then Inr (S, None) else simple_handle_client M P c S)"

text \<open>
  \<open>accepted\<close>: the descriptor \<open>accept\<close> returns and its socket, \<open>None\<close> when it fails.
  \<open>add_ok\<close>: whether the reactor takes the event. \<open>new\<close> does not return null.
\<close>

definition handle_listen_sock :: "(nat \<times> sock) option \<Rightarrow> bool \<Rightarrow> 'm sserver \<Rightarrow> 'm sserver res" where
  "handle_listen_sock accepted add_ok S =
     (case accepted of
        None \<Rightarrow> Inr S
      | Some (client_sock, s) \<Rightarrow>
          (let S0 = S\<lparr>ss_os := (ss_os S)\<lparr>os_fds := (os_fds (ss_os S))(client_sock \<mapsto> s)\<rparr>\<rparr> in
           case (if ss_unused S0 \<noteq> []
                 then (last (ss_unused S0), S0\<lparr>ss_unused := butlast (ss_unused S0)\<rparr>)
                 else (ss_next S0,
                       put_sconn (ss_next S0) rpc_connection_new (S0\<lparr>ss_next := Suc (ss_next S0)\<rparr>))) of
             (conn, S1) \<Rightarrow>
               and_then (deref (ss_objs S1 conn)) (\<lambda>k.
                 let S2 = put_sconn conn (k\<lparr>client_fd := client_sock, alive := True\<rparr>) S1 in
                 if \<not> add_ok then Inr (S2\<lparr>ss_objs := (ss_objs S2)(conn := None)\<rparr>)
                 else Inr (S2\<lparr>ss_events := conn # ss_events S2,
                              ss_in_use := (if ss_in_use S2 conn = None
                                then (ss_in_use S2)(conn \<mapsto> conn) else ss_in_use S2)\<rparr>))))"

definition listen_callback :: "bool \<Rightarrow> (nat \<times> sock) option \<Rightarrow> bool \<Rightarrow> 'm sserver \<Rightarrow> 'm sserver res" where
  "listen_callback only_read accepted add_ok S =
     (if \<not> only_read then Inr S else handle_listen_sock accepted add_ok S)"

text \<open>The two loops of the destructor have the same body.\<close>

definition delete_sconn :: "nat \<Rightarrow> 'm sserver \<Rightarrow> 'm sserver res" where
  "delete_sconn c S =
     and_then (deref (ss_objs S c)) (\<lambda>k.
       let S1 = (if alive k then S\<lparr>ss_os := snd (fd_close (client_fd k) (ss_os S))\<rparr> else S) in
       Inr (S1\<lparr>ss_objs := (ss_objs S1)(c := None)\<rparr>))"

primrec delete_sconns :: "nat list \<Rightarrow> 'm sserver \<Rightarrow> 'm sserver res" where
  "delete_sconns [] S = Inr S"
| "delete_sconns (c # cs) S = and_then (delete_sconn c S) (delete_sconns cs)"

text \<open>The keys of \<open>conns_in_use\<close> are the addresses, and a \<open>std::map\<close> is traversed in their order.\<close>

definition in_use_list :: "'m sserver \<Rightarrow> nat list" where
  "in_use_list S = List.map_filter (ss_in_use S) [0..<ss_next S]"

definition CarrotSimpleServer_delete :: "'m sserver \<Rightarrow> 'm sserver res" where
  "CarrotSimpleServer_delete S =
     (let S1 = S\<lparr>ss_events := []\<rparr> in
      and_then (delete_sconns (ss_unused S1) S1) (\<lambda>S2. delete_sconns (in_use_list S2) S2))"

definition simple_RegisterService ::
  "'m sserver \<Rightarrow> 'm service \<Rightarrow> nat option \<Rightarrow> bool \<times> 'm sserver" where
  "simple_RegisterService S s closure =
     (case RegisterService (ss_services S) s closure of
        (ok, tab) \<Rightarrow> (ok, S\<lparr>ss_services := tab\<rparr>))"

subsection \<open>The reactor's loop\<close>

text \<open>
  The states of a running server. The kernel gives out a descriptor that is not open; what
  peers send, and what they take, changes the sockets but not which descriptors are open.
\<close>

inductive simple_reachable :: "machine \<Rightarrow> 'u protocol \<Rightarrow> os \<Rightarrow> 'm sserver \<Rightarrow> bool" for M P w0 where
  start: "simple_reachable M P w0 (CarrotSimpleServer_new w0)"
| register: "simple_reachable M P w0 S \<Longrightarrow>
    simple_reachable M P w0 (snd (simple_RegisterService S s closure))"
| network: "simple_reachable M P w0 S \<Longrightarrow> dom (os_fds w) = dom (os_fds (ss_os S)) \<Longrightarrow>
    simple_reachable M P w0 (S\<lparr>ss_os := w\<rparr>)"
| listen: "simple_reachable M P w0 S \<Longrightarrow> os_fds (ss_os S) fd = None \<Longrightarrow>
    listen_callback only_read (Some (fd, s)) add_ok S = Inr S' \<Longrightarrow> simple_reachable M P w0 S'"
| readable: "simple_reachable M P w0 S \<Longrightarrow> c \<in> set (ss_events S) \<Longrightarrow>
    client_callback M P only_read c S = Inr (S', thrown) \<Longrightarrow> simple_reachable M P w0 S'"

inductive_cases simple_reachableE: "simple_reachable M P w0 S"

text \<open>
  \<open>reactor_loop\<close>: the reactor waits, the network changes what the descriptors hold, and it calls the
  callback of a watched event that is ready, until \<open>Stop\<close> has called \<open>reactor_get_out\<close>, which ends the
  list of events, or a callback throws. \<open>reactor_reports\<close>: the reactor reports watched connections only,
  and the kernel gives out a descriptor that is not open.
\<close>

datatype reactor_event =
    ListenReady bool "(nat \<times> sock) option" bool
  | ClientReady bool nat
  | NetworkChange os

fun reactor_enabled :: "reactor_event \<Rightarrow> 'm sserver \<Rightarrow> bool" where
  "reactor_enabled (ListenReady only_read got add_ok) S =
     (case got of None \<Rightarrow> True | Some (fd, s) \<Rightarrow> os_fds (ss_os S) fd = None)"
| "reactor_enabled (ClientReady only_read c) S = (c \<in> set (ss_events S))"
| "reactor_enabled (NetworkChange w) S = (dom (os_fds w) = dom (os_fds (ss_os S)))"

fun reactor_dispatch :: "machine \<Rightarrow> 'u protocol \<Rightarrow> reactor_event \<Rightarrow> 'm sserver \<Rightarrow> 'm simple_outcome" where
  "reactor_dispatch M P (ListenReady only_read got add_ok) S =
     and_then (listen_callback only_read got add_ok S) (\<lambda>S. Inr (S, None))"
| "reactor_dispatch M P (ClientReady only_read c) S = client_callback M P only_read c S"
| "reactor_dispatch M P (NetworkChange w) S = Inr (S\<lparr>ss_os := w\<rparr>, None)"

primrec reactor_loop :: "machine \<Rightarrow> 'u protocol \<Rightarrow> reactor_event list \<Rightarrow> 'm sserver \<Rightarrow> 'm simple_outcome" where
  "reactor_loop M P [] S = Inr (S, None)"
| "reactor_loop M P (ev # evs) S =
     and_then (reactor_dispatch M P ev S) (\<lambda>(S, thrown).
       case thrown of None \<Rightarrow> reactor_loop M P evs S | Some what \<Rightarrow> Inr (S, Some what))"

primrec reactor_reports :: "machine \<Rightarrow> 'u protocol \<Rightarrow> reactor_event list \<Rightarrow> 'm sserver \<Rightarrow> bool" where
  "reactor_reports M P [] S = True"
| "reactor_reports M P (ev # evs) S =
     (reactor_enabled ev S \<and>
      (case reactor_dispatch M P ev S of Inr (S, None) \<Rightarrow> reactor_reports M P evs S | _ \<Rightarrow> True))"

text \<open>
  \<open>Run\<close>, with whether the reactor takes the listening event and the events of its loop.
  \<open>reactor_clean_events\<close> removes the events from the reactor.
\<close>

definition CarrotSimpleServer_Run ::
  "machine \<Rightarrow> 'u protocol \<Rightarrow> bool \<Rightarrow> reactor_event list \<Rightarrow> 'm sserver \<Rightarrow> 'm simple_outcome" where
  "CarrotSimpleServer_Run M P add_ok evs S =
     (if \<not> add_ok then Inr (S, Some ''failed to add event to the reactor'')
      else and_then (reactor_loop M P evs S) (\<lambda>(S, thrown).
        case thrown of None \<Rightarrow> Inr (S\<lparr>ss_events := []\<rparr>, None) | Some what \<Rightarrow> Inr (S, Some what)))"

lemma reactor_dispatch_reachable:
  assumes "simple_reachable M P w0 S" and "reactor_enabled ev S" and "reactor_dispatch M P ev S = Inr (S', thrown)"
  shows "simple_reachable M P w0 S'"
proof (cases ev)
  case (ListenReady only_read got add_ok)
  with assms show ?thesis
    by (cases got)
      (auto simp: and_then_eq_Inr_iff listen_callback_def handle_listen_sock_def [of None] split: if_splits
        intro: simple_reachable.listen [OF assms(1), of _ only_read _ add_ok])
next
  case (ClientReady only_read c)
  with assms show ?thesis by (auto intro: simple_reachable.readable)
next
  case (NetworkChange w)
  with assms show ?thesis by (auto intro: simple_reachable.network)
qed

text \<open>What the loop leaves is reachable, and what it throws a callback of a client has thrown.\<close>

lemma reactor_loop_result:
  assumes "simple_reachable M P w0 S" and "reactor_reports M P evs S" and "reactor_loop M P evs S = Inr (S', thrown)"
  shows "simple_reachable M P w0 S' \<and> (\<forall>what. thrown = Some what \<longrightarrow>
    (\<exists>T c. simple_reachable M P w0 T \<and> c \<in> set (ss_events T) \<and> client_callback M P True c T = Inr (S', Some what)))"
  using assms
proof (induction evs arbitrary: S)
  case (Cons ev evs)
  obtain T th where T: "reactor_dispatch M P ev S = Inr (T, th)"
    using Cons.prems(3) by (auto simp: and_then_eq_Inr_iff)
  have reach: "simple_reachable M P w0 T"
    using reactor_dispatch_reachable [OF Cons.prems(1) _ T] Cons.prems(2) by simp
  show ?case
  proof (cases th)
    case None
    with Cons.IH [OF reach] Cons.prems T show ?thesis by simp
  next
    case (Some what)
    then obtain only_read c where ev: "ev = ClientReady only_read c"
      using T by (cases ev) (auto simp: and_then_eq_Inr_iff)
    with Some T have "client_callback M P True c S = Inr (T, Some what)"
      by (auto simp: client_callback_def split: if_splits)
    with Some Cons.prems T reach ev show ?thesis by auto
  qed
qed simp

end
