(* ===== verification/Simple_Server_Inv.thy ===== *)
theory Simple_Server_Inv
  imports Simple_Server
begin

section \<open>The connection pool of the simple server\<close>

text \<open>
  The invariant of the simple server's tables, and the refinement of what it serves: the set
  of the clients' descriptors, to which accepting adds one and destroying removes one.
\<close>

subsection \<open>What handling a client does to the tables\<close>

lemma put_sconn_simps [simp]:
  "ss_objs (put_sconn c k S) = (ss_objs S)(c \<mapsto> k)"
  "ss_unused (put_sconn c k S) = ss_unused S" "ss_in_use (put_sconn c k S) = ss_in_use S"
  "ss_events (put_sconn c k S) = ss_events S" "ss_os (put_sconn c k S) = ss_os S"
  "ss_next (put_sconn c k S) = ss_next S" "ss_services (put_sconn c k S) = ss_services S"
  by (simp_all add: put_sconn_def)

definition with_buffer :: "nat \<Rightarrow> rpc_connection \<Rightarrow> pbuf \<Rightarrow> os \<Rightarrow> 'm sserver \<Rightarrow> 'm sserver" where
  "with_buffer c k b w S = put_sconn c (k\<lparr>c_buf := b\<rparr>) (S\<lparr>ss_os := w\<rparr>)"

lemma respond_result:
  assumes "simple_respond_to_client M P resp rr c S = Inr S'" and "ss_objs S c = Some k"
    and "exact_pbuf (c_buf k)"
  obtains b w where "exact_pbuf b" and "touches (client_fd k) (ss_os S) w"
    and "S' = with_buffer c k b w S \<or> destroy_rpc_connection c (with_buffer c k b w S) = Inr S'"
proof -
  obtain out b where b: "build_reply expand_connection_packet (\<lambda>x. x) M P resp rr (c_buf k) = Inr (out, b)"
    using assms(1,2) by (auto simp: simple_respond_to_client_def and_then_eq_Inr_iff)
  have ex: "exact_pbuf b" by (rule connection_buffer.build_reply_keeps_wf [OF b assms(3)])
  have same: "put_sconn c (k\<lparr>c_buf := b\<rparr>) S = with_buffer c k b (ss_os S) S"
    by (simp add: with_buffer_def)
  show ?thesis
  proof (cases out)
    case None
    with assms(1,2) b same have "destroy_rpc_connection c (with_buffer c k b (ss_os S) S) = Inr S'"
      by (simp add: simple_respond_to_client_def Let_def)
    with ex show ?thesis by (intro that [of b "ss_os S"]) simp_all
  next
    case (Some bs)
    obtain r w where w: "fd_write_n (client_fd k) bs (ss_os S) = (r, w)" by fastforce
    have "(put_sconn c (k\<lparr>c_buf := b\<rparr>) S)\<lparr>ss_os := w\<rparr> = with_buffer c k b w S"
      by (simp add: with_buffer_def put_sconn_def)
    with assms(1,2) b Some w have "S' = with_buffer c k b w S \<or>
        destroy_rpc_connection c (with_buffer c k b w S) = Inr S'"
      by (simp add: simple_respond_to_client_def Let_def split: if_splits)
    then show ?thesis by (rule that [OF ex fd_write_touches [OF w]])
  qed
qed

lemma handle_client_result:
  assumes "simple_handle_client M P c S = Inr (S', thrown)" and "ss_objs S c = Some k"
    and "exact_pbuf (c_buf k)"
  obtains b w where "exact_pbuf b" and "touches (client_fd k) (ss_os S) w"
    and "S' = with_buffer c k b w S \<or> destroy_rpc_connection c (with_buffer c k b w S) = Inr S'"
proof -
  obtain got b w where r: "receive_packet expand_connection_packet M (client_fd k) (c_buf k) (ss_os S)
      = Inr (got, b, w)"
    using assms(1,2) by (auto simp: simple_handle_client_def and_then_eq_Inr_iff)
  have ex: "exact_pbuf b" by (rule connection_buffer.receive_keeps_wf [OF r assms(3)])
  have tw: "touches (client_fd k) (ss_os S) w" by (rule receive_touches [OF r])
  let ?T = "with_buffer c k b w S"
  have run: "(case got of
         None \<Rightarrow> and_then (destroy_rpc_connection c ?T) (\<lambda>S. Inr (S, None))
       | Some (rpc_len, req_len) \<Rightarrow>
           and_then (parse_and_serve M P (ss_services ?T) rpc_len req_len b) (\<lambda>ans.
           case ans of
             Drop \<Rightarrow> and_then (destroy_rpc_connection c ?T) (\<lambda>S. Inr (S, None))
           | Reply resp rpc_resp \<Rightarrow>
               and_then (simple_respond_to_client M P resp (Some rpc_resp) c ?T) (\<lambda>S. Inr (S, None))
           | Throws what \<Rightarrow> Inr (?T, Some what))) = Inr (S', thrown)"
    using assms(1,2) r unfolding with_buffer_def by (simp add: simple_handle_client_def Let_def)
  consider "S' = ?T" | "destroy_rpc_connection c ?T = Inr S'"
    | resp rr where "simple_respond_to_client M P resp (Some rr) c ?T = Inr S'"
  proof (cases got)
    case None
    with run show ?thesis by (auto simp: and_then_eq_Inr_iff intro: that)
  next
    case (Some ls)
    obtain x y where ls: "ls = (x, y)" by (cases ls)
    obtain ans where "parse_and_serve M P (ss_services ?T) x y b = Inr ans"
      using run Some ls by (auto simp: and_then_eq_Inr_iff)
    with run Some ls show ?thesis
      by (cases ans) (auto simp: and_then_eq_Inr_iff intro: that)
  qed
  then show ?thesis
  proof cases
    case 1
    then show ?thesis by (intro that [OF ex tw]) simp
  next
    case 2
    then show ?thesis by (intro that [OF ex tw]) simp
  next
    case 3
    have k2: "ss_objs ?T c = Some (k\<lparr>c_buf := b\<rparr>)" "exact_pbuf (c_buf (k\<lparr>c_buf := b\<rparr>))"
      using ex by (simp_all add: with_buffer_def)
    obtain b2 w2 where 2: "exact_pbuf b2" "touches (client_fd (k\<lparr>c_buf := b\<rparr>)) (ss_os ?T) w2"
      "S' = with_buffer c (k\<lparr>c_buf := b\<rparr>) b2 w2 ?T \<or>
       destroy_rpc_connection c (with_buffer c (k\<lparr>c_buf := b\<rparr>) b2 w2 ?T) = Inr S'"
      by (rule respond_result [OF 3 k2])
    have "with_buffer c (k\<lparr>c_buf := b\<rparr>) b2 w2 ?T = with_buffer c k b2 w2 S"
      by (simp add: with_buffer_def put_sconn_def)
    moreover have "touches (client_fd k) (ss_os S) w2"
      using 2(2) tw by (auto simp: with_buffer_def intro: touches_trans)
    ultimately show ?thesis using 2(1,3) by (intro that [of b2 w2]) simp_all
  qed
qed

lemma destroy_result:
  assumes "ss_objs S c = Some k" and "alive k"
  shows "destroy_rpc_connection c S = Inr (S\<lparr>ss_unused := ss_unused S @ [c],
     ss_in_use := (ss_in_use S)(c := None), ss_objs := (ss_objs S)(c \<mapsto> k\<lparr>alive := False\<rparr>),
     ss_events := removeAll c (ss_events S), ss_os := snd (fd_close (client_fd k) (ss_os S))\<rparr>)"
  using assms by (simp add: destroy_rpc_connection_def Let_def put_sconn_def)

subsection \<open>The invariant\<close>

text \<open>
  \<open>client_of S c\<close>: the descriptor the connection at \<open>c\<close> serves. The live objects are those in
  use and those kept for reuse, and no object is both; an object in use is alive, watched by
  the reactor, and alone in serving its open descriptor; an unused one has given it back.
\<close>

definition client_of :: "'m sserver \<Rightarrow> nat \<Rightarrow> nat option" where
  "client_of S c =
     (case ss_in_use S c of None \<Rightarrow> None | Some d \<Rightarrow> map_option client_fd (ss_objs S d))"

definition simple_inv :: "'m sserver \<Rightarrow> bool" where
  "simple_inv S \<longleftrightarrow>
     (\<forall>c d. ss_in_use S c = Some d \<longrightarrow> d = c) \<and>
     (\<forall>c \<in> dom (ss_in_use S). \<exists>k. ss_objs S c = Some k \<and> alive k \<and> os_fds (ss_os S) (client_fd k) \<noteq> None) \<and>
     (\<forall>c \<in> set (ss_unused S). \<exists>k. ss_objs S c = Some k \<and> \<not> alive k) \<and>
     distinct (ss_unused S) \<and> set (ss_events S) = dom (ss_in_use S) \<and> distinct (ss_events S) \<and>
     inj_on (client_of S) (dom (ss_in_use S)) \<and>
     dom (ss_objs S) = dom (ss_in_use S) \<union> set (ss_unused S) \<and>
     (\<forall>c k. ss_objs S c = Some k \<longrightarrow> c < ss_next S \<and> exact_pbuf (c_buf k))"

lemma simple_invD:
  assumes "simple_inv S"
  shows "ss_in_use S c = Some d \<Longrightarrow> d = c"
    and "ss_in_use S c = Some d \<Longrightarrow>
      \<exists>k. ss_objs S c = Some k \<and> alive k \<and> os_fds (ss_os S) (client_fd k) \<noteq> None"
    and "c \<in> set (ss_unused S) \<Longrightarrow> \<exists>k. ss_objs S c = Some k \<and> \<not> alive k"
    and "distinct (ss_unused S)" and "set (ss_events S) = dom (ss_in_use S)"
    and "inj_on (client_of S) (dom (ss_in_use S))"
    and "dom (ss_objs S) = dom (ss_in_use S) \<union> set (ss_unused S)"
    and "ss_objs S c = Some k \<Longrightarrow> c < ss_next S \<and> exact_pbuf (c_buf k)"
    and "distinct (ss_events S)"
  using assms unfolding simple_inv_def by (blast+)

lemma client_of_in_use:
  assumes "simple_inv S" and "ss_objs S c = Some k"
  shows "client_of S c = (if ss_in_use S c = None then None else Some (client_fd k))"
  using assms(2) simple_invD(1) [OF assms(1), of c] by (auto simp: client_of_def)

lemma client_of_simps [simp]:
  "client_of (S\<lparr>ss_services := t\<rparr>) = client_of S" "client_of (S\<lparr>ss_os := w\<rparr>) = client_of S"
  by (auto simp: client_of_def fun_eq_iff split: option.split)

lemma simple_inv_new: "simple_inv (CarrotSimpleServer_new w)"
  by (simp add: simple_inv_def CarrotSimpleServer_new_def)

lemma simple_inv_register: "simple_inv S \<Longrightarrow> simple_inv (snd (simple_RegisterService S s closure))"
  by (simp add: simple_inv_def simple_RegisterService_def split_def)

lemma simple_inv_os:
  assumes "simple_inv S" and "dom (os_fds w) = dom (os_fds (ss_os S))"
  shows "simple_inv (S\<lparr>ss_os := w\<rparr>)"
proof -
  have "os_fds w fd = None \<longleftrightarrow> os_fds (ss_os S) fd = None" for fd
    using assms(2) by (metis domIff)
  with assms(1) show ?thesis by (simp add: simple_inv_def)
qed

text \<open>Storing back the connection that is being handled.\<close>

lemma simple_inv_store:
  assumes "simple_inv S" and "ss_objs S c = Some k" and "exact_pbuf b"
  shows "simple_inv (put_sconn c (k\<lparr>c_buf := b\<rparr>) S)"
proof -
  have co: "client_of (put_sconn c (k\<lparr>c_buf := b\<rparr>) S) x = client_of S x" for x
    using assms(2) simple_invD(1) [OF assms(1), of x] by (auto simp: client_of_def split: option.splits)
  have inj: "inj_on (client_of (put_sconn c (k\<lparr>c_buf := b\<rparr>) S)) (dom (ss_in_use S))"
    using simple_invD(6) [OF assms(1)] by (simp add: inj_on_def co)
  have used: "alive k \<and> os_fds (ss_os S) (client_fd k) \<noteq> None" if "ss_in_use S c = Some d" for d
    using simple_invD(2) [OF assms(1) that] assms(2) by simp
  have unused: "\<not> alive k" if "c \<in> set (ss_unused S)"
    using simple_invD(3) [OF assms(1) that] assms(2) by simp
  show ?thesis
    unfolding simple_inv_def put_sconn_simps
  proof (intro conjI)
    show "\<forall>x \<in> dom (ss_in_use S). \<exists>k'. ((ss_objs S)(c \<mapsto> k\<lparr>c_buf := b\<rparr>)) x = Some k' \<and> alive k' \<and>
        os_fds (ss_os S) (client_fd k') \<noteq> None"
      using simple_invD(2) [OF assms(1)] used by auto
    show "\<forall>x \<in> set (ss_unused S). \<exists>k'. ((ss_objs S)(c \<mapsto> k\<lparr>c_buf := b\<rparr>)) x = Some k' \<and> \<not> alive k'"
      using simple_invD(3) [OF assms(1)] unused by auto
    show "\<forall>x k'. ((ss_objs S)(c \<mapsto> k\<lparr>c_buf := b\<rparr>)) x = Some k' \<longrightarrow> x < ss_next S \<and> exact_pbuf (c_buf k')"
      using simple_invD(8) [OF assms(1)] assms(2,3) by auto
    show "dom ((ss_objs S)(c \<mapsto> k\<lparr>c_buf := b\<rparr>)) = dom (ss_in_use S) \<union> set (ss_unused S)"
      using simple_invD(7) [OF assms(1)] assms(2) by auto
  qed (use simple_invD(1,4,5,9) [OF assms(1)] inj in blast)+
qed

lemma simple_inv_with_buffer:
  assumes "simple_inv S" and "ss_objs S c = Some k" and "exact_pbuf b"
    and "touches (client_fd k) (ss_os S) w"
  shows "simple_inv (with_buffer c k b w S)"
  unfolding with_buffer_def
  by (rule simple_inv_store [OF simple_inv_os [OF assms(1) touches_dom [OF assms(4)]] _ assms(3)])
    (simp add: assms(2))

text \<open>Giving a connection back.\<close>

lemma fd_close_fds: "os_fds (snd (fd_close fd w)) = (os_fds w)(fd := None)"
  by (auto simp: fd_close_def fun_upd_idem split: option.split)

lemma simple_inv_destroy:
  assumes "simple_inv S" and "ss_in_use S c = Some d" and "destroy_rpc_connection c S = Inr S'"
  shows "simple_inv S'"
proof -
  obtain k where k: "ss_objs S c = Some k" "alive k" using simple_invD(2) [OF assms(1,2)] by auto
  note S' = destroy_result [OF k, unfolded assms(3), simplified]
  have u: "c \<notin> set (ss_unused S)" using simple_invD(3) [OF assms(1), of c] k by auto
  have cc: "client_of S c = Some (client_fd k)"
    using client_of_in_use [OF assms(1) k(1)] assms(2) by simp
  have co: "client_of S' x = (if x = c then None else client_of S x)" for x
    using simple_invD(1) [OF assms(1), of x] by (auto simp: S' client_of_def split: option.splits)
  have other: "client_fd k' \<noteq> client_fd k"
    if "ss_in_use S x = Some y" "x \<noteq> c" "ss_objs S x = Some k'" for x y k'
  proof
    assume "client_fd k' = client_fd k"
    then have "client_of S x = client_of S c"
      using client_of_in_use [OF assms(1) that(3)] that(1) cc by simp
    then show False
      using simple_invD(6) [OF assms(1)] that(1,2) assms(2) by (auto simp: inj_on_def dom_def)
  qed
  have doms: "dom (ss_in_use S') = dom (ss_in_use S) - {c}" "set (ss_events S') = set (ss_events S) - {c}"
    "dom (ss_objs S') = insert c (dom (ss_objs S))" "set (ss_unused S') = insert c (set (ss_unused S))"
    by (auto simp: S')
  have inj: "inj_on (client_of S') (dom (ss_in_use S'))"
    using simple_invD(6) [OF assms(1)] unfolding inj_on_def co doms(1) by auto
  have use: "\<exists>k. ss_objs S' x = Some k \<and> alive k \<and> os_fds (ss_os S') (client_fd k) \<noteq> None"
    if x: "ss_in_use S x = Some y" "x \<noteq> c" for x y
  proof -
    obtain k' where k': "ss_objs S x = Some k'" "alive k'" "os_fds (ss_os S) (client_fd k') \<noteq> None"
      using simple_invD(2) [OF assms(1) x(1)] by auto
    with other [OF x k'(1)] x(2) show ?thesis by (simp add: S' fd_close_fds)
  qed
  have unused: "\<exists>k. ss_objs S' x = Some k \<and> \<not> alive k" if "x \<in> set (ss_unused S')" for x
    using that simple_invD(3) [OF assms(1), of x] u by (auto simp: S')
  have d: "dom (ss_objs S') = dom (ss_in_use S') \<union> set (ss_unused S')"
    unfolding doms simple_invD(7) [OF assms(1)] using assms(2) by auto
  show ?thesis
    unfolding simple_inv_def
  proof (intro conjI)
    show "distinct (ss_unused S')" using simple_invD(4) [OF assms(1)] u by (simp add: S')
    show "set (ss_events S') = dom (ss_in_use S')" unfolding doms simple_invD(5) [OF assms(1)] by simp
    show "distinct (ss_events S')" using simple_invD(9) [OF assms(1)] by (simp add: S' distinct_removeAll)
    show "\<forall>x y. ss_in_use S' x = Some y \<longrightarrow> y = x" using simple_invD(1) [OF assms(1)] by (simp add: S')
    show "\<forall>x k. ss_objs S' x = Some k \<longrightarrow> x < ss_next S' \<and> exact_pbuf (c_buf k)"
      using simple_invD(8) [OF assms(1)] k(1) by (auto simp: S')
    show "\<forall>x \<in> dom (ss_in_use S'). \<exists>k. ss_objs S' x = Some k \<and> alive k \<and>
        os_fds (ss_os S') (client_fd k) \<noteq> None"
      using use unfolding doms by auto
  qed (use inj unused d in blast)+
qed

text \<open>
  Accepting: the object comes from \<open>conns_unused\<close> or is new; in both cases it is in no
  table, and it either goes into use or, when the reactor refuses it, is deleted.
\<close>

lemma take_connection:
  assumes "simple_inv S" and "handle_listen_sock (Some (fd, s)) add_ok S = Inr S'"
  obtains c k rest n where "ss_in_use S c = None" and "c \<notin> set rest" and "exact_pbuf (c_buf k)"
    and "set (ss_unused S) - {c} = set rest" and "distinct rest"
    and "S' = (let T = S\<lparr>ss_unused := rest, ss_next := n,
                  ss_os := (ss_os S)\<lparr>os_fds := (os_fds (ss_os S))(fd \<mapsto> s)\<rparr>\<rparr> in
               if add_ok
               then T\<lparr>ss_in_use := (ss_in_use S)(c \<mapsto> c), ss_events := c # ss_events S,
                      ss_objs := (ss_objs S)(c \<mapsto> k\<lparr>client_fd := fd, alive := True\<rparr>)\<rparr>
               else T\<lparr>ss_objs := (ss_objs S)(c := None)\<rparr>)"
    and "ss_next S \<le> n" and "c < n"
proof (cases "ss_unused S = []")
  case True
  have free: "ss_objs S (ss_next S) = None"
    using simple_invD(8) [OF assms(1), of "ss_next S"] by (cases "ss_objs S (ss_next S)") auto
  then have "ss_next S \<notin> dom (ss_in_use S)" using simple_invD(7) [OF assms(1)] by auto
  then have unused: "ss_in_use S (ss_next S) = None" by blast
  show ?thesis
  proof (rule that [of "ss_next S" "[]" rpc_connection_new "Suc (ss_next S)"])
    show "S' = (let T = S\<lparr>ss_unused := [], ss_next := Suc (ss_next S),
                  ss_os := (ss_os S)\<lparr>os_fds := (os_fds (ss_os S))(fd \<mapsto> s)\<rparr>\<rparr> in
               if add_ok
               then T\<lparr>ss_in_use := (ss_in_use S)(ss_next S \<mapsto> ss_next S), ss_events := ss_next S # ss_events S,
                      ss_objs := (ss_objs S)(ss_next S \<mapsto> rpc_connection_new\<lparr>client_fd := fd, alive := True\<rparr>)\<rparr>
               else T\<lparr>ss_objs := (ss_objs S)(ss_next S := None)\<rparr>)"
      using assms(2) True unused
      by (cases S) (auto simp: handle_listen_sock_def put_sconn_def Let_def split: if_splits)
  qed (use True unused in \<open>auto simp: rpc_connection_new_def\<close>)
next
  case False
  let ?c = "last (ss_unused S)"
  have c: "?c \<in> set (ss_unused S)" using False by simp
  obtain k where k: "ss_objs S ?c = Some k" "\<not> alive k" using simple_invD(3) [OF assms(1) c] by auto
  have unused: "ss_in_use S ?c = None"
    using simple_invD(2) [OF assms(1), of ?c] k by (cases "ss_in_use S ?c") auto
  have d: "distinct (butlast (ss_unused S) @ [?c])"
    using simple_invD(4) [OF assms(1)] False by simp
  show ?thesis
  proof (rule that [of ?c "butlast (ss_unused S)" k "ss_next S"])
    show "S' = (let T = S\<lparr>ss_unused := butlast (ss_unused S), ss_next := ss_next S,
                  ss_os := (ss_os S)\<lparr>os_fds := (os_fds (ss_os S))(fd \<mapsto> s)\<rparr>\<rparr> in
               if add_ok
               then T\<lparr>ss_in_use := (ss_in_use S)(?c \<mapsto> ?c), ss_events := ?c # ss_events S,
                      ss_objs := (ss_objs S)(?c \<mapsto> k\<lparr>client_fd := fd, alive := True\<rparr>)\<rparr>
               else T\<lparr>ss_objs := (ss_objs S)(?c := None)\<rparr>)"
      using assms(2) False k unused
      by (cases S) (auto simp: handle_listen_sock_def put_sconn_def Let_def split: if_splits)
    have "set (ss_unused S) = set (butlast (ss_unused S) @ [?c])" using False by simp
    then show "set (ss_unused S) - {?c} = set (butlast (ss_unused S))" using d by auto
    show "exact_pbuf (c_buf k)" "?c < ss_next S"
      using simple_invD(8) [OF assms(1) k(1)] by simp_all
  qed (use d unused in auto)
qed

lemma simple_inv_listen:
  assumes "simple_inv S" and "os_fds (ss_os S) fd = None"
    and "handle_listen_sock (Some (fd, s)) add_ok S = Inr S'"
  shows "simple_inv S'"
proof (rule take_connection [OF assms(1,3)])
  fix c k rest n
  assume c: "ss_in_use S c = None" "c \<notin> set rest" "exact_pbuf (c_buf k)"
    "set (ss_unused S) - {c} = set rest" "distinct rest" "ss_next S \<le> n" "c < n"
    and eq: "S' = (let T = S\<lparr>ss_unused := rest, ss_next := n,
                  ss_os := (ss_os S)\<lparr>os_fds := (os_fds (ss_os S))(fd \<mapsto> s)\<rparr>\<rparr> in
               if add_ok
               then T\<lparr>ss_in_use := (ss_in_use S)(c \<mapsto> c), ss_events := c # ss_events S,
                      ss_objs := (ss_objs S)(c \<mapsto> k\<lparr>client_fd := fd, alive := True\<rparr>)\<rparr>
               else T\<lparr>ss_objs := (ss_objs S)(c := None)\<rparr>)"
  let ?use = "if add_ok then (ss_in_use S)(c \<mapsto> c) else ss_in_use S"
  let ?objs = "(ss_objs S)(c := if add_ok then Some (k\<lparr>client_fd := fd, alive := True\<rparr>) else None)"
  have S': "ss_in_use S' = ?use" "ss_objs S' = ?objs" "ss_unused S' = rest" "ss_next S' = n"
    "os_fds (ss_os S') = (os_fds (ss_os S))(fd \<mapsto> s)"
    "ss_events S' = (if add_ok then c # ss_events S else ss_events S)"
    using eq by (simp_all add: Let_def)
  have out: "c \<notin> dom (ss_in_use S)" using c(1) by blast
  have old: "\<exists>k'. ss_objs S x = Some k' \<and> alive k' \<and> os_fds (ss_os S) (client_fd k') \<noteq> None \<and> x \<noteq> c"
    if "ss_in_use S x = Some y" for x y
    using simple_invD(2) [OF assms(1) that] that c(1) by auto
  have co: "client_of S' x = (if add_ok \<and> x = c then Some fd else client_of S x)" for x
    using simple_invD(1) [OF assms(1), of x] c(1)
    by (auto simp: client_of_def S' split: option.splits)
  have fresh: "client_of S x \<noteq> Some fd" if x: "ss_in_use S x = Some y" for x y
  proof -
    obtain k' where k': "ss_objs S x = Some k'" "os_fds (ss_os S) (client_fd k') \<noteq> None"
      using simple_invD(2) [OF assms(1) x] by auto
    then have "client_fd k' \<noteq> fd" using assms(2) by auto
    with client_of_in_use [OF assms(1) k'(1)] x show ?thesis by simp
  qed
  have doms: "dom (ss_in_use S') = (if add_ok then insert c (dom (ss_in_use S)) else dom (ss_in_use S))"
    by (simp add: S')
  have inj: "inj_on (client_of S') (dom (ss_in_use S'))"
  proof (rule inj_onI)
    fix x y
    assume xy: "x \<in> dom (ss_in_use S')" "y \<in> dom (ss_in_use S')" "client_of S' x = client_of S' y"
    show "x = y"
    proof (cases "add_ok \<and> (x = c \<or> y = c)")
      case True
      then show ?thesis
        using xy fresh unfolding co doms by (auto split: if_splits)
    next
      case False
      then show ?thesis
        using xy simple_invD(6) [OF assms(1)] unfolding co doms inj_on_def by (auto split: if_splits)
    qed
  qed
  have u: "set rest \<subseteq> set (ss_unused S)" "set (ss_unused S) \<subseteq> insert c (set rest)" using c(4) by auto
  have d: "dom (ss_objs S') = dom (ss_in_use S') \<union> set (ss_unused S')"
    using simple_invD(7) [OF assms(1)] out u c(2) unfolding S' by (cases add_ok) auto
  show ?thesis
    unfolding simple_inv_def
  proof (intro conjI)
    show "\<forall>x \<in> dom (ss_in_use S'). \<exists>k. ss_objs S' x = Some k \<and> alive k \<and>
        os_fds (ss_os S') (client_fd k) \<noteq> None"
      using old unfolding S' by (cases add_ok) (auto, (metis option.distinct(1))+)
    show "\<forall>x \<in> set (ss_unused S'). \<exists>k. ss_objs S' x = Some k \<and> \<not> alive k"
      using simple_invD(3) [OF assms(1)] u(1) c(2) unfolding S' by auto
    show "\<forall>x k. ss_objs S' x = Some k \<longrightarrow> x < ss_next S' \<and> exact_pbuf (c_buf k)"
      using simple_invD(8) [OF assms(1)] c(3,6,7) unfolding S' by (auto split: if_splits) fastforce+
    show "\<forall>x d. ss_in_use S' x = Some d \<longrightarrow> d = x"
      using simple_invD(1) [OF assms(1)] unfolding S' by (auto split: if_splits)
    show "set (ss_events S') = dom (ss_in_use S')"
      using simple_invD(5) [OF assms(1)] unfolding S' by auto
    show "distinct (ss_events S')"
      using simple_invD(5,9) [OF assms(1)] out unfolding S' by auto
  qed (use inj d c(5) S'(3) in simp_all)
qed

lemma simple_inv_client:
  assumes "simple_inv S" and "c \<in> set (ss_events S)" and "simple_handle_client M P c S = Inr (S', thrown)"
  shows "simple_inv S'"
proof -
  obtain d where d: "ss_in_use S c = Some d" using assms(2) simple_invD(5) [OF assms(1)] by auto
  obtain k where k: "ss_objs S c = Some k" using simple_invD(2) [OF assms(1) d] by auto
  show ?thesis
  proof (rule handle_client_result [OF assms(3) k])
    show "exact_pbuf (c_buf k)" using simple_invD(8) [OF assms(1) k] by simp
    fix b w
    assume "exact_pbuf b" "touches (client_fd k) (ss_os S) w"
      and alt: "S' = with_buffer c k b w S \<or> destroy_rpc_connection c (with_buffer c k b w S) = Inr S'"
    then have inv: "simple_inv (with_buffer c k b w S)"
      by (intro simple_inv_with_buffer [OF assms(1) k])
    moreover have "ss_in_use (with_buffer c k b w S) c = Some d" using d by (simp add: with_buffer_def)
    ultimately show ?thesis using alt simple_inv_destroy by blast
  qed
qed

lemma simple_reachable_inv: "simple_reachable M P w0 S \<Longrightarrow> simple_inv S"
proof (induction rule: simple_reachable.induct)
  case start
  show ?case by (rule simple_inv_new)
next
  case (register S s closure)
  then show ?case by (intro simple_inv_register)
next
  case (network S w)
  then show ?case by (intro simple_inv_os)
next
  case (listen S fd only_read s add_ok S')
  then show ?case using simple_inv_listen by (auto simp: listen_callback_def split: if_splits)
next
  case (readable S c only_read S' thrown)
  then show ?case using simple_inv_client by (auto simp: client_callback_def split: if_splits)
qed

end
