(* ===== verification/Async_Server.thy ===== *)
theory Async_Server
  imports Packet_Buffer Service_Registry
begin

section \<open>The asynchronous server: src/src/server/carrot_async_server.h and .cpp\<close>

text \<open>
  \<open>RpcServerConnection\<close> is a chain of Boost.Asio operations: read a header, read the payload
  it announces, dispatch, write the response, and start again; \<open>CarrotAsyncServer\<close> accepts
  connections and keeps them in \<open>conns_\<close>. The objects live in a table indexed by the value
  of the pointer. Each handler takes the completion's error code and the state and returns
  the new state and the exception it throws, if any; undefined behaviour and
  non-termination are faults. What Asio does between starting an operation and calling its
  handler (storing received bytes into the buffer, taking the bytes to send from it) is
  Asio's documented behaviour and is written out where the operation completes.
\<close>

subsection \<open>State\<close>

datatype exn = BadAlloc | RuntimeError string | SystemError nat

text \<open>The operation a connection waits for: \<open>async_read\<close> or \<open>async_write\<close> and its buffer.\<close>

datatype pending = NoOp | ReadHeader | ReadPayload u64 | WriteResponse "byte list"

record rconn =
  rc_server :: bool
  rc_open :: bool
  rc_buf :: pbuf
  rc_n :: u32
  rc_pending :: pending

record 'm aserver =
  as_services :: "'m services"
  as_conns :: "nat \<Rightarrow> nat option"
  as_objs :: "nat \<Rightarrow> rconn option"
  as_next :: nat
  as_accepting :: "nat option"

type_synonym 'm outcome = "('m aserver \<times> exn option) res"

definition put_conn :: "nat \<Rightarrow> rconn \<Rightarrow> 'm aserver \<Rightarrow> 'm aserver" where
  "put_conn c k S = S\<lparr>as_objs := (as_objs S)(c \<mapsto> k)\<rparr>"

definition RpcServerConnection_new :: "machine \<Rightarrow> rconn" where
  "RpcServerConnection_new M =
     \<lparr>rc_server = True, rc_open = False, rc_buf = null_buf, rc_n = junk_u32 M, rc_pending = NoOp\<rparr>"

subsection \<open>RpcServerConnection\<close>

definition conn_destroy :: "nat \<Rightarrow> rconn \<Rightarrow> 'm aserver \<Rightarrow> 'm aserver" where
  "conn_destroy c k S =
     (let S1 = (if rc_server k then S\<lparr>as_conns := (as_conns S)(c := None)\<rparr> else S) in
      if rc_open k then put_conn c (k\<lparr>rc_open := False\<rparr>) S1 else put_conn c k S1)"

definition serve :: "machine \<Rightarrow> nat \<Rightarrow> rconn \<Rightarrow> 'm aserver \<Rightarrow> 'm outcome" where
  "serve M c k S =
     and_then (expand_packet M (rc_buf k) (of_nat sizeof_packet)) (\<lambda>(r, b).
       let k1 = k\<lparr>rc_buf := b\<rparr> in
       if r = -1 then Inr (put_conn c k1 S, Some BadAlloc)
       else Inr (put_conn c (k1\<lparr>rc_pending := ReadHeader\<rparr>) S, None))"

definition handle_read_header ::
  "machine \<Rightarrow> nat option \<Rightarrow> nat \<Rightarrow> rconn \<Rightarrow> 'm aserver \<Rightarrow> 'm outcome" where
  "handle_read_header M error c k S =
     (case error of
        None \<Rightarrow>
          and_then (deref (buf_p (rc_buf k))) (\<lambda>blk.
          and_then (CONVERT_TO_HOST_ORDER M blk) (\<lambda>blk.
          and_then (load_u32 M off_rpc_len blk) (\<lambda>rpc_len.
          and_then (load_u32 M off_req_len blk) (\<lambda>req_len.
          and_then (load_u32 M off_resp_len blk) (\<lambda>resp_len.
            let n = announced rpc_len req_len resp_len;
                k1 = k\<lparr>rc_buf := (rc_buf k)\<lparr>buf_p := Some blk\<rparr>, rc_n := n\<rparr> in
            and_then (expand_packet M (rc_buf k1) n) (\<lambda>(r, b).
              let k2 = k1\<lparr>rc_buf := b\<rparr> in
              if r = -1 then Inr (put_conn c k2 S, Some BadAlloc)
              else Inr (put_conn c (k2\<lparr>rc_pending := ReadPayload (payload_size n)\<rparr>) S, None)))))))
      | Some e \<Rightarrow> Inr (conn_destroy c k S, Some (SystemError e)))"

text \<open>
  \<open>respond_to_client\<close>. Its log statement calls \<open>resp->DebugString()\<close>, also in a build
  without logging, where \<open>CARROT_LOG(...)\<close> expands to a cast to \<open>void\<close> of an expression
  that is still evaluated. The buffer is grown to \<open>n_\<close>, the size of the request.
\<close>

definition respond_to_client ::
  "machine \<Rightarrow> 'u protocol \<Rightarrow> ('m message_api \<times> 'm) option \<Rightarrow> 'u Response option \<Rightarrow>
   nat \<Rightarrow> rconn \<Rightarrow> 'm aserver \<Rightarrow> 'm outcome" where
  "respond_to_client M P resp rpc_resp c k S =
     (let rpc_len = (case rpc_resp of None \<Rightarrow> 0 | Some r \<Rightarrow> ByteSize (proto_response P) r);
          resp_len = (case resp of None \<Rightarrow> 0 | Some (api, m) \<Rightarrow> ByteSize api m);
          n = sizeof_packet + rpc_len + resp_len in
      and_then (deref resp) (\<lambda>_.
      and_then (expand_packet M (rc_buf k) (rc_n k)) (\<lambda>(r, b).
        if r = -1 then Inr (put_conn c (k\<lparr>rc_buf := b\<rparr>) S, Some BadAlloc)
        else
          and_then (deref (buf_p b)) (\<lambda>blk.
          and_then (store_header M (htonl M (of_nat rpc_len)) (htonl M 0)
                      (htonl M (of_nat resp_len)) blk) (\<lambda>blk.
          let k1 = (\<lambda>blk. k\<lparr>rc_buf := b\<lparr>buf_p := Some blk\<rparr>\<rparr>) in
          case (case rpc_resp of None \<Rightarrow> Some []
                | Some rr \<Rightarrow> SerializeToArray (proto_response P) rr rpc_len) of
            None \<Rightarrow> Inr (conn_destroy c (k1 blk) S,
                         Some (RuntimeError ''failed to serialize response(metadata)''))
          | Some bs1 \<Rightarrow>
              and_then (store_at off_data bs1 blk) (\<lambda>blk.
              case (case resp of None \<Rightarrow> Some []
                    | Some (api, m) \<Rightarrow> SerializeToArray api m resp_len) of
                None \<Rightarrow> Inr (conn_destroy c (k1 blk) S,
                             Some (RuntimeError ''failed to serialize response''))
              | Some bs2 \<Rightarrow>
                  and_then (store_at (off_data + rpc_len) bs2 blk) (\<lambda>blk.
                  and_then (load_at 0 n blk) (\<lambda>out.
                    Inr (put_conn c ((k1 blk)\<lparr>rc_pending := WriteResponse out\<rparr>) S, None)))))))))"

definition set_not_found :: "string \<Rightarrow> 'u Request \<Rightarrow> 'u protocol \<Rightarrow> 'u Response" where
  "set_not_found msg rpc_req P =
     Response_set_message msg (Response_set_status NOT_FOUND
       (Response_set_id (rq_id rpc_req) (fresh_response P)))"

text \<open>\<open>CallMethod\<close> in its \<open>try\<close> block, and the response the outcome selects.\<close>

definition run_service ::
  "machine \<Rightarrow> 'm rpc_method \<Rightarrow> 'm \<Rightarrow> controller \<times> 'm" where
  "run_service M md request =
     (case call_method md request
             (CarrotController_default (junk_callback M) (junk_u32 M)) (response_new md) of
        (ctl, response, thrown) \<Rightarrow>
          (case thrown of
             None \<Rightarrow> (ctl, response)
           | Some what \<Rightarrow> (SetFailed (''Server Internal Error '' @ what) ctl, response)))"

definition response_for :: "controller \<Rightarrow> 'u Request \<Rightarrow> 'u protocol \<Rightarrow> 'u Response" where
  "response_for ctl rpc_req P =
     Response_set_id (rq_id rpc_req)
       (if Failed ctl
        then Response_set_message (ErrorText ctl) (Response_set_status FAILED (fresh_response P))
        else Response_set_status SUCCESS (fresh_response P))"

text \<open>
  The part of \<open>handle_read_payload\<close> after the metadata has been parsed. \<open>server_\<close> is
  dereferenced to look the service up, after the test for a missing dot and with no test of
  its own.
\<close>

definition answer_request ::
  "machine \<Rightarrow> 'u protocol \<Rightarrow> block \<Rightarrow> u32 \<Rightarrow> 'u Request \<Rightarrow> nat \<Rightarrow> rconn \<Rightarrow> 'm aserver \<Rightarrow>
   'm outcome" where
  "answer_request M P blk rpc_len rpc_req c k S =
     (if find_first_of CHR ''.'' (rq_method_identity rpc_req) \<noteq> None \<and> \<not> rc_server k
      then Inl NullDeref
      else
        (case dispatch_to (as_services S) (rq_method_identity rpc_req) of
           InvalidIdentity \<Rightarrow>
             respond_to_client M P None
               (Some (set_not_found ''invalid method method identity'' rpc_req P)) c k S
         | ServiceNotFound \<Rightarrow>
             respond_to_client M P None
               (Some (set_not_found ''service not found'' rpc_req P)) c k S
         | MethodNotFound \<Rightarrow>
             respond_to_client M P None
               (Some (set_not_found ''method not found'' rpc_req P)) c k S
         | Target cs md \<Rightarrow>
             and_then (load_u32 M off_req_len blk) (\<lambda>req_len.
             and_then (load_at (off_data + unat rpc_len) (unat req_len) blk) (\<lambda>param.
             case ParseFromArray (request_api md) param of
               None \<Rightarrow> Inr (conn_destroy c k S,
                 Some (RuntimeError ''failed to read request parameter from client''))
             | Some request \<Rightarrow>
                 (case run_service M md request of (ctl, response) \<Rightarrow>
                    respond_to_client M P (Some (response_api md, response))
                      (Some (response_for ctl rpc_req P)) c k S)))))"

text \<open>The text of \<open>errno\<close> that the first exception appends is left out.\<close>

definition handle_read_payload ::
  "machine \<Rightarrow> 'u protocol \<Rightarrow> nat option \<Rightarrow> nat \<Rightarrow> rconn \<Rightarrow> 'm aserver \<Rightarrow> 'm outcome" where
  "handle_read_payload M P error c k S =
     (case error of
        None \<Rightarrow>
          and_then (deref (buf_p (rc_buf k))) (\<lambda>blk.
          and_then (load_u32 M off_rpc_len blk) (\<lambda>rpc_len.
          and_then (load_at off_data (unat rpc_len) blk) (\<lambda>meta.
          case ParseFromArray (proto_request P) meta of
            None \<Rightarrow> Inr (conn_destroy c k S,
                         Some (RuntimeError ''failed to read incoming packet from client: ''))
          | Some rpc_req \<Rightarrow> answer_request M P blk rpc_len rpc_req c k S)))
      | Some e \<Rightarrow> Inr (conn_destroy c k S, Some (SystemError e)))"

definition handle_write_response ::
  "machine \<Rightarrow> nat option \<Rightarrow> nat \<Rightarrow> rconn \<Rightarrow> 'm aserver \<Rightarrow> 'm outcome" where
  "handle_write_response M error c k S =
     (case error of
        None \<Rightarrow> serve M c k S
      | Some e \<Rightarrow> Inr (conn_destroy c k S, Some (SystemError e)))"

subsection \<open>CarrotAsyncServer\<close>

text \<open>\<open>std::map::insert\<close> does not replace an existing entry.\<close>

definition map_insert :: "'k \<Rightarrow> 'v \<Rightarrow> ('k \<Rightarrow> 'v option) \<Rightarrow> 'k \<Rightarrow> 'v option" where
  "map_insert k v m = (if m k = None then m(k \<mapsto> v) else m)"

definition start_accept :: "machine \<Rightarrow> 'm aserver \<Rightarrow> 'm aserver" where
  "start_accept M S =
     (let c = as_next S;
          S1 = put_conn c (RpcServerConnection_new M) (S\<lparr>as_next := Suc c\<rparr>) in
      S1\<lparr>as_conns := map_insert c c (as_conns S1), as_accepting := Some c\<rparr>)"

definition handle_accept ::
  "machine \<Rightarrow> nat option \<Rightarrow> nat \<Rightarrow> rconn \<Rightarrow> 'm aserver \<Rightarrow> 'm outcome" where
  "handle_accept M error c k S =
     and_then (if error = None then serve M c k S else Inr (S, None)) (\<lambda>(S1, thrown).
       if thrown = None then Inr (start_accept M S1, None) else Inr (S1, thrown))"

definition CarrotAsyncServer_new :: "machine \<Rightarrow> 'm aserver" where
  "CarrotAsyncServer_new M =
     start_accept M
       \<lparr>as_services = (\<lambda>_. None), as_conns = (\<lambda>_. None), as_objs = (\<lambda>_. None),
        as_next = 0, as_accepting = None\<rparr>"

definition CarrotAsyncServer_RegisterService ::
  "'m aserver \<Rightarrow> 'm service \<Rightarrow> nat option \<Rightarrow> bool \<times> 'm aserver" where
  "CarrotAsyncServer_RegisterService S s closure =
     (case RegisterService (as_services S) s closure of
        (ok, tab) \<Rightarrow> (ok, S\<lparr>as_services := tab\<rparr>))"

text \<open>The destructor: every connection in \<open>conns_\<close> loses its pointer to the server.\<close>

definition CarrotAsyncServer_delete :: "'m aserver \<Rightarrow> 'm aserver" where
  "CarrotAsyncServer_delete S =
     S\<lparr>as_objs := (\<lambda>c. case as_objs S c of
        None \<Rightarrow> None
      | Some k \<Rightarrow> Some (if as_conns S c \<noteq> None then k\<lparr>rc_server := False\<rparr> else k))\<rparr>"

subsection \<open>The events of the io_service\<close>

text \<open>
  A completion runs one handler. Before it does, Asio has opened the accepted socket, or
  stored the received bytes at the start of the buffer it was given; a completed operation
  is no longer pending. A read without error has transferred exactly the bytes asked for.
\<close>

definition asio_store :: "nat \<Rightarrow> byte list \<Rightarrow> rconn \<Rightarrow> rconn res" where
  "asio_store off bs k =
     and_then (deref (buf_p (rc_buf k))) (\<lambda>blk.
     and_then (store_at off bs blk) (\<lambda>blk.
       Inr (k\<lparr>rc_buf := (rc_buf k)\<lparr>buf_p := Some blk\<rparr>, rc_pending := NoOp\<rparr>)))"

datatype event =
    Accepted
  | AcceptFailed nat
  | HeaderRead nat "byte list"
  | PayloadRead nat "byte list"
  | ReadFailed nat "byte list" nat
  | Written nat
  | WriteFailed nat nat

text \<open>Whether the event can happen: the operation it completes is pending.\<close>

fun enabled :: "event \<Rightarrow> 'm aserver \<Rightarrow> bool" where
  "enabled Accepted S = (as_accepting S \<noteq> None)"
| "enabled (AcceptFailed e) S = (as_accepting S \<noteq> None)"
| "enabled (HeaderRead c bs) S =
     (case as_objs S c of None \<Rightarrow> False
      | Some k \<Rightarrow> rc_pending k = ReadHeader \<and> length bs = sizeof_packet)"
| "enabled (PayloadRead c bs) S =
     (case as_objs S c of None \<Rightarrow> False
      | Some k \<Rightarrow> rc_pending k = ReadPayload (of_nat (length bs)) \<and> length bs < 2 ^ 64)"
| "enabled (ReadFailed c bs e) S =
     (case as_objs S c of None \<Rightarrow> False
      | Some k \<Rightarrow> (case rc_pending k of
          ReadHeader \<Rightarrow> length bs \<le> sizeof_packet
        | ReadPayload n \<Rightarrow> length bs \<le> unat n
        | _ \<Rightarrow> False))"
| "enabled (Written c) S =
     (case as_objs S c of None \<Rightarrow> False
      | Some k \<Rightarrow> (case rc_pending k of WriteResponse bs \<Rightarrow> True | _ \<Rightarrow> False))"
| "enabled (WriteFailed c e) S =
     (case as_objs S c of None \<Rightarrow> False
      | Some k \<Rightarrow> (case rc_pending k of WriteResponse bs \<Rightarrow> True | _ \<Rightarrow> False))"

definition read_offset :: "pending \<Rightarrow> nat" where
  "read_offset op = (case op of ReadPayload n \<Rightarrow> off_data | _ \<Rightarrow> 0)"

fun run_event :: "machine \<Rightarrow> 'u protocol \<Rightarrow> event \<Rightarrow> 'm aserver \<Rightarrow> 'm outcome" where
  "run_event M P Accepted S =
     and_then (deref (as_accepting S)) (\<lambda>c.
     and_then (deref (as_objs S c)) (\<lambda>k.
       let k1 = k\<lparr>rc_open := True\<rparr> in
       handle_accept M None c k1 (put_conn c k1 (S\<lparr>as_accepting := None\<rparr>))))"
| "run_event M P (AcceptFailed e) S =
     and_then (deref (as_accepting S)) (\<lambda>c.
     and_then (deref (as_objs S c)) (\<lambda>k.
       handle_accept M (Some e) c k (S\<lparr>as_accepting := None\<rparr>)))"
| "run_event M P (HeaderRead c bs) S =
     and_then (deref (as_objs S c)) (\<lambda>k.
     and_then (asio_store 0 bs k) (\<lambda>k. handle_read_header M None c k S))"
| "run_event M P (PayloadRead c bs) S =
     and_then (deref (as_objs S c)) (\<lambda>k.
     and_then (asio_store off_data bs k) (\<lambda>k. handle_read_payload M P None c k S))"
| "run_event M P (ReadFailed c bs e) S =
     and_then (deref (as_objs S c)) (\<lambda>k.
     and_then (asio_store (read_offset (rc_pending k)) bs k) (\<lambda>k1.
       if rc_pending k = ReadHeader then handle_read_header M (Some e) c k1 S
       else handle_read_payload M P (Some e) c k1 S))"
| "run_event M P (Written c) S =
     and_then (deref (as_objs S c)) (\<lambda>k.
       handle_write_response M None c (k\<lparr>rc_pending := NoOp\<rparr>) S)"
| "run_event M P (WriteFailed c e) S =
     and_then (deref (as_objs S c)) (\<lambda>k.
       handle_write_response M (Some e) c (k\<lparr>rc_pending := NoOp\<rparr>) S)"

text \<open>
  The states of a running server: \<open>ios.run()\<close> is called again after an exception, as the
  example server does, so an exception ends a step but not the run.
\<close>

inductive server_reachable :: "machine \<Rightarrow> 'u protocol \<Rightarrow> 'm aserver \<Rightarrow> bool" for M P where
  start: "server_reachable M P (CarrotAsyncServer_new M)"
| register: "server_reachable M P S \<Longrightarrow>
    server_reachable M P (snd (CarrotAsyncServer_RegisterService S s closure))"
| event: "server_reachable M P S \<Longrightarrow> enabled ev S \<Longrightarrow> run_event M P ev S = Inr (S', thrown) \<Longrightarrow>
    server_reachable M P S'"

inductive_cases server_reachableE: "server_reachable M P S"

subsection \<open>What a handler does to its connection\<close>

text \<open>
  Every handler stores its connection back, possibly with a new operation pending, or
  destroys it. \<open>settled\<close> says so; the invariant of the server follows from it.
\<close>

definition settled :: "nat \<Rightarrow> rconn \<Rightarrow> 'm aserver \<Rightarrow> 'm aserver \<Rightarrow> bool" where
  "settled c k S S' \<longleftrightarrow>
     (\<exists>k'. wf_pbuf (rc_buf k') \<and> rc_server k' = rc_server k \<and> rc_open k' = rc_open k \<and>
        (S' = put_conn c k' S \<and> (rc_pending k' = NoOp \<or> (\<exists>bs. rc_pending k' = WriteResponse bs)) \<or>
         S' = conn_destroy c k' S \<and> rc_pending k' = NoOp))"

lemma settled_put:
  "wf_pbuf (rc_buf k') \<Longrightarrow> rc_server k' = rc_server k \<Longrightarrow> rc_open k' = rc_open k \<Longrightarrow>
   rc_pending k' = NoOp \<or> (\<exists>bs. rc_pending k' = WriteResponse bs) \<Longrightarrow>
   settled c k S (put_conn c k' S)"
  by (auto simp: settled_def)

lemma settled_destroy:
  "wf_pbuf (rc_buf k') \<Longrightarrow> rc_server k' = rc_server k \<Longrightarrow> rc_open k' = rc_open k \<Longrightarrow>
   rc_pending k' = NoOp \<Longrightarrow> settled c k S (conn_destroy c k' S)"
  by (auto simp: settled_def)

lemma respond_to_client_settled:
  assumes "respond_to_client M P resp rr c k S = Inr (S', thrown)"
    and "wf_pbuf (rc_buf k)" and "rc_pending k = NoOp"
  shows "settled c k S S'"
proof -
  obtain m where m: "resp = Some m"
    using assms(1) by (cases resp) (auto simp: respond_to_client_def)
  obtain r b where e: "expand_packet M (rc_buf k) (rc_n k) = Inr (r, b)"
    using assms(1) m
    by (cases "expand_packet M (rc_buf k) (rc_n k)") (auto simp: respond_to_client_def)
  have b: "wf_pbuf b" by (rule expand_packet_preserves_wf [OF assms(2) e])
  have put: "settled c k S (put_conn c (k\<lparr>rc_buf := b\<lparr>buf_p := Some blk'\<rparr>, rc_pending := WriteResponse out\<rparr>) S)"
    and destroy: "settled c k S (conn_destroy c (k\<lparr>rc_buf := b\<lparr>buf_p := Some blk'\<rparr>\<rparr>) S)"
    if "buf_p b = Some blk" "length blk' = length blk" for blk blk' out
    using wf_pbuf_store [OF b that] assms(3)
    by (auto intro!: settled_put settled_destroy)
  show ?thesis
  proof (cases "r = -1")
    case True
    then have "S' = put_conn c (k\<lparr>rc_buf := b\<rparr>) S"
      using assms(1) m e by (simp add: respond_to_client_def)
    with b assms(3) show ?thesis by (auto intro!: settled_put)
  next
    case False
    obtain api msg where m': "resp = Some (api, msg)" using m by (cases m) auto
    obtain blk where blk: "buf_p b = Some blk"
      using assms(1) m' e False by (cases "buf_p b") (simp_all add: respond_to_client_def)
    define body where "body = (case rr of None \<Rightarrow> Some []
      | Some r \<Rightarrow> SerializeToArray (proto_response P) r (ByteSize (proto_response P) r))"
    define rpc_len where "rpc_len = (case rr of None \<Rightarrow> 0 | Some r \<Rightarrow> ByteSize (proto_response P) r)"
    have body: "(case rr of None \<Rightarrow> Some [] | Some r \<Rightarrow> SerializeToArray (proto_response P) r rpc_len) = body"
      by (simp add: body_def rpc_len_def split: option.splits)
    obtain blk1 where h: "store_header M (htonl M (of_nat rpc_len)) (htonl M 0)
        (htonl M (of_nat (ByteSize api msg))) blk = Inr blk1"
      using assms(1) e False blk unfolding m' respond_to_client_def rpc_len_def [symmetric]
      by (auto simp: Let_def and_then_eq_Inr_iff)
    note l1 = store_header_length [OF h]
    show ?thesis
    proof (cases body)
      case None
      then have "S' = conn_destroy c (k\<lparr>rc_buf := b\<lparr>buf_p := Some blk1\<rparr>\<rparr>) S"
        using assms(1) e False blk h body unfolding m' respond_to_client_def rpc_len_def [symmetric]
        by (simp add: Let_def)
      with destroy [OF blk l1] show ?thesis by simp
    next
      case (Some bs1)
      obtain blk2 where s: "store_at off_data bs1 blk1 = Inr blk2"
        using assms(1) e False blk h body Some
        unfolding m' respond_to_client_def rpc_len_def [symmetric]
        by (auto simp: Let_def and_then_eq_Inr_iff simp del: packet_layout)
      have l2: "length blk2 = length blk" using store_at_length [OF s] l1 by simp
      show ?thesis
      proof (cases "SerializeToArray api msg (ByteSize api msg)")
        case None
        then have "S' = conn_destroy c (k\<lparr>rc_buf := b\<lparr>buf_p := Some blk2\<rparr>\<rparr>) S"
          using assms(1) e False blk h body Some s
          unfolding m' respond_to_client_def rpc_len_def [symmetric]
          by (simp add: Let_def del: packet_layout)
        with destroy [OF blk l2] show ?thesis by simp
      next
        case (Some bs2)
        then obtain blk3 out where s3: "store_at (off_data + rpc_len) bs2 blk2 = Inr blk3"
          and S': "S' = put_conn c (k\<lparr>rc_buf := b\<lparr>buf_p := Some blk3\<rparr>, rc_pending := WriteResponse out\<rparr>) S"
          using assms(1) e False blk h body \<open>body = Some bs1\<close> s
          unfolding m' respond_to_client_def rpc_len_def [symmetric]
          by (auto simp: Let_def and_then_eq_Inr_iff simp del: packet_layout)
        have "length blk3 = length blk" using store_at_length [OF s3] l2 by simp
        from put [OF blk this] S' show ?thesis by simp
      qed
    qed
  qed
qed

lemma answer_request_settled:
  assumes "answer_request M P blk rpc_len rpc_req c k S = Inr (S', thrown)"
    and "wf_pbuf (rc_buf k)" and "rc_pending k = NoOp"
  shows "settled c k S S'"
proof -
  note settle = respond_to_client_settled [OF _ assms(2,3)]
  from assms(1) consider (respond) resp rr where "respond_to_client M P resp rr c k S = Inr (S', thrown)"
    | (destroyed) "S' = conn_destroy c k S"
    by (auto simp: answer_request_def and_then_eq_Inr_iff case_prod_beta
        split: if_splits dispatch.splits option.splits)
  then show ?thesis
    by cases (use settle assms(2,3) in \<open>auto intro: settled_destroy\<close>)
qed

lemma handle_read_payload_settled:
  assumes "handle_read_payload M P error c k S = Inr (S', thrown)"
    and "wf_pbuf (rc_buf k)" and "rc_pending k = NoOp"
  shows "settled c k S S'"
proof -
  note settle = answer_request_settled [OF _ assms(2,3)]
  from assms(1) consider (answer) blk rpc_len rpc_req
      where "answer_request M P blk rpc_len rpc_req c k S = Inr (S', thrown)"
    | (destroyed) "S' = conn_destroy c k S"
    by (auto simp: handle_read_payload_def and_then_eq_Inr_iff split: option.splits)
  then show ?thesis
    by cases (use settle assms(2,3) in \<open>auto intro: settled_destroy\<close>)
qed

subsection \<open>The invariant\<close>

text \<open>
  A connection's buffer is well formed; a pending read has the room it needs, and while a
  payload is read the header in front of it is the one \<open>n_\<close> was computed from.
\<close>

definition conn_inv :: "machine \<Rightarrow> rconn \<Rightarrow> bool" where
  "conn_inv M k \<longleftrightarrow> wf_pbuf (rc_buf k) \<and> rc_server k \<and> (rc_pending k \<noteq> NoOp \<longrightarrow> rc_open k) \<and>
     (case rc_pending k of
        ReadHeader \<Rightarrow> (\<exists>blk. buf_p (rc_buf k) = Some blk \<and> 12 \<le> length blk)
      | ReadPayload m \<Rightarrow> m = payload_size (rc_n k) \<and>
          (\<exists>x y z rest. buf_p (rc_buf k) = Some (host_header M x y z @ rest) \<and>
             rc_n k = announced x y z \<and> unat (rc_n k) \<le> 12 + length rest)
      | _ \<Rightarrow> True)"

text \<open>
  \<open>conns_\<close> maps pointers to themselves and holds every connection with an operation pending
  and the one being accepted; addresses not yet allocated are unused.
\<close>

definition server_inv :: "machine \<Rightarrow> 'm aserver \<Rightarrow> bool" where
  "server_inv M S \<longleftrightarrow>
     (\<forall>c k. as_objs S c = Some k \<longrightarrow>
        conn_inv M k \<and> c < as_next S \<and> (rc_pending k \<noteq> NoOp \<longrightarrow> as_conns S c = Some c)) \<and>
     (\<forall>c d. as_conns S c = Some d \<longrightarrow> d = c \<and> as_objs S c \<noteq> None) \<and>
     (\<forall>c. as_accepting S = Some c \<longrightarrow>
        (\<exists>k. as_objs S c = Some k \<and> rc_pending k = NoOp) \<and> as_conns S c = Some c)"

lemma server_invD:
  assumes "server_inv M S"
  shows "as_objs S c = Some k \<Longrightarrow> conn_inv M k"
    and "as_objs S c = Some k \<Longrightarrow> c < as_next S"
    and "as_objs S c = Some k \<Longrightarrow> rc_pending k \<noteq> NoOp \<Longrightarrow> as_conns S c = Some c"
    and "as_conns S c = Some d \<Longrightarrow> d = c"
    and "as_conns S c = Some d \<Longrightarrow> as_objs S c \<noteq> None"
    and "as_accepting S = Some c \<Longrightarrow> \<exists>k. as_objs S c = Some k \<and> rc_pending k = NoOp"
    and "as_accepting S = Some c \<Longrightarrow> as_conns S c = Some c"
  using assms unfolding server_inv_def by blast+

text \<open>A step that stores back an existing connection which was not being accepted.\<close>

lemma server_inv_put:
  assumes "server_inv M S" and "as_objs S c \<noteq> None" and "conn_inv M k'"
    and "as_accepting S \<noteq> Some c \<or> rc_pending k' = NoOp"
    and "rc_pending k' \<noteq> NoOp \<Longrightarrow> as_conns S c = Some c"
  shows "server_inv M (put_conn c k' S)"
  unfolding server_inv_def put_conn_def
proof (intro conjI allI impI)
  have lt: "c < as_next S" using assms(2) server_invD(2) [OF assms(1)] by auto
  fix c' k
  assume "as_objs (S\<lparr>as_objs := (as_objs S)(c \<mapsto> k')\<rparr>) c' = Some k"
  then show "conn_inv M k" "c' < as_next (S\<lparr>as_objs := (as_objs S)(c \<mapsto> k')\<rparr>)"
    "rc_pending k \<noteq> NoOp \<Longrightarrow> as_conns (S\<lparr>as_objs := (as_objs S)(c \<mapsto> k')\<rparr>) c' = Some c'"
    using assms(3,5) lt server_invD(1-3) [OF assms(1), of c' k]
    by (simp_all split: if_splits)
qed (use assms(4) server_invD(4-7) [OF assms(1)] in \<open>simp_all, blast?\<close>)

lemma server_inv_destroy:
  assumes "server_inv M S" and "as_objs S c \<noteq> None" and "as_accepting S \<noteq> Some c"
    and "wf_pbuf (rc_buf k)" and "rc_server k" and "rc_pending k = NoOp"
  shows "server_inv M (conn_destroy c k S)"
proof -
  have ci: "conn_inv M k" "conn_inv M (k\<lparr>rc_open := False\<rparr>)"
    using assms(4-6) by (simp_all add: conn_inv_def)
  have "server_inv M (put_conn c k' (S\<lparr>as_conns := (as_conns S)(c := None)\<rparr>))"
    if "conn_inv M k'" "rc_pending k' = NoOp" for k'
    using assms(1-3) that server_invD(2) [OF assms(1)]
    unfolding server_inv_def put_conn_def by auto
  with ci assms(5,6) show ?thesis by (simp add: conn_destroy_def Let_def)
qed

lemma server_inv_settled:
  assumes "server_inv M S" and "settled c k S S'" and "as_objs S c \<noteq> None"
    and "as_accepting S \<noteq> Some c" and "rc_server k" and "rc_open k" and "as_conns S c = Some c"
  shows "server_inv M S'"
proof -
  from assms(2) obtain k' where k': "wf_pbuf (rc_buf k')" "rc_server k'" "rc_open k'"
    and S': "S' = put_conn c k' S \<and> (rc_pending k' = NoOp \<or> (\<exists>bs. rc_pending k' = WriteResponse bs))
      \<or> S' = conn_destroy c k' S \<and> rc_pending k' = NoOp"
    using assms(5,6) unfolding settled_def by metis
  from S' show ?thesis
  proof
    assume p: "S' = put_conn c k' S \<and> (rc_pending k' = NoOp \<or> (\<exists>bs. rc_pending k' = WriteResponse bs))"
    then have "conn_inv M k'" using k' by (auto simp: conn_inv_def)
    with p show ?thesis
      using server_inv_put [OF assms(1,3) _ _ assms(7)] assms(4) by blast
  next
    assume "S' = conn_destroy c k' S \<and> rc_pending k' = NoOp"
    with server_inv_destroy [OF assms(1,3,4) k'(1,2)] show ?thesis by blast
  qed
qed

lemma serve_inv:
  assumes "serve M c k S = Inr (S', thrown)" and "server_inv M S" and "as_objs S c \<noteq> None"
    and "as_accepting S \<noteq> Some c" and "conn_inv M k" and "rc_pending k = NoOp" and "rc_open k"
    and "as_conns S c = Some c"
  shows "server_inv M S' \<and> as_accepting S' = as_accepting S \<and> as_next S' = as_next S"
proof -
  obtain r b where e: "expand_packet M (rc_buf k) (of_nat sizeof_packet) = Inr (r, b)"
    using assms(1) by (cases "expand_packet M (rc_buf k) (of_nat sizeof_packet)")
      (auto simp: serve_def)
  have wf: "wf_pbuf (rc_buf k)" and sv: "rc_server k" using assms(5) by (auto simp: conn_inv_def)
  have b: "wf_pbuf b" by (rule expand_packet_preserves_wf [OF wf e])
  show ?thesis
  proof (cases "r = -1")
    case True
    then have "S' = put_conn c (k\<lparr>rc_buf := b\<rparr>) S"
      using assms(1) e by (simp add: serve_def)
    with server_inv_put [OF assms(2,3), of "k\<lparr>rc_buf := b\<rparr>"] b sv assms(6) show ?thesis
      by (simp add: conn_inv_def put_conn_def)
  next
    case False
    with expand_packet_result [OF e] e have e0: "expand_packet M (rc_buf k) (of_nat sizeof_packet)
        = Inr (0, b)" by auto
    from expand_packet_ok [OF wf e0] obtain blk where "buf_p b = Some blk" "12 \<le> length blk"
      by auto
    then have "conn_inv M (k\<lparr>rc_buf := b, rc_pending := ReadHeader\<rparr>)"
      using b sv assms(7) by (simp add: conn_inv_def)
    moreover have "S' = put_conn c (k\<lparr>rc_buf := b, rc_pending := ReadHeader\<rparr>) S"
      using assms(1) e False by (simp add: serve_def Let_def)
    ultimately show ?thesis
      using server_inv_put [OF assms(2,3), of "k\<lparr>rc_buf := b, rc_pending := ReadHeader\<rparr>"]
        assms(4,8)
      by (simp add: put_conn_def)
  qed
qed

lemma start_accept_inv:
  assumes "server_inv M S" shows "server_inv M (start_accept M S)"
proof -
  have new: "conn_inv M (RpcServerConnection_new M)" "rc_pending (RpcServerConnection_new M) = NoOp"
    by (simp_all add: conn_inv_def RpcServerConnection_new_def)
  have unused: "as_objs S (as_next S) = None" "as_conns S (as_next S) = None"
    using server_invD(2,5) [OF assms] by (cases "as_objs S (as_next S)"; fastforce)+
  have "c < as_next S" if "as_objs S c = Some k" for c k
    using server_invD(2) [OF assms that] .
  then show ?thesis
    using assms new unused
    unfolding server_inv_def start_accept_def put_conn_def map_insert_def Let_def
    by (auto split: if_splits) (metis less_Suc_eq)+
qed

subsection \<open>Reading a header\<close>

text \<open>
  With twelve bytes in the buffer the handler reads the three lengths in host order and, when
  their sum is at most \<open>2 ^ 31\<close>, either waits for a payload it has the room for or reports
  that the allocator failed.
\<close>

lemma handle_read_header_ok:
  assumes "buf_p (rc_buf k) = Some (wire_header x y z @ rest)" and "wf_pbuf (rc_buf k)"
  shows "handle_read_header M None c k S =
    (let k1 = k\<lparr>rc_buf := (rc_buf k)\<lparr>buf_p := Some (host_header M x y z @ rest)\<rparr>,
                rc_n := announced x y z\<rparr>
     in and_then (expand_packet M (rc_buf k1) (announced x y z)) (\<lambda>(r, b).
          let k2 = k1\<lparr>rc_buf := b\<rparr> in
          if r = -1 then Inr (put_conn c k2 S, Some BadAlloc)
          else Inr (put_conn c
            (k2\<lparr>rc_pending := ReadPayload (payload_size (announced x y z))\<rparr>) S, None)))"
  using assms by (simp add: handle_read_header_def convert_to_host Let_def)

lemma handle_read_header_inv:
  assumes "handle_read_header M error c k S = Inr (S', thrown)" and "server_inv M S"
    and "as_objs S c \<noteq> None" and "as_accepting S \<noteq> Some c" and "as_conns S c = Some c"
    and "wf_pbuf (rc_buf k)" and "rc_server k" and "rc_open k" and "rc_pending k = NoOp"
    and "error = None \<Longrightarrow> \<exists>blk. buf_p (rc_buf k) = Some blk \<and> 12 \<le> length blk"
  shows "server_inv M S'"
proof (cases error)
  case (Some e)
  then have "S' = conn_destroy c k S" using assms(1) by (simp add: handle_read_header_def)
  with server_inv_destroy [OF assms(2-4,6,7,9)] show ?thesis by simp
next
  case None
  obtain x y z rest where blk: "buf_p (rc_buf k) = Some (wire_header x y z @ rest)"
    using assms(10) [OF None] block_wire_header by metis
  define b1 where "b1 = (rc_buf k)\<lparr>buf_p := Some (host_header M x y z @ rest)\<rparr>"
  have wf1: "wf_pbuf b1"
    unfolding b1_def by (rule wf_pbuf_store [OF assms(6) blk]) simp
  define k1 where "k1 = k\<lparr>rc_buf := b1, rc_n := announced x y z\<rparr>"
  note h = assms(1) [unfolded None handle_read_header_ok [OF blk assms(6)] Let_def,
      folded b1_def]
  obtain r b where e: "expand_packet M b1 (announced x y z) = Inr (r, b)"
    using h by (cases "expand_packet M b1 (announced x y z)") auto
  have wf: "wf_pbuf b" by (rule expand_packet_preserves_wf [OF wf1 e])
  show ?thesis
  proof (cases "r = -1")
    case True
    then have "S' = put_conn c (k1\<lparr>rc_buf := b\<rparr>) S" using h e by (simp add: k1_def)
    moreover have "conn_inv M (k1\<lparr>rc_buf := b\<rparr>)"
      using wf assms(7,9) by (simp add: conn_inv_def k1_def)
    ultimately show ?thesis
      using server_inv_put [OF assms(2,3)] assms(5,9) by (simp add: k1_def)
  next
    case False
    with expand_packet_result [OF e] e have e0: "expand_packet M b1 (announced x y z) = Inr (0, b)"
      by auto
    have "buf_p b1 = Some (host_header M x y z @ rest)" by (simp add: b1_def)
    from expand_packet_keeps_header [OF wf1 this e0] obtain rest' where
      "buf_p b = Some (host_header M x y z @ rest')" "unat (announced x y z) \<le> 12 + length rest'"
      by auto
    then have "conn_inv M (k1\<lparr>rc_buf := b, rc_pending := ReadPayload (payload_size (announced x y z))\<rparr>)"
      using wf assms(7,8) by (auto simp: conn_inv_def k1_def)
    moreover have "S' = put_conn c
        (k1\<lparr>rc_buf := b, rc_pending := ReadPayload (payload_size (announced x y z))\<rparr>) S"
      using h e False by (simp add: k1_def)
    ultimately show ?thesis
      using server_inv_put [OF assms(2,3)] assms(4,5) by simp
  qed
qed

lemma asio_store_props:
  assumes "asio_store off bs k = Inr k'" and "wf_pbuf (rc_buf k)"
  shows "wf_pbuf (rc_buf k')" and "rc_server k' = rc_server k" and "rc_open k' = rc_open k"
    and "rc_pending k' = NoOp" and "rc_n k' = rc_n k"
    and "\<exists>blk blk'. buf_p (rc_buf k) = Some blk \<and> buf_p (rc_buf k') = Some blk' \<and>
      store_at off bs blk = Inr blk' \<and> length blk' = length blk"
proof -
  from assms(1) obtain blk blk' where *: "buf_p (rc_buf k) = Some blk" "store_at off bs blk = Inr blk'"
    "k' = k\<lparr>rc_buf := (rc_buf k)\<lparr>buf_p := Some blk'\<rparr>, rc_pending := NoOp\<rparr>"
    by (auto simp: asio_store_def and_then_eq_Inr_iff deref_eq_iff)
  note len = store_at_length [OF *(2)]
  show "wf_pbuf (rc_buf k')" using wf_pbuf_store [OF assms(2) *(1) len] *(3) by simp
  show "rc_server k' = rc_server k" "rc_open k' = rc_open k" "rc_pending k' = NoOp"
    "rc_n k' = rc_n k" using *(3) by simp_all
  show "\<exists>blk blk'. buf_p (rc_buf k) = Some blk \<and> buf_p (rc_buf k') = Some blk' \<and>
      store_at off bs blk = Inr blk' \<and> length blk' = length blk"
    using * len by simp
qed

subsection \<open>Every event preserves the invariant\<close>

lemma handle_accept_inv:
  assumes "handle_accept M error c k S = Inr (S', thrown)" and "server_inv M S"
    and "as_objs S c \<noteq> None" and "as_accepting S = None" and "conn_inv M k"
    and "rc_pending k = NoOp" and "error = None \<Longrightarrow> rc_open k \<and> as_conns S c = Some c"
  shows "server_inv M S'"
proof (cases error)
  case (Some e)
  with assms(1) have "S' = start_accept M S" by (simp add: handle_accept_def)
  with start_accept_inv [OF assms(2)] show ?thesis by simp
next
  case None
  with assms(1) obtain S1 t where s: "serve M c k S = Inr (S1, t)"
    and S': "S' = (if t = None then start_accept M S1 else S1)"
    by (auto simp: handle_accept_def and_then_eq_Inr_iff split: if_splits)
  have "server_inv M S1"
    using serve_inv [OF s assms(2,3) _ assms(5,6)] assms(4,7) None by simp
  then show ?thesis unfolding S' by (simp add: start_accept_inv)
qed

lemma conn_inv_open: "conn_inv M k \<Longrightarrow> rc_pending k \<noteq> NoOp \<Longrightarrow> rc_open k"
  by (simp add: conn_inv_def)

lemma conn_inv_basic: "conn_inv M k \<Longrightarrow> wf_pbuf (rc_buf k)" "conn_inv M k \<Longrightarrow> rc_server k"
  by (simp_all add: conn_inv_def)

lemma pending_not_accepting:
  assumes "server_inv M S" and "as_objs S c = Some k" and "rc_pending k \<noteq> NoOp"
  shows "as_accepting S \<noteq> Some c"
  using server_invD(6) [OF assms(1), of c] assms(2,3) by auto

lemma server_inv_no_accept: "server_inv M S \<Longrightarrow> server_inv M (S\<lparr>as_accepting := None\<rparr>)"
  by (simp add: server_inv_def)

lemma run_accepted_inv:
  assumes "run_event M P Accepted S = Inr (S', thrown)" and "server_inv M S"
  shows "server_inv M S'"
proof -
  obtain c k where c: "as_accepting S = Some c" and k: "as_objs S c = Some k"
    and h: "handle_accept M None c (k\<lparr>rc_open := True\<rparr>)
      (put_conn c (k\<lparr>rc_open := True\<rparr>) (S\<lparr>as_accepting := None\<rparr>)) = Inr (S', thrown)"
    using assms(1) by (auto simp: and_then_eq_Inr_iff deref_eq_iff Let_def)
  have p: "rc_pending k = NoOp" using server_invD(6) [OF assms(2) c] k by auto
  have ci: "conn_inv M (k\<lparr>rc_open := True\<rparr>)"
    using server_invD(1) [OF assms(2) k] p by (simp add: conn_inv_def)
  have "server_inv M (put_conn c (k\<lparr>rc_open := True\<rparr>) (S\<lparr>as_accepting := None\<rparr>))"
    by (rule server_inv_put [OF server_inv_no_accept [OF assms(2)] _ ci]) (simp_all add: k p)
  from handle_accept_inv [OF h this _ _ ci] show ?thesis
    using p server_invD(7) [OF assms(2) c] by (simp add: put_conn_def)
qed

lemma run_accept_failed_inv:
  assumes "run_event M P (AcceptFailed e) S = Inr (S', thrown)" and "server_inv M S"
  shows "server_inv M S'"
proof -
  obtain c k where "as_accepting S = Some c" "as_objs S c = Some k"
    and h: "handle_accept M (Some e) c k (S\<lparr>as_accepting := None\<rparr>) = Inr (S', thrown)"
    using assms(1) by (auto simp: and_then_eq_Inr_iff deref_eq_iff)
  with server_invD(1,6) [OF assms(2)] show ?thesis
    using handle_accept_inv [OF h server_inv_no_accept [OF assms(2)]] by auto
qed

lemma run_header_read_inv:
  assumes "run_event M P (HeaderRead c bs) S = Inr (S', thrown)" and "server_inv M S"
    and "enabled (HeaderRead c bs) S"
  shows "server_inv M S'"
proof -
  obtain k where k: "as_objs S c = Some k" "rc_pending k = ReadHeader" "length bs = 12"
    using assms(3) by (auto split: option.splits)
  obtain k1 where k1: "asio_store 0 bs k = Inr k1"
    and h: "handle_read_header M None c k1 S = Inr (S', thrown)"
    using assms(1) k(1) by (auto simp: and_then_eq_Inr_iff)
  have ci: "conn_inv M k" using server_invD(1) [OF assms(2) k(1)] .
  note pr = asio_store_props [OF k1 conn_inv_basic(1) [OF ci]]
  have "\<exists>blk. buf_p (rc_buf k1) = Some blk \<and> 12 \<le> length blk"
    using pr(6) k(3) by (auto simp: store_at_def split: if_splits)
  then show ?thesis
    using handle_read_header_inv [OF h assms(2)] pr k conn_inv_basic(2) [OF ci]
      conn_inv_open [OF ci] pending_not_accepting [OF assms(2) k(1)]
      server_invD(3) [OF assms(2) k(1)]
    by simp
qed

lemma handle_read_payload_inv:
  assumes "handle_read_payload M P error c k S = Inr (S', thrown)" and "server_inv M S"
    and "as_objs S c \<noteq> None" and "as_accepting S \<noteq> Some c" and "as_conns S c = Some c"
    and "wf_pbuf (rc_buf k)" and "rc_server k" and "rc_open k" and "rc_pending k = NoOp"
  shows "server_inv M S'"
  by (rule server_inv_settled [OF assms(2) handle_read_payload_settled [OF assms(1,6,9)]
        assms(3,4,7,8,5)])

lemma run_payload_read_inv:
  assumes "run_event M P (PayloadRead c bs) S = Inr (S', thrown)" and "server_inv M S"
    and "enabled (PayloadRead c bs) S"
  shows "server_inv M S'"
proof -
  obtain k n where k: "as_objs S c = Some k" "rc_pending k = ReadPayload n"
    using assms(3) by (auto split: option.splits)
  obtain k1 where k1: "asio_store off_data bs k = Inr k1"
    and h: "handle_read_payload M P None c k1 S = Inr (S', thrown)"
    using assms(1) k(1) by (auto simp: and_then_eq_Inr_iff)
  have ci: "conn_inv M k" using server_invD(1) [OF assms(2) k(1)] .
  note pr = asio_store_props [OF k1 conn_inv_basic(1) [OF ci]]
  show ?thesis
    using handle_read_payload_inv [OF h assms(2)] pr k conn_inv_basic(2) [OF ci]
      conn_inv_open [OF ci] pending_not_accepting [OF assms(2) k(1)]
      server_invD(3) [OF assms(2) k(1)]
    by simp
qed

lemma run_read_failed_inv:
  assumes "run_event M P (ReadFailed c bs e) S = Inr (S', thrown)" and "server_inv M S"
    and "enabled (ReadFailed c bs e) S"
  shows "server_inv M S'"
proof -
  obtain k where k: "as_objs S c = Some k" "rc_pending k \<noteq> NoOp"
    using assms(3) by (auto split: option.splits pending.splits)
  obtain k1 where k1: "asio_store (read_offset (rc_pending k)) bs k = Inr k1"
    and h: "(if rc_pending k = ReadHeader then handle_read_header M (Some e) c k1 S
       else handle_read_payload M P (Some e) c k1 S) = Inr (S', thrown)"
    using assms(1) k(1) by (auto simp: and_then_eq_Inr_iff)
  then have S': "S' = conn_destroy c k1 S"
    by (simp add: handle_read_header_def handle_read_payload_def split: if_splits)
  have ci: "conn_inv M k" using server_invD(1) [OF assms(2) k(1)] .
  note pr = asio_store_props [OF k1 conn_inv_basic(1) [OF ci]]
  show ?thesis
    unfolding S' using pr k conn_inv_basic(2) [OF ci] pending_not_accepting [OF assms(2) k]
    by (intro server_inv_destroy [OF assms(2)]) simp_all
qed

lemma run_written_inv:
  assumes "run_event M P (Written c) S = Inr (S', thrown)" and "server_inv M S"
    and "enabled (Written c) S"
  shows "server_inv M S'"
proof -
  obtain k bs where k: "as_objs S c = Some k" "rc_pending k = WriteResponse bs"
    using assms(3) by (auto split: option.splits pending.splits)
  have ci: "conn_inv M k" using server_invD(1) [OF assms(2) k(1)] .
  then have ci': "conn_inv M (k\<lparr>rc_pending := NoOp\<rparr>)" by (simp add: conn_inv_def)
  have "serve M c (k\<lparr>rc_pending := NoOp\<rparr>) S = Inr (S', thrown)"
    using assms(1) k(1) by (simp add: handle_write_response_def)
  from serve_inv [OF this assms(2) _ _ ci'] show ?thesis
    using k conn_inv_open [OF ci] pending_not_accepting [OF assms(2) k(1)]
      server_invD(3) [OF assms(2) k(1)]
    by simp
qed

lemma run_write_failed_inv:
  assumes "run_event M P (WriteFailed c e) S = Inr (S', thrown)" and "server_inv M S"
    and "enabled (WriteFailed c e) S"
  shows "server_inv M S'"
proof -
  obtain k bs where k: "as_objs S c = Some k" "rc_pending k = WriteResponse bs"
    using assms(3) by (auto split: option.splits pending.splits)
  have ci: "conn_inv M k" using server_invD(1) [OF assms(2) k(1)] .
  have "S' = conn_destroy c (k\<lparr>rc_pending := NoOp\<rparr>) S"
    using assms(1) k(1) by (simp add: handle_write_response_def)
  then show ?thesis
    using k conn_inv_basic [OF ci] pending_not_accepting [OF assms(2) k(1)]
    by (auto intro: server_inv_destroy [OF assms(2)])
qed

lemmas run_event_inv_cases =
  run_accepted_inv run_accept_failed_inv run_header_read_inv run_payload_read_inv
  run_read_failed_inv run_written_inv run_write_failed_inv

lemma run_event_inv:
  assumes "run_event M P ev S = Inr (S', thrown)" and "enabled ev S" and "server_inv M S"
  shows "server_inv M S'"
  using assms by (cases ev) (blast intro: run_event_inv_cases)+

lemma server_inv_new: "server_inv M (CarrotAsyncServer_new M)"
  unfolding CarrotAsyncServer_new_def by (rule start_accept_inv) (simp add: server_inv_def)

lemma server_inv_register:
  "server_inv M S \<Longrightarrow> server_inv M (snd (CarrotAsyncServer_RegisterService S s closure))"
  by (simp add: CarrotAsyncServer_RegisterService_def server_inv_def case_prod_beta)

lemma reachable_inv: "server_reachable M P S \<Longrightarrow> server_inv M S"
  by (induction rule: server_reachable.induct)
    (auto intro: server_inv_new server_inv_register run_event_inv)

end
