(* ===== verification/Message_Wire.thy ===== *)
theory Message_Wire
  imports Message_Codec
begin

section \<open>The generated parsers read back what the generated serialisers write\<close>

text \<open>
  The round trip of rpc.pb.cc: from the documented behaviour of the runtime
  (\<open>wire_format\<close>, \<open>lite_message\<close>), \<open>Request\<close> and \<open>Response\<close> satisfy \<open>message_codec\<close>. The
  parse loops return whatever \<open>ExpectTag\<close> and \<open>ExpectAtEnd\<close> answer. Also here: a
  message that lacks a required field is never accepted by \<open>ParseFromArray\<close>.
\<close>

subsection \<open>One turn of the parse loops\<close>

definition Request_resume ::
  "('is, 'u) pb_lib \<Rightarrow> parse_next \<times> 'is \<times> 'u Request \<Rightarrow> (bool \<times> 'is \<times> 'u Request) option" where
  "Request_resume L r = (case r of (nx, s, m) \<Rightarrow>
     (case nx of
        Success \<Rightarrow> Some (True, s, m)
      | Failure \<Rightarrow> Some (False, s, m)
      | Continue \<Rightarrow> Request_MergePartialFromCodedStream L s m))"

lemma Request_Merge_unfold:
  "Request_MergePartialFromCodedStream L s m = Request_resume L (Request_parse_step L s m)"
  by (subst Request_MergePartialFromCodedStream.simps) (simp add: Request_resume_def)

definition Response_resume ::
  "('is, 'u) pb_lib \<Rightarrow> parse_next \<times> 'is \<times> 'u Response \<Rightarrow> (bool \<times> 'is \<times> 'u Response) option" where
  "Response_resume L r = (case r of (nx, s, m) \<Rightarrow>
     (case nx of
        Success \<Rightarrow> Some (True, s, m)
      | Failure \<Rightarrow> Some (False, s, m)
      | Continue \<Rightarrow> Response_MergePartialFromCodedStream L s m))"

lemma Response_Merge_unfold:
  "Response_MergePartialFromCodedStream L s m = Response_resume L (Response_parse_step L s m)"
  by (subst Response_MergePartialFromCodedStream.simps) (simp add: Response_resume_def)

text \<open>\<open>r\<close> ends in success with message \<open>m\<close> at a stream that is entirely consumed.\<close>

definition ends_with ::
  "('is \<Rightarrow> bool) \<Rightarrow> (bool \<times> 'is \<times> 'm) option \<Rightarrow> 'm \<Rightarrow> bool" where
  "ends_with consumed r m \<longleftrightarrow> (\<exists>s. r = Some (True, s, m) \<and> consumed s)"

subsection \<open>Request\<close>

context wire_format
begin

lemma Request_merge_end:
  assumes "rest s = []"
  shows "ends_with consumed (Request_MergePartialFromCodedStream L s m) m"
  using read_tag_end [OF assms]
  by (auto simp: ends_with_def Request_Merge_unfold Request_parse_step_def
      Request_handle_unusual_def Request_resume_def)

lemma Request_resume_method_identity:
  assumes "rest s = enc_str x" and "str_ok x"
  shows "ends_with consumed (Request_resume L (Request_parse_method_identity L s m))
    (Request_set_method_identity x m)"
proof -
  obtain s1 where s1: "ReadString L s = Some (x, s1)" "rest s1 = []"
    using read_str [of s x "[]"] assms by auto
  have set: "Request_set_method_identity x m =
      (Request_set_has_method_identity m)\<lparr>rq_method_identity := x\<rparr>"
    by (simp add: Request_set_method_identity_def)
  show ?thesis
  proof (cases "ExpectAtEnd L s1")
    case (Pair b s2)
    show ?thesis
    proof (cases b)
      case True
      with Pair expect_at_end [of s1 s2] s1 show ?thesis
        by (simp add: Request_parse_method_identity_def Request_resume_def ends_with_def set)
    next
      case False
      with Pair expect_at_end_not [of s1 s2] s1 have "rest s2 = []" by simp
      with Pair False s1 Request_merge_end [of s2] show ?thesis
        by (simp add: Request_parse_method_identity_def Request_resume_def set)
    qed
  qed
qed

lemma Request_merge_method_identity:
  assumes "rest s = 18 # enc_str x" and "str_ok x"
  shows "ends_with consumed (Request_MergePartialFromCodedStream L s m)
    (Request_set_method_identity x m)"
proof -
  obtain s1 where s1: "ReadTagWithCutoff L 127 s = ((18, True), s1)" "rest s1 = enc_str x"
    using read_known_tag [OF assms(1)] by (auto simp: unsigned_ucast_eq)
  then show ?thesis
    using Request_resume_method_identity [OF s1(2) assms(2), of m]
    by (simp add: Request_Merge_unfold Request_parse_step_def tags)
qed

lemma Request_merge_id:
  assumes "rest s = 8 # enc_u64 v @ r"
    and next_field: "\<And>s' m'. rest s' = r \<Longrightarrow>
      ends_with consumed (Request_MergePartialFromCodedStream L s' m') (f m')"
    and expected: "\<And>s' m'. r = 18 # rest s' \<Longrightarrow>
      ends_with consumed (Request_resume L (Request_parse_method_identity L s' m')) (f m')"
  shows "ends_with consumed (Request_MergePartialFromCodedStream L s m) (f (Request_set_id v m))"
proof -
  obtain s1 where s1: "ReadTagWithCutoff L 127 s = ((8, True), s1)" "rest s1 = enc_u64 v @ r"
    using read_known_tag [OF assms(1)] by (auto simp: unsigned_ucast_eq)
  obtain s2 where s2: "ReadUInt64 L s1 = Some (v, s2)" "rest s2 = r"
    using read_u64 [OF s1(2)] by auto
  have set: "Request_set_has_id (m\<lparr>rq_id := v\<rparr>) = Request_set_id v m"
    by (simp add: Request_set_id_def Request_set_has_id_def)
  have e: "ExpectTag L 18 s2 = ExpectTag L (ucast (18 :: byte)) s2" by simp
  show ?thesis
  proof (rule expect_known_tag [OF s2(2), of 18])
    fix s3
    assume t: "ExpectTag L (ucast (18 :: byte)) s2 = (True, s3)" "r = 18 # rest s3"
    show ?thesis
      using expected [OF t(2)] s1(1) s2(1) t(1)
      by (simp add: Request_Merge_unfold Request_parse_step_def tags set flip: e)
  next
    fix s3
    assume t: "ExpectTag L (ucast (18 :: byte)) s2 = (False, s3)" "rest s3 = r"
    show ?thesis
      using next_field [OF t(2)] s1(1) s2(1) t(1)
      by (subst Request_Merge_unfold)
        (simp add: Request_resume_def Request_parse_step_def tags set flip: e)
  qed simp
qed

lemma Request_merge_serialized:
  assumes "Request_canonical L m" and "str_ok (rq_method_identity m)"
  shows "ends_with consumed
    (Request_MergePartialFromCodedStream L
       (open_stream (Request_SerializeWithCachedSizesToArray L m)) (Request_New L)) m"
proof -
  let ?tail = "if Request_has_method_identity m then 18 # enc_str (rq_method_identity m) else []"
  let ?f = "\<lambda>m'. if Request_has_method_identity m
                 then Request_set_method_identity (rq_method_identity m) m' else m'"
  have u: "uf_empty L (rq_unknown m)"
    using Request_canonical_unknown [OF assms(1)] new_empty by simp
  have tail: "ends_with consumed (Request_MergePartialFromCodedStream L s m') (?f m')"
    if "rest s = ?tail" for s m'
    using that Request_merge_end Request_merge_method_identity [OF _ assms(2)]
    by (cases "Request_has_method_identity m") auto
  have jump: "ends_with consumed (Request_resume L (Request_parse_method_identity L s m')) (?f m')"
    if "?tail = 18 # rest s" for s m'
    using that Request_resume_method_identity [OF _ assms(2), of s m']
    by (auto split: if_splits)
  have m: "?f (if Request_has_id m then Request_set_id (rq_id m) (Request_New L)
               else Request_New L) = m"
    using assms(1) by (simp add: Request_canonical_def Let_def)
  show ?thesis
  proof (cases "Request_has_id m")
    case True
    have "rest (open_stream (Request_SerializeWithCachedSizesToArray L m)) =
        8 # enc_u64 (rq_id m) @ ?tail"
      using True u
      by (simp add: rest_open Request_SerializeWithCachedSizesToArray_def
          write_u64 [unfolded One_nat_def] write_str)
    note parsed = Request_merge_id [OF this tail jump, of "Request_New L"]
    have "?f (Request_set_id (rq_id m) (Request_New L)) = m" using m by (simp only: True if_True)
    with parsed show ?thesis by (simp only:)
  next
    case False
    then have "rest (open_stream (Request_SerializeWithCachedSizesToArray L m)) = ?tail"
      using u
      by (simp add: rest_open Request_SerializeWithCachedSizesToArray_def write_str)
    note parsed = tail [OF this, of "Request_New L"]
    have "?f (Request_New L) = m" using m by (simp only: False if_False)
    with parsed show ?thesis by (simp only:)
  qed
qed

lemma Request_serialize_length:
  "length (Request_SerializeWithCachedSizesToArray L m) = Request_ByteSize L m"
  using Request_has_bits_eq_0 [of m]
  by (auto simp: Request_SerializeWithCachedSizesToArray_def Request_ByteSize_def
      write_u64 [unfolded One_nat_def] write_str sizes)

end

definition Request_good ::
  "('is, 'u) pb_lib \<Rightarrow> (string \<Rightarrow> bool) \<Rightarrow> 'u Request \<Rightarrow> bool" where
  "Request_good L str_ok m \<longleftrightarrow>
     Request_IsInitialized m \<and> Request_canonical L m \<and> str_ok (rq_method_identity m)"

locale request_wire =
  wire_format L open_stream rest consumed str_ok enc_u64 enc_enum enc_str +
  lite_message api open_stream consumed "Request_MergePartialFromCodedStream L" "Request_New L"
    Request_IsInitialized "Request_ByteSize L" "Request_SerializeWithCachedSizesToArray L"
  for L :: "('is, 'u) pb_lib" and open_stream rest consumed str_ok enc_u64 enc_enum enc_str
    and api :: "'u Request message_api"
begin

lemma request_parse:
  assumes "Request_canonical L m" and "str_ok (rq_method_identity m)"
    and "SerializeToArray api m n = Some bs"
  shows "ParseFromArray api bs = (if Request_IsInitialized m then Some m else None)"
  using Request_merge_serialized [OF assms(1,2)] parse_serialized [OF _ _ assms(3)]
  by (auto simp: ends_with_def)

end

sublocale request_wire \<subseteq> request: message_codec api "Request_good L str_ok"
proof
  show "length bs = ByteSize api m" if "SerializeToArray api m n = Some bs" for m n bs
    using serialize_is [OF that] by (simp add: Request_serialize_length size)
  show "SerializeToArray api m n \<noteq> None" if "Request_good L str_ok m" "ByteSize api m \<le> n" for m n
    using that serialize_some by (simp add: Request_good_def size)
  show "ParseFromArray api bs = Some m"
    if "Request_good L str_ok m" "SerializeToArray api m n = Some bs" for m n bs
    using that request_parse [of m n bs] by (simp add: Request_good_def)
qed

subsection \<open>Response\<close>

context wire_format
begin

lemma Response_merge_end:
  assumes "rest s = []"
  shows "ends_with consumed (Response_MergePartialFromCodedStream L s m) m"
  using read_tag_end [OF assms]
  by (auto simp: ends_with_def Response_Merge_unfold Response_parse_step_def
      Response_handle_unusual_def Response_resume_def)

lemma Response_resume_message:
  assumes "rest s = enc_str x" and "str_ok x"
  shows "ends_with consumed (Response_resume L (Response_parse_message L s m))
    (Response_set_message x m)"
proof -
  obtain s1 where s1: "ReadString L s = Some (x, s1)" "rest s1 = []"
    using read_str [of s x "[]"] assms by auto
  have set: "Response_set_message x m = (Response_set_has_message m)\<lparr>rs_message := x\<rparr>"
    by (simp add: Response_set_message_def)
  show ?thesis
  proof (cases "ExpectAtEnd L s1")
    case (Pair b s2)
    show ?thesis
    proof (cases b)
      case True
      with Pair expect_at_end [of s1 s2] s1 show ?thesis
        by (simp add: Response_parse_message_def Response_resume_def ends_with_def set)
    next
      case False
      with Pair expect_at_end_not [of s1 s2] s1 have "rest s2 = []" by simp
      with Pair False s1 Response_merge_end [of s2] show ?thesis
        by (simp add: Response_parse_message_def Response_resume_def set)
    qed
  qed
qed

lemma Response_merge_message:
  assumes "rest s = 26 # enc_str x" and "str_ok x"
  shows "ends_with consumed (Response_MergePartialFromCodedStream L s m)
    (Response_set_message x m)"
proof -
  obtain s1 where s1: "ReadTagWithCutoff L 127 s = ((26, True), s1)" "rest s1 = enc_str x"
    using read_known_tag [OF assms(1)] by (auto simp: unsigned_ucast_eq)
  then show ?thesis
    using Response_resume_message [OF s1(2) assms(2), of m]
    by (simp add: Response_Merge_unfold Response_parse_step_def tags)
qed

text \<open>
  A field in front of others: whether the next field is reached through \<open>ExpectTag\<close> or
  through the loop, the message ends up the same.
\<close>

lemma Response_resume_status:
  assumes "rest s = enc_enum (int_of_Status st) @ r"
    and next_field: "\<And>s' m'. rest s' = r \<Longrightarrow>
      ends_with consumed (Response_MergePartialFromCodedStream L s' m') (f m')"
    and expected: "\<And>s' m'. r = 26 # rest s' \<Longrightarrow>
      ends_with consumed (Response_resume L (Response_parse_message L s' m')) (f m')"
  shows "ends_with consumed (Response_resume L (Response_parse_status L s m))
    (f (Response_set_status st m))"
proof -
  obtain s2 where s2: "ReadEnum L s = Some (int_of_Status st, s2)" "rest s2 = r"
    using read_enum [OF assms(1)] by auto
  have e: "ExpectTag L 26 s2 = ExpectTag L (ucast (26 :: byte)) s2" by simp
  show ?thesis
  proof (rule expect_known_tag [OF s2(2), of 26])
    fix s3
    assume t: "ExpectTag L (ucast (26 :: byte)) s2 = (True, s3)" "r = 26 # rest s3"
    show ?thesis
      using expected [OF t(2)] s2(1) t(1)
      by (simp add: Response_parse_status_def flip: e)
  next
    fix s3
    assume t: "ExpectTag L (ucast (26 :: byte)) s2 = (False, s3)" "rest s3 = r"
    show ?thesis
      using next_field [OF t(2)] s2(1) t(1)
      by (simp add: Response_parse_status_def Response_resume_def flip: e)
  qed simp
qed

lemma Response_merge_status:
  assumes "rest s = 16 # enc_enum (int_of_Status st) @ r"
    and "\<And>s' m'. rest s' = r \<Longrightarrow>
      ends_with consumed (Response_MergePartialFromCodedStream L s' m') (f m')"
    and "\<And>s' m'. r = 26 # rest s' \<Longrightarrow>
      ends_with consumed (Response_resume L (Response_parse_message L s' m')) (f m')"
  shows "ends_with consumed (Response_MergePartialFromCodedStream L s m)
    (f (Response_set_status st m))"
proof -
  obtain s1 where s1: "ReadTagWithCutoff L 127 s = ((16, True), s1)"
    "rest s1 = enc_enum (int_of_Status st) @ r"
    using read_known_tag [OF assms(1)] by (auto simp: unsigned_ucast_eq)
  then show ?thesis
    using Response_resume_status [OF s1(2) assms(2,3), of m]
    by (simp add: Response_Merge_unfold Response_parse_step_def tags)
qed

lemma Response_merge_id:
  assumes "rest s = 8 # enc_u64 v @ r"
    and next_field: "\<And>s' m'. rest s' = r \<Longrightarrow>
      ends_with consumed (Response_MergePartialFromCodedStream L s' m') (f m')"
    and expected: "\<And>s' m'. r = 16 # rest s' \<Longrightarrow>
      ends_with consumed (Response_resume L (Response_parse_status L s' m')) (f m')"
  shows "ends_with consumed (Response_MergePartialFromCodedStream L s m) (f (Response_set_id v m))"
proof -
  obtain s1 where s1: "ReadTagWithCutoff L 127 s = ((8, True), s1)" "rest s1 = enc_u64 v @ r"
    using read_known_tag [OF assms(1)] by (auto simp: unsigned_ucast_eq)
  obtain s2 where s2: "ReadUInt64 L s1 = Some (v, s2)" "rest s2 = r"
    using read_u64 [OF s1(2)] by auto
  have set: "Response_set_has_id (m\<lparr>rs_id := v\<rparr>) = Response_set_id v m"
    by (simp add: Response_set_id_def Response_set_has_id_def)
  have e: "ExpectTag L 16 s2 = ExpectTag L (ucast (16 :: byte)) s2" by simp
  show ?thesis
  proof (rule expect_known_tag [OF s2(2), of 16])
    fix s3
    assume t: "ExpectTag L (ucast (16 :: byte)) s2 = (True, s3)" "r = 16 # rest s3"
    show ?thesis
      using expected [OF t(2)] s1(1) s2(1) t(1)
      by (simp add: Response_Merge_unfold Response_parse_step_def tags set flip: e)
  next
    fix s3
    assume t: "ExpectTag L (ucast (16 :: byte)) s2 = (False, s3)" "rest s3 = r"
    show ?thesis
      using next_field [OF t(2)] s1(1) s2(1) t(1)
      by (subst Response_Merge_unfold)
        (simp add: Response_resume_def Response_parse_step_def tags set flip: e)
  qed simp
qed

text \<open>The fields after the id, and the whole message.\<close>

definition message_bytes :: "'u Response \<Rightarrow> byte list" where
  "message_bytes m = (if Response_has_message m then 26 # enc_str (rs_message m) else [])"

definition add_message :: "'u Response \<Rightarrow> 'u Response \<Rightarrow> 'u Response" where
  "add_message m m' = (if Response_has_message m then Response_set_message (rs_message m) m' else m')"

definition status_bytes :: "'u Response \<Rightarrow> byte list" where
  "status_bytes m = (if Response_has_status m
     then 16 # enc_enum (int_of_Status (Response_status m)) @ message_bytes m else message_bytes m)"

definition add_status :: "'u Response \<Rightarrow> 'u Response \<Rightarrow> 'u Response" where
  "add_status m m' = add_message m
     (if Response_has_status m then Response_set_status (Response_status m) m' else m')"

lemma Response_tail_message:
  assumes "str_ok (rs_message m)" and "rest s = message_bytes m"
  shows "ends_with consumed (Response_MergePartialFromCodedStream L s m') (add_message m m')"
  using assms Response_merge_end Response_merge_message
  by (cases "Response_has_message m") (auto simp: message_bytes_def add_message_def)

lemma Response_jump_message:
  assumes "str_ok (rs_message m)" and "message_bytes m = 26 # rest s"
  shows "ends_with consumed (Response_resume L (Response_parse_message L s m')) (add_message m m')"
  using assms Response_resume_message [of s "rs_message m"]
  by (auto simp: message_bytes_def add_message_def split: if_splits)

lemma Response_tail_status:
  assumes "str_ok (rs_message m)" and "rest s = status_bytes m"
  shows "ends_with consumed (Response_MergePartialFromCodedStream L s m') (add_status m m')"
proof (cases "Response_has_status m")
  case True
  then have "rest s = 16 # enc_enum (int_of_Status (Response_status m)) @ message_bytes m"
    using assms(2) by (simp add: status_bytes_def)
  from Response_merge_status [OF this Response_tail_message [OF assms(1)]
      Response_jump_message [OF assms(1)], of m'] True
  show ?thesis by (simp add: add_status_def)
next
  case False
  with Response_tail_message [OF assms(1), of s m'] assms(2) show ?thesis
    by (simp add: status_bytes_def add_status_def)
qed

lemma Response_jump_status:
  assumes "str_ok (rs_message m)" and "status_bytes m = 16 # rest s"
  shows "ends_with consumed (Response_resume L (Response_parse_status L s m')) (add_status m m')"
proof -
  have st: "Response_has_status m"
    using assms(2) by (auto simp: status_bytes_def message_bytes_def split: if_splits)
  then have "rest s = enc_enum (int_of_Status (Response_status m)) @ message_bytes m"
    using assms(2) by (simp add: status_bytes_def)
  from Response_resume_status [OF this Response_tail_message [OF assms(1)]
      Response_jump_message [OF assms(1)], of m'] st
  show ?thesis by (simp add: add_status_def)
qed

lemma Response_merge_serialized:
  assumes c: "Response_canonical L m" and "str_ok (rs_message m)"
  shows "ends_with consumed
    (Response_MergePartialFromCodedStream L
       (open_stream (Response_SerializeWithCachedSizesToArray L m)) (Response_New L)) m"
proof -
  have u: "uf_empty L (rs_unknown m)"
    using Response_canonical_unknown [OF c] new_empty by simp
  have st: "rs_status m = int_of_Status (Response_status m)" if "Response_has_status m"
  proof -
    have "rs_status m = rs_status (let m0 = Response_New L;
        m1 = (if Response_has_id m then Response_set_id (rs_id m) m0 else m0);
        m2 = (if Response_has_status m then Response_set_status (Response_status m) m1 else m1)
      in if Response_has_message m then Response_set_message (rs_message m) m2 else m2)"
      using c by (simp only: Response_canonical_def)
    with that show ?thesis
      by (simp add: Let_def Response_set_message_def Response_set_has_message_def
          Response_set_status_def split: if_splits)
  qed
  have m: "add_status m (if Response_has_id m then Response_set_id (rs_id m) (Response_New L)
      else Response_New L) = m"
    using c by (simp add: Response_canonical_def add_status_def add_message_def Let_def)
  have bytes: "rest (open_stream (Response_SerializeWithCachedSizesToArray L m)) =
      (if Response_has_id m then 8 # enc_u64 (rs_id m) else []) @ status_bytes m"
    using u st
    by (simp add: rest_open Response_SerializeWithCachedSizesToArray_def write_str write_enum
        write_u64 [unfolded One_nat_def] status_bytes_def message_bytes_def)
  show ?thesis
  proof (cases "Response_has_id m")
    case True
    then have "rest (open_stream (Response_SerializeWithCachedSizesToArray L m)) =
        8 # enc_u64 (rs_id m) @ status_bytes m"
      using bytes by simp
    from Response_merge_id [OF this Response_tail_status [OF assms(2)]
        Response_jump_status [OF assms(2)], of "Response_New L"] True m
    show ?thesis by simp
  next
    case False
    with bytes Response_tail_status [OF assms(2), of _ "Response_New L"] m show ?thesis by simp
  qed
qed

lemma Response_serialize_length:
  "length (Response_SerializeWithCachedSizesToArray L m) = Response_ByteSize L m"
  using Response_has_bits_eq_0 [of m]
  by (auto simp: Response_SerializeWithCachedSizesToArray_def Response_ByteSize_def
      write_u64 [unfolded One_nat_def] write_str write_enum sizes)

end

definition Response_good ::
  "('is, 'u) pb_lib \<Rightarrow> (string \<Rightarrow> bool) \<Rightarrow> 'u Response \<Rightarrow> bool" where
  "Response_good L str_ok m \<longleftrightarrow>
     Response_IsInitialized m \<and> Response_canonical L m \<and> str_ok (rs_message m)"

locale response_wire =
  wire_format L open_stream rest consumed str_ok enc_u64 enc_enum enc_str +
  lite_message api open_stream consumed "Response_MergePartialFromCodedStream L" "Response_New L"
    Response_IsInitialized "Response_ByteSize L" "Response_SerializeWithCachedSizesToArray L"
  for L :: "('is, 'u) pb_lib" and open_stream rest consumed str_ok enc_u64 enc_enum enc_str
    and api :: "'u Response message_api"
begin

lemma response_parse:
  assumes "Response_canonical L m" and "str_ok (rs_message m)"
    and "SerializeToArray api m n = Some bs"
  shows "ParseFromArray api bs = (if Response_IsInitialized m then Some m else None)"
  using Response_merge_serialized [OF assms(1,2)] parse_serialized [OF _ _ assms(3)]
  by (auto simp: ends_with_def)

end

sublocale response_wire \<subseteq> response: message_codec api "Response_good L str_ok"
proof
  show "length bs = ByteSize api m" if "SerializeToArray api m n = Some bs" for m n bs
    using serialize_is [OF that] by (simp add: Response_serialize_length size)
  show "SerializeToArray api m n \<noteq> None" if "Response_good L str_ok m" "ByteSize api m \<le> n" for m n
    using that serialize_some by (simp add: Response_good_def size)
  show "ParseFromArray api bs = Some m"
    if "Response_good L str_ok m" "SerializeToArray api m n = Some bs" for m n bs
    using that response_parse [of m n bs] by (simp add: Response_good_def)
qed

subsection \<open>The messages the channels and servers build\<close>

lemma Response_set_commute:
  "Response_set_id v (Response_set_status st m) = Response_set_status st (Response_set_id v m)"
  "Response_set_id v (Response_set_message x m) = Response_set_message x (Response_set_id v m)"
  "Response_set_status st (Response_set_message x m) = Response_set_message x (Response_set_status st m)"
  by (simp_all add: Response_set_id_def Response_set_status_def Response_set_message_def
      Response_set_has_id_def Response_set_has_status_def Response_set_has_message_def ac_simps)

lemma Request_good_built [simp]:
  "Request_good L str_ok (Request_set_method_identity x (Request_set_id v (Request_New L))) \<longleftrightarrow>
   str_ok x"
  by (simp add: Request_good_def Request_IsInitialized_iff Request_canonical_def)

lemma rs_message_New [simp]: "rs_message (Response_New L) = ''''"
  by (simp add: Response_New_def)

lemma Response_good_built [simp]:
  "Response_good L str_ok (Response_set_status st (Response_set_id v (Response_New L))) \<longleftrightarrow>
   str_ok ''''"
  "Response_good L str_ok
     (Response_set_message x (Response_set_status st (Response_set_id v (Response_New L)))) \<longleftrightarrow>
   str_ok x"
  by (simp_all add: Response_good_def Response_IsInitialized_iff Response_canonical_def)

lemma built_without_id:
  "\<not> Request_IsInitialized (Request_set_method_identity x (Request_New L))"
  "\<not> Response_IsInitialized (Response_set_status st (Response_New L))"
  "\<not> Response_IsInitialized (Response_set_message x (Response_set_status st (Response_New L)))"
  by (simp_all add: Request_IsInitialized_iff Response_IsInitialized_iff)

end
