(* ===== verification/Varint_Wire.thy ===== *)
theory Varint_Wire
  imports Message_Wire
begin

section \<open>A protobuf runtime that satisfies the hypotheses\<close>

text \<open>
  The documented Protocol Buffers encoding (base-128 varints, length-delimited strings),
  as an executable instance of \<open>pb_lib\<close>. It shows that the hypotheses on the runtime can be
  met together, and gives the other theories a concrete runtime to evaluate the channels
  and servers with. Nothing in the model depends on this instance.
\<close>

subsection \<open>Varints\<close>

fun enc_varint :: "nat \<Rightarrow> byte list" where
  "enc_varint n =
     (if n < 128 then [of_nat n] else of_nat (n mod 128 + 128) # enc_varint (n div 128))"

declare enc_varint.simps [simp del]

fun dec_varint :: "nat \<Rightarrow> byte list \<Rightarrow> (nat \<times> byte list) option" where
  "dec_varint 0 bs = None"
| "dec_varint (Suc k) [] = None"
| "dec_varint (Suc k) (b # r) =
     (if unat b < 128 then Some (unat b, r)
      else (case dec_varint k r of
              None \<Rightarrow> None
            | Some (v, r') \<Rightarrow> Some (unat b - 128 + 128 * v, r')))"

lemma unat_of_nat_byte [simp]: "n < 256 \<Longrightarrow> unat (of_nat n :: byte) = n"
  by (simp add: unat_of_nat)

lemma dec_enc_varint:
  "0 < k \<Longrightarrow> n < 128 ^ k \<Longrightarrow> dec_varint k (enc_varint n @ r) = Some (n, r)"
proof (induction n arbitrary: k rule: enc_varint.induct)
  case (1 n)
  then obtain j where k: "k = Suc j" by (cases k) auto
  show ?case
  proof (cases "n < 128")
    case True
    then show ?thesis by (simp add: k enc_varint.simps [of n])
  next
    case False
    have lt: "n div 128 < 128 ^ j"
      using "1.prems" k by (simp add: less_mult_imp_div_less mult.commute)
    with False have "0 < j" by (cases j) auto
    have b: "unat (of_nat (n mod 128 + 128) :: byte) = n mod 128 + 128"
      by (rule unat_of_nat_byte) simp
    from "1.IH" [OF False \<open>0 < j\<close> lt] False show ?thesis
      by (simp add: k enc_varint.simps [of n] b del: of_nat_add)
  qed
qed

lemma enc_varint_nonempty: "enc_varint n \<noteq> []"
  by (simp add: enc_varint.simps)

subsection \<open>Characters and bytes\<close>

definition byte_of_char :: "char \<Rightarrow> byte" where
  "byte_of_char c = of_nat (of_char c)"

definition char_of_byte :: "byte \<Rightarrow> char" where
  "char_of_byte b = char_of (unat b)"

lemma char_of_byte_of_char [simp]: "char_of_byte (byte_of_char c) = c"
  by (simp add: char_of_byte_def byte_of_char_def)

subsection \<open>The runtime\<close>

text \<open>A stream is the input left and whether its end has been reached legitimately.\<close>

type_synonym vstream = "byte list \<times> bool"

definition skip_bytes :: "nat \<Rightarrow> byte list \<Rightarrow> byte list option" where
  "skip_bytes n bs = (if n \<le> length bs then Some (drop n bs) else None)"

definition skip_value :: "nat \<Rightarrow> byte list \<Rightarrow> byte list option" where
  "skip_value w bs =
     (if w = 0 then map_option snd (dec_varint 10 bs)
      else if w = 1 then skip_bytes 8 bs
      else if w = 2 then
        (case dec_varint 10 bs of None \<Rightarrow> None | Some (n, r) \<Rightarrow> skip_bytes n r)
      else if w = 5 then skip_bytes 4 bs else None)"

definition enc_string :: "string \<Rightarrow> byte list" where
  "enc_string x = enc_varint (length x) @ map byte_of_char x"

definition enc_enum_value :: "int \<Rightarrow> byte list" where
  "enc_enum_value e = enc_varint (unat (word_of_int e :: u64))"

definition enc_u64_value :: "u64 \<Rightarrow> byte list" where
  "enc_u64_value v = enc_varint (unat v)"

definition varint_lib :: "(vstream, byte list) pb_lib" where
  "varint_lib =
     \<lparr>GetTagFieldNumber = (\<lambda>t. unat t div 8),
      GetTagWireType = (\<lambda>t. unat t mod 8),
      ReadTagWithCutoff = (\<lambda>c (bs, _).
        if bs = [] then ((0, False), ([], True))
        else case dec_varint 10 bs of
               None \<Rightarrow> ((0, False), (bs, False))
             | Some (t, r) \<Rightarrow> ((of_nat t, t \<le> unat c), (r, False))),
      ExpectTag = (\<lambda>t (bs, f).
        case bs of [] \<Rightarrow> (False, (bs, f))
        | b # r \<Rightarrow> if ucast b = t \<and> unat b < 128 then (True, (r, False)) else (False, (bs, f))),
      ExpectAtEnd = (\<lambda>(bs, f). if bs = [] then (True, ([], True)) else (False, (bs, f))),
      ReadUInt64 = (\<lambda>(bs, _). map_option (\<lambda>(v, r). (of_nat v, (r, False))) (dec_varint 10 bs)),
      ReadEnum = (\<lambda>(bs, _). map_option
        (\<lambda>(v, r). (sint (ucast (of_nat v :: u64) :: u32), (r, False))) (dec_varint 10 bs)),
      ReadString = (\<lambda>(bs, _). case dec_varint 10 bs of None \<Rightarrow> None
        | Some (n, r) \<Rightarrow> if n \<le> length r
            then Some (map char_of_byte (take n r), (drop n r, False)) else None),
      SkipField = (\<lambda>t (bs, _) u. map_option
        (\<lambda>r. ((r, False), u @ enc_varint (unat t) @ take (length bs - length r) bs))
        (skip_value (unat t mod 8) bs)),
      WriteUInt64ToArray = (\<lambda>f v. of_nat (8 * f) # enc_u64_value v),
      WriteEnumToArray = (\<lambda>f e. of_nat (8 * f) # enc_enum_value e),
      WriteStringToArray = (\<lambda>f x. of_nat (8 * f + 2) # enc_string x),
      SerializeUnknownFieldsToArray = (\<lambda>u. u),
      UInt64Size = (\<lambda>v. length (enc_u64_value v)),
      EnumSize = (\<lambda>e. length (enc_enum_value e)),
      StringSize = (\<lambda>x. length (enc_string x)),
      ComputeUnknownFieldsSize = length,
      uf_new = [],
      uf_empty = (\<lambda>u. u = []),
      uf_add_varint = (\<lambda>f e u. u @ of_nat (8 * f) # enc_enum_value e),
      uf_merge = (@)\<rparr>"

definition varint_open :: "byte list \<Rightarrow> vstream" where
  "varint_open bs = (bs, False)"

definition varint_str_ok :: "string \<Rightarrow> bool" where
  "varint_str_ok x \<longleftrightarrow> length x < 2147483648"

definition varint_request_api :: "byte list Request message_api" where
  "varint_request_api =
     \<lparr>ParseFromArray = (\<lambda>bs.
        case Request_MergePartialFromCodedStream varint_lib (varint_open bs) (Request_New varint_lib) of
          Some (ok, s, m) \<Rightarrow> if ok \<and> Request_IsInitialized m \<and> snd s then Some m else None
        | None \<Rightarrow> None),
      ByteSize = Request_ByteSize varint_lib,
      SerializeToArray = (\<lambda>m n. if Request_ByteSize varint_lib m \<le> n
        then Some (Request_SerializeWithCachedSizesToArray varint_lib m) else None)\<rparr>"

definition varint_response_api :: "byte list Response message_api" where
  "varint_response_api =
     \<lparr>ParseFromArray = (\<lambda>bs.
        case Response_MergePartialFromCodedStream varint_lib (varint_open bs) (Response_New varint_lib) of
          Some (ok, s, m) \<Rightarrow> if ok \<and> Response_IsInitialized m \<and> snd s then Some m else None
        | None \<Rightarrow> None),
      ByteSize = Response_ByteSize varint_lib,
      SerializeToArray = (\<lambda>m n. if Response_ByteSize varint_lib m \<le> n
        then Some (Response_SerializeWithCachedSizesToArray varint_lib m) else None)\<rparr>"

lemma dec_enc_u64 [simp]: "dec_varint 10 (enc_u64_value v @ r) = Some (unat v, r)"
proof -
  have "unat v < 2 ^ 64" using unsigned_less [of v] by simp
  then show ?thesis unfolding enc_u64_value_def by (intro dec_enc_varint) simp_all
qed

lemma dec_enc_enum [simp]:
  "dec_varint 10 (enc_enum_value e @ r) = Some (unat (word_of_int e :: u64), r)"
  using dec_enc_u64 [of "word_of_int e" r] by (simp add: enc_enum_value_def enc_u64_value_def)

lemma dec_enc_length:
  "length x < 2147483648 \<Longrightarrow> dec_varint 10 (enc_varint (length x) @ r) = Some (length x, r)"
  by (intro dec_enc_varint) simp_all

lemma dec_small: "unat b < 128 \<Longrightarrow> dec_varint 10 (b # r) = Some (unat b, r)"
  by (simp add: numeral_eq_Suc)

interpretation varint_wire: wire_format varint_lib varint_open fst snd varint_str_ok
  enc_u64_value enc_enum_value enc_string
proof
  fix s :: vstream and t :: byte and r
  assume "fst s = t # r" "0 < t" "t < 128"
  then show "\<exists>s'. ReadTagWithCutoff varint_lib 127 s = ((ucast t, True), s') \<and> fst s' = r"
    by (cases s) (simp add: varint_lib_def dec_small word_less_nat_alt unsigned_ucast_eq)
next
  fix s :: vstream and e r
  assume "fst s = enc_enum_value e @ r" "Status_IsValid e"
  then show "\<exists>s'. ReadEnum varint_lib s = Some (e, s') \<and> fst s' = r"
    by (cases s) (auto simp: varint_lib_def Status_IsValid_def)
next
  fix s :: vstream and x r
  assume "fst s = enc_string x @ r" "varint_str_ok x"
  then show "\<exists>s'. ReadString varint_lib s = Some (x, s') \<and> fst s' = r"
    by (cases s) (simp add: varint_lib_def enc_string_def varint_str_ok_def dec_enc_length comp_def)
next
  fix t :: byte and s s' :: vstream
  assume "ExpectTag varint_lib (ucast t) s = (True, s')" "t < 128"
  then show "fst s = t # fst s'"
    by (cases s) (auto simp: varint_lib_def split: list.splits if_splits)
qed (auto simp: varint_lib_def varint_open_def split: list.splits if_splits)

interpretation varint_request: request_wire varint_lib varint_open fst snd varint_str_ok
  enc_u64_value enc_enum_value enc_string varint_request_api
  by unfold_locales (auto simp: varint_request_api_def split: if_splits)

interpretation varint_response: response_wire varint_lib varint_open fst snd varint_str_ok
  enc_u64_value enc_enum_value enc_string varint_response_api
  by unfold_locales (auto simp: varint_response_api_def split: if_splits)

subsection \<open>Byte strings as messages\<close>

text \<open>A message type of a user's method, for the examples: its encoding is itself.\<close>

definition bytes_api :: "byte list message_api" where
  "bytes_api = \<lparr>ParseFromArray = Some, ByteSize = length,
     SerializeToArray = (\<lambda>m n. if length m \<le> n then Some m else None)\<rparr>"

interpretation bytes_codec: message_codec bytes_api "\<lambda>_. True"
  by unfold_locales (auto simp: bytes_api_def split: if_splits)

subsection \<open>Properties of the two messages\<close>

text \<open>
  C27. The generated code of \<open>Request\<close> parses back what it serialised: for a message as the
  setters build it, the bytes have the length \<open>ByteSize\<close> announces, and parsing them into a
  new message succeeds, consumes them all, and gives the message. It holds for every runtime
  that keeps the documented contract, whose \<open>ExpectTag\<close> and \<open>ExpectAtEnd\<close> may decline.
\<close>

theorem request_roundtrip:
  assumes "wire_format L open_stream rest consumed str_ok enc_u64 enc_enum enc_str"
    and "Request_canonical L m" and "str_ok (rq_method_identity m)"
  shows "length (Request_SerializeWithCachedSizesToArray L m) = Request_ByteSize L m \<and>
    (\<exists>s. Request_MergePartialFromCodedStream L
        (open_stream (Request_SerializeWithCachedSizesToArray L m)) (Request_New L) = Some (True, s, m) \<and>
      consumed s)"
  using wire_format.Request_merge_serialized [OF assms]
    wire_format.Request_serialize_length [OF assms(1), of m]
  by (simp add: ends_with_def)

theorem request_roundtrip_witness:
  "\<exists>s. Request_MergePartialFromCodedStream varint_lib
      (varint_open (Request_SerializeWithCachedSizesToArray varint_lib
         (Request_set_method_identity ''Arith.compute'' (Request_set_id 300 (Request_New varint_lib)))))
      (Request_New varint_lib) =
    Some (True, s, Request_set_method_identity ''Arith.compute'' (Request_set_id 300 (Request_New varint_lib)))
    \<and> snd s"
proof -
  let ?m = "Request_set_method_identity ''Arith.compute'' (Request_set_id 300 (Request_New varint_lib))"
  have "Request_canonical varint_lib ?m" "varint_str_ok (rq_method_identity ?m)"
    by (simp_all add: Request_canonical_def varint_str_ok_def)
  from request_roundtrip [OF varint_wire.wire_format_axioms this] show ?thesis by blast
qed

text \<open>
  C28. The same for \<open>Response\<close>, with its status read back as the same enumerator and its
  optional message present exactly when it was set.
\<close>

theorem response_roundtrip:
  assumes "wire_format L open_stream rest consumed str_ok enc_u64 enc_enum enc_str"
    and "Response_canonical L m" and "str_ok (rs_message m)"
  shows "length (Response_SerializeWithCachedSizesToArray L m) = Response_ByteSize L m \<and>
    (\<exists>s. Response_MergePartialFromCodedStream L
        (open_stream (Response_SerializeWithCachedSizesToArray L m)) (Response_New L) = Some (True, s, m) \<and>
      consumed s)"
  using wire_format.Response_merge_serialized [OF assms]
    wire_format.Response_serialize_length [OF assms(1), of m]
  by (simp add: ends_with_def)

theorem response_roundtrip_witness:
  "\<exists>s. Response_MergePartialFromCodedStream varint_lib
      (varint_open (Response_SerializeWithCachedSizesToArray varint_lib
         (Response_set_message ''no'' (Response_set_status FAILED (Response_set_id 300 (Response_New varint_lib))))))
      (Response_New varint_lib) =
    Some (True, s, Response_set_message ''no'' (Response_set_status FAILED (Response_set_id 300 (Response_New varint_lib))))
    \<and> snd s"
proof -
  let ?m = "Response_set_message ''no'' (Response_set_status FAILED (Response_set_id 300 (Response_New varint_lib)))"
  have "Response_canonical varint_lib ?m" "varint_str_ok (rs_message ?m)"
    by (simp_all add: Response_canonical_def varint_str_ok_def)
  from response_roundtrip [OF varint_wire.wire_format_axioms this] show ?thesis by blast
qed

end
