(* ===== verification/Async_Server_Replies.thy ===== *)
theory Async_Server_Replies
  imports Async_Server Varint_Wire
begin

section \<open>What the asynchronous server replies\<close>

text \<open>
  The reply to a request that has arrived: which bytes are handed to \<open>async_write\<close>, when
  they fit the connection's buffer, and what happens when they do not.
\<close>

subsection \<open>respond_to_client\<close>

text \<open>
  The buffer is grown to \<open>n_\<close>, the size of the request. While the request is being handled
  the buffer already has that size, so it does not grow at all.
\<close>

lemma expand_packet_noop:
  assumes "wf_pbuf b" and "buf_p b = Some blk" and "unat n \<le> length blk"
  shows "expand_packet M b n = Inr (0, b)"
  using assms by (auto simp: expand_packet_def wf_pbuf_def word_less_nat_alt)

lemma respond_to_client_result:
  assumes "message_codec (proto_response P) gr" and "message_codec api gm"
    and "gr rr" and "gm m"
    and "wf_pbuf (rc_buf k)" and "buf_p (rc_buf k) = Some blk" and "unat (rc_n k) \<le> length blk"
    and "12 \<le> length blk"
  shows "\<exists>bs1 bs2. ParseFromArray (proto_response P) bs1 = Some rr \<and>
    length bs1 = ByteSize (proto_response P) rr \<and>
    ParseFromArray api bs2 = Some m \<and> length bs2 = ByteSize api m \<and>
    respond_to_client M P (Some (api, m)) (Some rr) c k S =
      (let body = bs1 @ bs2 in
       if 12 + length body \<le> length blk
       then Inr (put_conn c (k\<lparr>rc_buf := (rc_buf k)\<lparr>buf_p :=
                   Some (wire_header (of_nat (length bs1)) 0 (of_nat (length bs2)) @ body @
                         drop (12 + length body) blk)\<rparr>,
                 rc_pending := WriteResponse
                   (frame (of_nat (length bs1)) 0 (of_nat (length bs2)) body)\<rparr>) S, None)
       else Inl OutOfBounds)"
proof -
  obtain bs1 where 1: "SerializeToArray (proto_response P) rr (ByteSize (proto_response P) rr) = Some bs1"
    "length bs1 = ByteSize (proto_response P) rr" "ParseFromArray (proto_response P) bs1 = Some rr"
    using message_codec.good_bytes [OF assms(1,3) order_refl] by metis
  obtain bs2 where 2: "SerializeToArray api m (ByteSize api m) = Some bs2"
    "length bs2 = ByteSize api m" "ParseFromArray api bs2 = Some m"
    using message_codec.good_bytes [OF assms(2,4) order_refl] by metis
  define h where "h = wire_header (of_nat (length bs1)) 0 (of_nat (length bs2))"
  have hh: "h = host_header M (htonl M (of_nat (length bs1))) (htonl M 0) (htonl M (of_nat (length bs2)))"
    by (simp add: h_def)
  have s0: "store_header M (htonl M (of_nat (length bs1))) (htonl M 0) (htonl M (of_nat (length bs2))) blk
      = Inr (h @ drop 12 blk)"
    using assms(8) by (simp only: hh store_header_ok)
  have lh: "length h = 12" by (simp add: h_def)
  have s1: "store_at 12 bs1 (h @ drop 12 blk) =
    (if 12 + length bs1 \<le> length blk then Inr (h @ bs1 @ drop (12 + length bs1) blk) else Inl OutOfBounds)"
    using lh assms(8) by (auto simp: store_at_def add.commute)
  have s2: "store_at (12 + length bs1) bs2 (h @ bs1 @ drop (12 + length bs1) blk) =
    (if 12 + length bs1 + length bs2 \<le> length blk
     then Inr (h @ bs1 @ bs2 @ drop (12 + length bs1 + length bs2) blk) else Inl OutOfBounds)"
    if "12 + length bs1 \<le> length blk"
    using lh that by (auto simp: store_at_def add_ac)
  have l: "load_at 0 (12 + length bs1 + length bs2)
      (h @ bs1 @ bs2 @ drop (12 + length bs1 + length bs2) blk) = Inr (h @ bs1 @ bs2)"
    using lh by (simp add: load_at_def)
  note nop = expand_packet_noop [OF assms(5-7)]
  have "respond_to_client M P (Some (api, m)) (Some rr) c k S =
      (let body = bs1 @ bs2 in
       if 12 + length body \<le> length blk
       then Inr (put_conn c (k\<lparr>rc_buf := (rc_buf k)\<lparr>buf_p :=
                   Some (h @ body @ drop (12 + length body) blk)\<rparr>,
                 rc_pending := WriteResponse (h @ body)\<rparr>) S, None)
       else Inl OutOfBounds)"
  proof (cases "12 + length bs1 \<le> length blk")
    case True
    show ?thesis
      using 1(1) 2(1) s0 s1 s2 [OF True] l nop assms(6) True
      by (simp add: respond_to_client_def Let_def add.assoc 1(2) [symmetric] 2(2) [symmetric])
  next
    case False
    with 1(1) 2(1) s0 s1 nop assms(6) show ?thesis
      by (simp add: respond_to_client_def Let_def 1(2) [symmetric] 2(2) [symmetric])
  qed
  then show ?thesis
    using 1(2,3) 2(2,3) unfolding frame_def h_def by blast
qed

text \<open>A reply without a response object dereferences null in its log statement.\<close>

lemma respond_without_message: "respond_to_client M P None rr c k S = Inl NullDeref"
  by (simp add: respond_to_client_def Let_def)

subsection \<open>A request that has arrived\<close>

lemma payload_stored:
  assumes "buf_p (rc_buf k) = Some (host_header M x y z @ rest)" and "length body \<le> length rest"
  shows "asio_store off_data body k = Inr (k\<lparr>rc_buf := (rc_buf k)\<lparr>buf_p :=
    Some (host_header M x y z @ body @ drop (length body) rest)\<rparr>, rc_pending := NoOp\<rparr>)"
  using store_after_header [OF assms(2)] assms(1) by (simp add: asio_store_def)

lemma load_metadata:
  "load_at 12 (length meta) (host_header M x y z @ (meta @ body) @ tail) = Inr meta"
  by (simp add: load_at_def)

lemma load_parameter:
  "load_at (12 + length meta) (length param) (host_header M x y z @ (meta @ param @ extra) @ tail)
    = Inr param"
  by (simp add: load_at_def)

text \<open>
  The bytes of the payload as the handler splits them: the metadata, the parameter and what
  the client put after them, which is ignored.
\<close>

definition arrived :: "machine \<Rightarrow> rconn \<Rightarrow> byte list \<Rightarrow> byte list \<Rightarrow> byte list \<Rightarrow> bool" where
  "arrived M k meta param extra \<longleftrightarrow>
     (\<exists>x y z rest. buf_p (rc_buf k) = Some (host_header M x y z @ rest) \<and>
        length meta = unat x \<and> length param = unat y \<and>
        length (meta @ param @ extra) \<le> length rest)"

lemma arrivedI:
  "buf_p (rc_buf k) = Some (host_header M x y z @ rest) \<Longrightarrow> length meta = unat x \<Longrightarrow>
   length param = unat y \<Longrightarrow> length (meta @ param @ extra) \<le> length rest \<Longrightarrow>
   arrived M k meta param extra"
  unfolding arrived_def by blast

lemma handle_read_payload_parsed:
  assumes "arrived M k meta param extra"
    and "ParseFromArray (proto_request P) meta = Some rq"
    and "rc_server k"
    and "dispatch_to (as_services S) (rq_method_identity rq) = Target cs md"
    and "ParseFromArray (request_api md) param = Some request"
    and "run_service M md request = (ctl, response)"
    and "as_objs S c = Some k" and "wf_pbuf (rc_buf k)"
  obtains k1 blk where "run_event M P (PayloadRead c (meta @ param @ extra)) S =
      respond_to_client M P (Some (response_api md, response)) (Some (response_for ctl rq P)) c k1 S"
    and "buf_p (rc_buf k1) = Some blk" and "length blk = unat (buf_size (rc_buf k))"
    and "wf_pbuf (rc_buf k1)" and "rc_n k1 = rc_n k" and "12 \<le> length blk"
proof -
  from assms(1) obtain x y z rest where b: "buf_p (rc_buf k) = Some (host_header M x y z @ rest)"
    and l: "length meta = unat x" "length param = unat y" "length (meta @ param @ extra) \<le> length rest"
    by (auto simp: arrived_def)
  define blk where "blk = host_header M x y z @ (meta @ param @ extra) @
    drop (length (meta @ param @ extra)) rest"
  define k1 where "k1 = k\<lparr>rc_buf := (rc_buf k)\<lparr>buf_p := Some blk\<rparr>, rc_pending := NoOp\<rparr>"
  have st: "asio_store off_data (meta @ param @ extra) k = Inr k1"
    unfolding k1_def blk_def by (rule payload_stored [OF b l(3)])
  note pr = asio_store_props [OF st assms(8)]
  have bk: "buf_p (rc_buf k1) = Some blk" by (simp add: k1_def)
  have u: "load_u32 M 0 blk = Inr x" "load_u32 M 4 blk = Inr y" by (simp_all add: blk_def)
  have ld: "load_at 12 (unat x) blk = Inr meta" "load_at (12 + unat x) (unat y) blk = Inr param"
    unfolding blk_def l(1,2) [symmetric] by (rule load_metadata load_parameter)+
  have sv: "rc_server k1" using pr(2) assms(3) by simp
  have ev: "run_event M P (PayloadRead c (meta @ param @ extra)) S =
      respond_to_client M P (Some (response_api md, response)) (Some (response_for ctl rq P)) c k1 S"
    using assms(2,4-7) st bk u ld sv by (simp add: handle_read_payload_def answer_request_def)
  have len: "length blk = unat (buf_size (rc_buf k))"
    using assms(8) b l(3) by (auto simp: blk_def wf_pbuf_def)
  have ge: "12 \<le> length blk" by (simp add: blk_def)
  show ?thesis by (rule that [OF ev bk len pr(1,5) ge])
qed

subsection \<open>A header that has arrived\<close>

lemma header_stored:
  assumes "buf_p (rc_buf k) = Some blk" and "12 \<le> length blk"
  shows "asio_store 0 (wire_header x y z) k = Inr (k\<lparr>rc_buf := (rc_buf k)\<lparr>buf_p :=
    Some (wire_header x y z @ drop 12 blk)\<rparr>, rc_pending := NoOp\<rparr>)"
  using assms by (simp add: asio_store_def store_at_def)

lemma expand_packet_alloc:
  assumes "\<And>n. can_alloc M n" and "unat n \<le> 2147483648"
  obtains b' where "expand_packet M b n = Inr (0, b')"
proof -
  from expand_packet_total [OF assms(2)] obtain r b' where e: "expand_packet M b n = Inr (r, b')"
    by metis
  with assms(1) have "r = 0"
    by (auto simp: expand_packet_def Let_def split: if_splits option.splits)
  with e show ?thesis using that by blast
qed

text \<open>
  An honest header, from a state in which the connection waits for one: the buffer then has
  room for the announced payload, and the payload is what is waited for.
\<close>

lemma header_read_stored:
  assumes "as_objs S c = Some k" and wf: "wf_pbuf (rc_buf k)"
    and blk: "buf_p (rc_buf k) = Some blk" "12 \<le> length blk"
    and "\<And>n. can_alloc M n" and "12 + a + b \<le> 2147483648"
  obtains k2 rest where
    "run_event M P (HeaderRead c (wire_header (of_nat a) (of_nat b) 0)) S = Inr (put_conn c k2 S, None)"
    and "rc_pending k2 = ReadPayload (of_nat (a + b))" and "rc_server k2 = rc_server k" and "wf_pbuf (rc_buf k2)"
    and "unat (rc_n k2) = 12 + a + b"
    and "buf_p (rc_buf k2) = Some (host_header M (of_nat a) (of_nat b) 0 @ rest)"
    and "a + b \<le> length rest"
    and "unat (buf_size (rc_buf k)) \<le> unat (buf_size (rc_buf k2))"
proof -
  let ?h = "wire_header (of_nat a) (of_nat b) 0"
  define k0 where "k0 = k\<lparr>rc_buf := (rc_buf k)\<lparr>buf_p := Some (?h @ drop 12 blk)\<rparr>, rc_pending := NoOp\<rparr>"
  define n where "n = announced (of_nat a) (of_nat b) 0"
  have st: "asio_store 0 ?h k = Inr k0" unfolding k0_def by (rule header_stored [OF blk])
  note pr = asio_store_props [OF st wf]
  have b0: "buf_p (rc_buf k0) = Some (?h @ drop 12 blk)" by (simp add: k0_def)
  have un: "unat n = 12 + a + b" using unat_announced [of a b 0] assms(6) by (simp add: n_def)
  define b1 where "b1 = (rc_buf k0)\<lparr>buf_p := Some (host_header M (of_nat a) (of_nat b) 0 @ drop 12 blk)\<rparr>"
  have wf1: "wf_pbuf b1" unfolding b1_def by (rule wf_pbuf_store [OF pr(1) b0]) simp
  obtain b2 where e: "expand_packet M b1 n = Inr (0, b2)"
    using expand_packet_alloc [OF assms(5), of n b1] un assms(6) by auto
  define k2 where "k2 = k0\<lparr>rc_n := n, rc_buf := b2, rc_pending := ReadPayload (payload_size n)\<rparr>"
  have "buf_p b1 = Some (host_header M (of_nat a) (of_nat b) 0 @ drop 12 blk)" by (simp add: b1_def)
  from expand_packet_keeps_header [OF wf1 this e] obtain rest where
    r: "buf_p b2 = Some (host_header M (of_nat a) (of_nat b) 0 @ rest)" "unat n \<le> 12 + length rest"
    by auto
  have "unat (payload_size n) = a + b" using unat_payload_size [of n] un by simp
  then have ps: "payload_size n = of_nat (a + b)" by (metis of_nat_unat ucast_id)
  show ?thesis
  proof (rule that [of k2 rest])
    show "run_event M P (HeaderRead c ?h) S = Inr (put_conn c k2 S, None)"
      using handle_read_header_ok [OF b0 pr(1), of M c S] st e assms(1)
      by (simp add: Let_def k2_def n_def b1_def)
    show "unat (buf_size (rc_buf k)) \<le> unat (buf_size (rc_buf k2))"
      using expand_packet_grows [OF e] by (simp add: k2_def b1_def k0_def)
  qed (use pr(2) expand_packet_preserves_wf [OF wf1 e] un r ps
       in \<open>simp_all add: k2_def\<close>)
qed

lemma header_read_arrives:
  assumes "server_inv M S" and "as_objs S c = Some k" and "rc_pending k = ReadHeader"
    and "\<And>n. can_alloc M n" and "12 + a + b \<le> 2147483648"
  obtains k2 rest where
    "run_event M P (HeaderRead c (wire_header (of_nat a) (of_nat b) 0)) S = Inr (put_conn c k2 S, None)"
    and "rc_pending k2 = ReadPayload (of_nat (a + b))" and "rc_server k2" and "wf_pbuf (rc_buf k2)"
    and "unat (rc_n k2) = 12 + a + b"
    and "buf_p (rc_buf k2) = Some (host_header M (of_nat a) (of_nat b) 0 @ rest)"
    and "a + b \<le> length rest"
    and "unat (buf_size (rc_buf k)) \<le> unat (buf_size (rc_buf k2))"
proof -
  have ci: "conn_inv M k" by (rule server_invD(1) [OF assms(1,2)])
  then obtain blk where blk: "buf_p (rc_buf k) = Some blk" "12 \<le> length blk"
    using assms(3) by (auto simp: conn_inv_def)
  from header_read_stored [OF assms(2) conn_inv_basic(1) [OF ci] blk assms(4,5)] show ?thesis
    using that conn_inv_basic(2) [OF ci] by metis
qed

subsection \<open>A whole exchange\<close>

text \<open>
  The reply to a request of the two parts \<open>meta\<close> and \<open>param\<close>, as the bytes the server hands
  to \<open>async_write\<close>.
\<close>

definition reply_pending ::
  "'u protocol \<Rightarrow> 'u Response \<Rightarrow> 'm message_api \<Rightarrow> 'm \<Rightarrow> nat \<Rightarrow> 'm aserver \<Rightarrow> bool" where
  "reply_pending P rr api m c S \<longleftrightarrow>
     (\<exists>k bs1 bs2. as_objs S c = Some k \<and>
        rc_pending k = WriteResponse (frame (of_nat (length bs1)) 0 (of_nat (length bs2)) (bs1 @ bs2)) \<and>
        ParseFromArray (proto_response P) bs1 = Some rr \<and> length bs1 = ByteSize (proto_response P) rr \<and>
        ParseFromArray api bs2 = Some m \<and> length bs2 = ByteSize api m)"

lemma payload_answered:
  assumes "arrived M k meta param extra"
    and "ParseFromArray (proto_request P) meta = Some rq"
    and "rc_server k"
    and "dispatch_to (as_services S) (rq_method_identity rq) = Target cs md"
    and "ParseFromArray (request_api md) param = Some request"
    and "run_service M md request = (ctl, response)"
    and "as_objs S c = Some k" and "wf_pbuf (rc_buf k)"
    and "message_codec (proto_response P) gr" and "message_codec (response_api md) gm"
    and "gr (response_for ctl rq P)" and "gm response"
    and "unat (rc_n k) \<le> unat (buf_size (rc_buf k))"
  shows "if 12 + ByteSize (proto_response P) (response_for ctl rq P)
            + ByteSize (response_api md) response \<le> unat (buf_size (rc_buf k))
    then \<exists>S'. run_event M P (PayloadRead c (meta @ param @ extra)) S = Inr (S', None) \<and>
      reply_pending P (response_for ctl rq P) (response_api md) response c S'
    else run_event M P (PayloadRead c (meta @ param @ extra)) S = Inl OutOfBounds"
proof -
  obtain k1 blk where ev: "run_event M P (PayloadRead c (meta @ param @ extra)) S =
      respond_to_client M P (Some (response_api md, response)) (Some (response_for ctl rq P)) c k1 S"
    and blk: "buf_p (rc_buf k1) = Some blk" "length blk = unat (buf_size (rc_buf k))"
    and wf: "wf_pbuf (rc_buf k1)" and n: "rc_n k1 = rc_n k" and ge: "12 \<le> length blk"
    using handle_read_payload_parsed [OF assms(1-8)] by metis
  have le: "unat (rc_n k1) \<le> length blk" using n blk(2) assms(13) by simp
  from respond_to_client_result [OF assms(9-12) wf blk(1) le ge, of M c S]
  obtain bs1 bs2 where
    p: "ParseFromArray (proto_response P) bs1 = Some (response_for ctl rq P)"
      "length bs1 = ByteSize (proto_response P) (response_for ctl rq P)"
      "ParseFromArray (response_api md) bs2 = Some response"
      "length bs2 = ByteSize (response_api md) response"
    and r: "respond_to_client M P (Some (response_api md, response)) (Some (response_for ctl rq P)) c k1 S =
      (let body = bs1 @ bs2 in
       if 12 + length body \<le> length blk
       then Inr (put_conn c (k1\<lparr>rc_buf := (rc_buf k1)\<lparr>buf_p :=
                   Some (wire_header (of_nat (length bs1)) 0 (of_nat (length bs2)) @ body @
                         drop (12 + length body) blk)\<rparr>,
                 rc_pending := WriteResponse
                   (frame (of_nat (length bs1)) 0 (of_nat (length bs2)) body)\<rparr>) S, None)
       else Inl OutOfBounds)"
    by metis
  show ?thesis
  proof (cases "12 + length (bs1 @ bs2) \<le> length blk")
    case True
    then obtain k' where run: "run_event M P (PayloadRead c (meta @ param @ extra)) S = Inr (put_conn c k' S, None)"
      and pend: "rc_pending k' = WriteResponse (frame (of_nat (length bs1)) 0 (of_nat (length bs2)) (bs1 @ bs2))"
      using ev r by simp
    have "as_objs (put_conn c k' S) c = Some k'" by (simp add: put_conn_def)
    then have "reply_pending P (response_for ctl rq P) (response_api md) response c (put_conn c k' S)"
      unfolding reply_pending_def using pend p by blast
    with run show ?thesis using True blk(2) p(2,4) by (auto simp: add.assoc)
  next
    case False
    with ev r blk(2) p(2,4) show ?thesis by (simp add: add.assoc)
  qed
qed

subsection \<open>A concrete server to evaluate\<close>

text \<open>
  A service with one method that returns its parameter and one that returns 64 bytes, over
  messages that are byte strings, and a server that offers it, has accepted one connection
  and waits for a request.
\<close>

definition echo_method :: "byte list rpc_method" where
  "echo_method = \<lparr>request_api = bytes_api, response_api = bytes_api, response_new = [],
     call_method = (\<lambda>req ctl resp. (ctl, req, None))\<rparr>"

definition fill_method :: "byte list rpc_method" where
  "fill_method = echo_method\<lparr>call_method := (\<lambda>req ctl resp. (ctl, replicate 64 1, None))\<rparr>"

definition echo_service :: "byte list service" where
  "echo_service = \<lparr>svc_name = ''Echo'',
     find_method = (\<lambda>name. if name = ''echo'' then Some echo_method
       else if name = ''fill'' then Some fill_method else None)\<rparr>"

definition varint_protocol :: "byte list protocol" where
  "varint_protocol = \<lparr>proto_request = varint_request_api, proto_response = varint_response_api,
     fresh_request = Request_New varint_lib, fresh_response = Response_New varint_lib\<rparr>"

definition echo_start :: "byte list aserver" where
  "echo_start =
     snd (CarrotAsyncServer_RegisterService (CarrotAsyncServer_new little_host) echo_service None)"

definition echo_server :: "byte list aserver" where
  "echo_server =
     (case run_event little_host varint_protocol Accepted echo_start of
        Inr (S, _) \<Rightarrow> S | Inl _ \<Rightarrow> echo_start)"

definition echo_conn :: rconn where
  "echo_conn = \<lparr>rc_server = True, rc_open = True,
     rc_buf = \<lparr>buf_p = Some (replicate 16 0), buf_size = 16\<rparr>, rc_n = 0, rc_pending = ReadHeader\<rparr>"

definition echo_request :: "byte list Request" where
  "echo_request = Request_set_method_identity ''Echo.echo'' (Request_set_id 7 (Request_New varint_lib))"

definition echo_meta :: "byte list" where
  "echo_meta = Request_SerializeWithCachedSizesToArray varint_lib echo_request"

lemma double_until_1_12 [simp]: "double_until 1 12 = Some 16"
  by (simp add: double_until.simps)

lemma echo_accept:
  "run_event little_host varint_protocol Accepted echo_start = Inr (echo_server, None)"
  "as_objs echo_server 0 = Some echo_conn"
  "as_services echo_server = [''Echo'' \<mapsto> \<lparr>cs_s = echo_service, cs_c = None\<rparr>]"
  by (simp_all add: echo_server_def echo_start_def CarrotAsyncServer_RegisterService_def RegisterService_def
      CarrotAsyncServer_new_def start_accept_def put_conn_def map_insert_def RpcServerConnection_new_def
      handle_accept_def serve_def expand_packet_def null_buf_def realloc_def little_host_def echo_conn_def
      map_replicate_const echo_service_def fun_eq_iff Let_def)

lemma echo_reachable: "server_reachable little_host varint_protocol echo_server"
proof (rule server_reachable.event [OF _ _ echo_accept(1)])
  show "server_reachable little_host varint_protocol echo_start"
    unfolding echo_start_def by (intro server_reachable.register server_reachable.start)
  show "enabled Accepted echo_start"
    by (simp add: echo_start_def CarrotAsyncServer_RegisterService_def CarrotAsyncServer_new_def
        start_accept_def case_prod_beta Let_def)
qed

lemma echo_request_good: "Request_good varint_lib varint_str_ok echo_request"
  by (simp add: echo_request_def varint_str_ok_def)

lemma echo_meta_parses: "ParseFromArray (proto_request varint_protocol) echo_meta = Some echo_request"
proof -
  have "SerializeToArray varint_request_api echo_request (Request_ByteSize varint_lib echo_request)
      = Some echo_meta"
    by (simp add: varint_request_api_def echo_meta_def)
  from varint_request.request.roundtrip [OF echo_request_good this] show ?thesis
    by (simp add: varint_protocol_def)
qed

lemma echo_meta_length: "length echo_meta = 13"
  by code_simp

lemmas built_good = Request_good_built Response_good_built Response_set_commute

lemma echo_run: "run_service M echo_method req = (CarrotController_default (junk_callback M) (junk_u32 M), req)"
  by (simp add: run_service_def echo_method_def)

lemma echo_reply_good:
  "Response_good varint_lib varint_str_ok
     (response_for (CarrotController_default None 0) echo_request varint_protocol)"
  by (simp add: response_for_def varint_protocol_def CarrotController_default_def Failed_def
      Response_set_commute varint_str_ok_def)

lemma echo_reply_size:
  "ByteSize (proto_response varint_protocol)
     (response_for (CarrotController_default None 0) echo_request varint_protocol) = 4"
  by code_simp

lemma echo_dispatch:
  "dispatch_to (as_services echo_server) (rq_method_identity echo_request) =
     Target \<lparr>cs_s = echo_service, cs_c = None\<rparr> echo_method"
  by (simp add: echo_accept(3) echo_request_def dispatch_to_def echo_service_def)

subsection \<open>Properties of the exchange\<close>

text \<open>The argument of the first property, also used for the whole exchange with a client.\<close>

lemma request_gets_reply:
  assumes "server_reachable M P S" and "as_objs S c = Some k" and "rc_pending k = ReadHeader"
    and "\<And>n. can_alloc M n" and "12 + length meta + length param \<le> 2147483648"
    and "ParseFromArray (proto_request P) meta = Some rq"
    and "dispatch_to (as_services S) (rq_method_identity rq) = Target cs md"
    and "ParseFromArray (request_api md) param = Some request"
    and "run_service M md request = (ctl, response)"
    and "message_codec (proto_response P) gr" and "message_codec (response_api md) gm"
    and "gr (response_for ctl rq P)" and "gm response"
    and "12 + ByteSize (proto_response P) (response_for ctl rq P) + ByteSize (response_api md) response
      \<le> max (12 + length meta + length param) (unat (buf_size (rc_buf k)))"
  shows "\<exists>S1 S2.
    run_event M P (HeaderRead c (wire_header (of_nat (length meta)) (of_nat (length param)) 0)) S
      = Inr (S1, None) \<and>
    run_event M P (PayloadRead c (meta @ param)) S1 = Inr (S2, None) \<and>
    reply_pending P (response_for ctl rq P) (response_api md) response c S2"
proof -
  obtain k2 rest where h: "run_event M P (HeaderRead c
      (wire_header (of_nat (length meta)) (of_nat (length param)) 0)) S = Inr (put_conn c k2 S, None)"
    and k2: "rc_server k2" "wf_pbuf (rc_buf k2)" "unat (rc_n k2) = 12 + length meta + length param"
    and b: "buf_p (rc_buf k2) = Some (host_header M (of_nat (length meta)) (of_nat (length param)) 0 @ rest)"
      "length meta + length param \<le> length rest"
    and grows: "unat (buf_size (rc_buf k)) \<le> unat (buf_size (rc_buf k2))"
    using header_read_arrives [OF reachable_inv [OF assms(1)] assms(2-5)] by metis
  have lens: "unat (of_nat (length meta) :: u32) = length meta"
    "unat (of_nat (length param) :: u32) = length param" using assms(5) by simp_all
  have ar: "arrived M k2 meta param []"
    using arrivedI [OF b(1)] b(2) lens by simp
  have sz: "12 + length meta + length param \<le> unat (buf_size (rc_buf k2))"
    using k2(2) b by (auto simp: wf_pbuf_def)
  let ?S1 = "put_conn c k2 S"
  have "as_services ?S1 = as_services S" "as_objs ?S1 c = Some k2" by (simp_all add: put_conn_def)
  then show ?thesis
    using payload_answered [OF ar assms(6) k2(1) _ assms(8,9) _ k2(2) assms(10-13), of ?S1 cs c]
      assms(7,14) h sz grows k2(3)
    by (auto simp: max_def split: if_splits)
qed

text \<open>
  C6. A request for an offered method whose reply is no larger than the request or the buffer of
  the connection is answered, in every reachable state: after the header and the payload have been
  read by a connection that waits for a request, the bytes handed to \<open>async_write\<close> are one frame whose
  two parts parse back to the response record for the request and to the message the method
  returned. Provided that there is memory, the request parses and has at most \<open>2 ^ 31\<close> bytes, and the
  reply can be encoded. (Another method or a larger reply is a fault, as shown below.)
\<close>

theorem request_answered:
  assumes "server_reachable M P S" and "as_objs S c = Some k" and "rc_pending k = ReadHeader"
    and "\<And>n. can_alloc M n" and "12 + length meta + length param \<le> 2147483648"
    and "ParseFromArray (proto_request P) meta = Some rq"
    and "dispatch_to (as_services S) (rq_method_identity rq) = Target cs md"
    and "ParseFromArray (request_api md) param = Some request"
    and "run_service M md request = (ctl, response)"
    and "message_codec (proto_response P) gr" and "message_codec (response_api md) gm"
    and "gr (response_for ctl rq P)" and "gm response"
    and "12 + ByteSize (proto_response P) (response_for ctl rq P) + ByteSize (response_api md) response
      \<le> max (12 + length meta + length param) (unat (buf_size (rc_buf k)))"
  shows "\<exists>S1 S2.
    run_event M P (HeaderRead c (wire_header (of_nat (length meta)) (of_nat (length param)) 0)) S
      = Inr (S1, None) \<and>
    run_event M P (PayloadRead c (meta @ param)) S1 = Inr (S2, None) \<and>
    reply_pending P (response_for ctl rq P) (response_api md) response c S2"
  by (rule request_gets_reply [OF assms])

theorem request_answered_witness:
  "\<exists>S1 S2.
    run_event little_host varint_protocol (HeaderRead 0 (wire_header 13 3 0)) echo_server
      = Inr (S1, None) \<and>
    run_event little_host varint_protocol (PayloadRead 0 (echo_meta @ [1, 2, 3])) S1 = Inr (S2, None) \<and>
    reply_pending varint_protocol
      (response_for (CarrotController_default None 0) echo_request varint_protocol)
      bytes_api [1, 2, 3] 0 S2"
proof -
  have pr: "message_codec (proto_response varint_protocol) (Response_good varint_lib varint_str_ok)"
    using varint_response.response.message_codec_axioms by (simp add: varint_protocol_def)
  have em: "request_api echo_method = bytes_api" "response_api echo_method = bytes_api"
    by (simp_all add: echo_method_def)
  have bs: "ParseFromArray bytes_api [1, 2, 3] = Some [1, 2, 3]" "ByteSize bytes_api [1, 2, 3] = 3"
    by (simp_all add: bytes_api_def)
  show ?thesis
    using request_answered [OF echo_reachable echo_accept(2), of echo_meta "[1, 2, 3]" echo_request
        "\<lparr>cs_s = echo_service, cs_c = None\<rparr>" echo_method "[1, 2, 3]"
        "CarrotController_default None 0" "[1, 2, 3]"
        "Response_good varint_lib varint_str_ok" "\<lambda>_. True"]
      pr em bs echo_meta_parses echo_dispatch echo_run [of little_host "[1, 2, 3]"]
      bytes_codec.message_codec_axioms echo_reply_good
    by (simp add: echo_conn_def echo_meta_length echo_reply_size)
qed

text \<open>
  C15. The reply is written into a buffer whose size the request determined
  (\<open>expand_packet(&p_, &size_, n_)\<close> and not \<open>n\<close>): when a request of a known method has
  arrived, the server writes outside its heap block exactly when the reply is larger than
  that buffer.
\<close>

theorem reply_overflow_iff:
  assumes "server_reachable M P S" and "as_objs S c = Some k"
    and "arrived M k meta param extra"
    and "rc_pending k = ReadPayload (of_nat (length (meta @ param @ extra)))"
    and "ParseFromArray (proto_request P) meta = Some rq"
    and "dispatch_to (as_services S) (rq_method_identity rq) = Target cs md"
    and "ParseFromArray (request_api md) param = Some request"
    and "run_service M md request = (ctl, response)"
    and "message_codec (proto_response P) gr" and "message_codec (response_api md) gm"
    and "gr (response_for ctl rq P)" and "gm response"
  shows "run_event M P (PayloadRead c (meta @ param @ extra)) S = Inl OutOfBounds \<longleftrightarrow>
    unat (buf_size (rc_buf k)) < 12 + ByteSize (proto_response P) (response_for ctl rq P)
      + ByteSize (response_api md) response"
proof -
  have ci: "conn_inv M k" by (rule server_invD(1) [OF reachable_inv [OF assms(1)] assms(2)])
  then have "unat (rc_n k) \<le> unat (buf_size (rc_buf k))"
    using assms(4) by (auto simp: conn_inv_def wf_pbuf_def)
  from payload_answered [OF assms(3,5) conn_inv_basic(2) [OF ci] assms(6-8,2)
      conn_inv_basic(1) [OF ci] assms(9-12) this]
  show ?thesis by (auto split: if_splits)
qed

definition fill_request :: "byte list Request" where
  "fill_request = Request_set_method_identity ''Echo.fill'' (Request_set_id 7 (Request_New varint_lib))"

definition fill_meta :: "byte list" where
  "fill_meta = Request_SerializeWithCachedSizesToArray varint_lib fill_request"

definition header_conn :: rconn where
  "header_conn = echo_conn\<lparr>rc_buf := \<lparr>buf_p = Some (host_header little_host 13 3 0 @ replicate 20 0),
     buf_size = 32\<rparr>, rc_n := 28, rc_pending := ReadPayload 16\<rparr>"

lemma double_until_16_28 [simp]: "double_until 16 28 = Some 32"
  by (simp add: double_until.simps)

lemma header_server_step:
  "run_event little_host varint_protocol (HeaderRead 0 (wire_header 13 3 0)) echo_server =
   Inr (put_conn 0 header_conn echo_server, None)"
proof -
  have st: "asio_store 0 (wire_header 13 3 0) echo_conn =
      Inr (echo_conn\<lparr>rc_buf := \<lparr>buf_p = Some (wire_header 13 3 0 @ replicate 4 0), buf_size = 16\<rparr>,
                     rc_pending := NoOp\<rparr>)"
    using header_stored [of echo_conn "replicate 16 0" 13 3 0] by (simp add: echo_conn_def)
  have "wf_pbuf \<lparr>buf_p = Some (wire_header 13 3 0 @ replicate 4 0), buf_size = 16\<rparr>"
    by (auto simp: wf_pbuf_def pow2_size_def intro: exI [of _ 4])
  with st show ?thesis
    by (simp add: echo_accept(2) handle_read_header_ok expand_packet_def realloc_def announced_def
        header_conn_def payload_size_def little_host_def map_replicate_const
        replicate_add [symmetric] Let_def)
      (simp add: echo_conn_def)
qed

lemma header_server_reachable:
  "server_reachable little_host varint_protocol (put_conn 0 header_conn echo_server)"
  by (rule server_reachable.event [OF echo_reachable _ header_server_step])
    (simp add: echo_accept(2) echo_conn_def)

lemma fill_meta_parses: "ParseFromArray (proto_request varint_protocol) fill_meta = Some fill_request"
proof -
  have good: "Request_good varint_lib varint_str_ok fill_request"
    by (simp add: fill_request_def varint_str_ok_def)
  have "SerializeToArray varint_request_api fill_request (Request_ByteSize varint_lib fill_request)
      = Some fill_meta"
    by (simp add: varint_request_api_def fill_meta_def)
  from varint_request.request.roundtrip [OF good this] show ?thesis
    by (simp add: varint_protocol_def)
qed

lemma fill_meta_length: "length fill_meta = 13"
  by code_simp

lemma fill_reply:
  "Response_good varint_lib varint_str_ok
     (response_for (CarrotController_default None 0) fill_request varint_protocol)"
  "ByteSize (proto_response varint_protocol)
     (response_for (CarrotController_default None 0) fill_request varint_protocol) = 4"
  by (simp add: response_for_def varint_protocol_def CarrotController_default_def Failed_def
      Response_set_commute varint_str_ok_def) code_simp

lemma header_server_arrived:
  "length meta = 13 \<Longrightarrow> arrived little_host header_conn meta [1, 2, 3] []"
  by (rule arrivedI [of _ _ 13 3 0 "replicate 20 0"]) (simp_all add: header_conn_def)

lemma header_server_simps:
  "as_objs (put_conn 0 header_conn echo_server) 0 = Some header_conn"
  "as_services (put_conn 0 header_conn echo_server) = as_services echo_server"
  "rc_pending header_conn = ReadPayload 16" "buf_size (rc_buf header_conn) = 32"
  by (simp_all add: put_conn_def header_conn_def)

theorem reply_overflow_iff_witness:
  "run_event little_host varint_protocol (PayloadRead 0 (fill_meta @ [1, 2, 3]))
     (put_conn 0 header_conn echo_server) = Inl OutOfBounds"
proof -
  have pr: "message_codec (proto_response varint_protocol) (Response_good varint_lib varint_str_ok)"
    using varint_response.response.message_codec_axioms by (simp add: varint_protocol_def)
  have d: "dispatch_to (as_services (put_conn 0 header_conn echo_server))
      (rq_method_identity fill_request) = Target \<lparr>cs_s = echo_service, cs_c = None\<rparr> fill_method"
    by (simp add: header_server_simps echo_accept(3) fill_request_def dispatch_to_def echo_service_def)
  have em: "request_api fill_method = bytes_api" "response_api fill_method = bytes_api"
    by (simp_all add: fill_method_def echo_method_def)
  have run: "run_service little_host fill_method [1, 2, 3]
      = (CarrotController_default None 0, replicate 64 1)"
    by (simp add: run_service_def fill_method_def echo_method_def)
  have bs: "ParseFromArray bytes_api [1, 2, 3] = Some [1, 2, 3]"
    "ByteSize bytes_api (replicate 64 1) = 64" by (simp_all add: bytes_api_def)
  have "run_event little_host varint_protocol (PayloadRead 0 (fill_meta @ [1, 2, 3] @ []))
     (put_conn 0 header_conn echo_server) = Inl OutOfBounds \<longleftrightarrow>
     unat (buf_size (rc_buf header_conn)) < 12 + 4 + 64"
    using reply_overflow_iff [OF header_server_reachable header_server_simps(1)
        header_server_arrived [OF fill_meta_length] _ fill_meta_parses d _ run pr]
      bs em bytes_codec.message_codec_axioms fill_reply
    by (simp add: header_server_simps(3) fill_meta_length)
  then show ?thesis by (simp add: header_server_simps)
qed

subsection \<open>Reading headers: when the server hangs\<close>

lemma handle_read_header_faults:
  assumes "conn_inv M k" and "rc_pending k = ReadHeader" and "as_objs S c = Some k"
  shows "run_event M P (HeaderRead c (wire_header x y z)) S = Inl e \<longleftrightarrow>
    e = Hang \<and> 2147483648 < unat (announced x y z)"
proof -
  obtain blk where blk: "buf_p (rc_buf k) = Some blk" "12 \<le> length blk"
    using assms(1,2) by (auto simp: conn_inv_def)
  define k0 where "k0 = k\<lparr>rc_buf := (rc_buf k)\<lparr>buf_p := Some (wire_header x y z @ drop 12 blk)\<rparr>,
    rc_pending := NoOp\<rparr>"
  have st: "asio_store 0 (wire_header x y z) k = Inr k0"
    unfolding k0_def by (rule header_stored [OF blk])
  note pr = asio_store_props [OF st conn_inv_basic(1) [OF assms(1)]]
  have b0: "buf_p (rc_buf k0) = Some (wire_header x y z @ drop 12 blk)" by (simp add: k0_def)
  define b1 where "b1 = (rc_buf k0)\<lparr>buf_p := Some (host_header M x y z @ drop 12 blk)\<rparr>"
  have wf1: "wf_pbuf b1" unfolding b1_def by (rule wf_pbuf_store [OF pr(1) b0]) simp
  have run: "run_event M P (HeaderRead c (wire_header x y z)) S = Inl e \<longleftrightarrow>
      expand_packet M b1 (announced x y z) = Inl e"
    using st assms(3) handle_read_header_ok [OF b0 pr(1), of M c S]
    by (cases "expand_packet M b1 (announced x y z)") (auto simp: Let_def b1_def split: if_splits)
  show ?thesis
  proof (cases "unat (announced x y z) \<le> 2147483648")
    case True
    with expand_packet_total [OF True, of M b1] run show ?thesis by auto
  next
    case False
    have "pow2_size (buf_size b1)" "unat (buf_size b1) \<le> 2147483648"
      using wf1 pow2_size_le by (auto simp: wf_pbuf_def)
    then have "expand_packet M b1 (announced x y z) = Inl Hang"
      using False by (simp add: expand_packet_def Let_def word_less_nat_alt double_until_diverges)
    with run False show ?thesis by auto
  qed
qed

text \<open>
  C16. The only fault a header can cause is non-termination, and it does so exactly when the
  total length it announces, as the 32-bit value \<open>n_\<close>, exceeds \<open>2 ^ 31\<close>: then the doubling
  loop of \<open>expand_packet\<close> never ends. In every reachable state, whatever the twelve bytes are.
\<close>

theorem header_hang_iff:
  assumes "server_reachable M P S" and "enabled (HeaderRead c (wire_header x y z)) S"
  shows "run_event M P (HeaderRead c (wire_header x y z)) S = Inl e \<longleftrightarrow>
    e = Hang \<and> 2147483648 < unat (announced x y z)"
proof -
  obtain k where k: "as_objs S c = Some k" "rc_pending k = ReadHeader"
    using assms(2) by (auto split: option.splits)
  from handle_read_header_faults [OF server_invD(1) [OF reachable_inv [OF assms(1)] k(1)] k(2,1)]
  show ?thesis .
qed

theorem header_hang_iff_witness:
  "run_event little_host varint_protocol (HeaderRead 0 (wire_header 4294967295 0 0)) echo_server
     \<noteq> Inl Hang \<and>
   run_event little_host varint_protocol (HeaderRead 0 (wire_header 4294967280 0 0)) echo_server
     = Inl Hang"
proof -
  have en: "enabled (HeaderRead 0 (wire_header x y z)) echo_server" for x y z
    by (simp add: echo_accept(2) echo_conn_def)
  show ?thesis
    using header_hang_iff [OF echo_reachable en, of 4294967295 0 0 Hang]
      header_hang_iff [OF echo_reachable en, of 4294967280 0 0 Hang]
    by (simp add: announced_def)
qed

subsection \<open>Receiving a payload: when the server writes outside its buffer\<close>

lemma payload_store_result:
  assumes "conn_inv M k" and "rc_pending k = ReadPayload n"
  shows "asio_store off_data bs k = Inl e \<longleftrightarrow>
    e = OutOfBounds \<and> unat (buf_size (rc_buf k)) < 12 + length bs"
proof -
  obtain blk where "buf_p (rc_buf k) = Some blk" "length blk = unat (buf_size (rc_buf k))"
    using assms by (auto simp: conn_inv_def wf_pbuf_def)
  then show ?thesis by (auto simp: asio_store_def and_then_eq_Inl_iff store_at_eq_Inl_iff)
qed

text \<open>
  C17. The lengths of a header are added without a check, in 32 bits. While the payload is
  received, the bytes that arrive are stored outside the buffer exactly when there are more
  of them than the buffer holds; a header whose announced total is at least the size of the
  header itself (so that \<open>n_ - sizeof(packet)\<close> does not wrap) excludes that for every number
  of bytes the read asks for.
\<close>

theorem payload_overflow_iff:
  assumes "server_reachable M P S" and "as_objs S c = Some k" and "rc_pending k = ReadPayload n"
    and "enabled (ReadFailed c bs e) S"
  shows "(run_event M P (ReadFailed c bs e) S = Inl f \<longleftrightarrow>
      f = OutOfBounds \<and> unat (buf_size (rc_buf k)) < 12 + length bs) \<and>
    (12 \<le> unat (rc_n k) \<longrightarrow> run_event M P (ReadFailed c bs e) S \<noteq> Inl f)"
proof -
  have ci: "conn_inv M k" by (rule server_invD(1) [OF reachable_inv [OF assms(1)] assms(2)])
  have run: "run_event M P (ReadFailed c bs e) S = Inl f \<longleftrightarrow> asio_store off_data bs k = Inl f"
    using assms(2,3)
    by (cases "asio_store off_data bs k") (auto simp: read_offset_def handle_read_payload_def)
  have "length bs \<le> unat n" using assms(2-4) by simp
  moreover have "n = payload_size (rc_n k)" "unat (rc_n k) \<le> unat (buf_size (rc_buf k))"
    using ci assms(3) by (auto simp: conn_inv_def wf_pbuf_def)
  ultimately show ?thesis
    unfolding run payload_store_result [OF ci assms(3)] using unat_payload_size [of "rc_n k"] by auto
qed

definition wrapped_conn :: rconn where
  "wrapped_conn = echo_conn\<lparr>rc_buf := \<lparr>buf_p = Some (host_header little_host 4294967295 0 0
     @ replicate 4 0), buf_size = 16\<rparr>, rc_n := 11, rc_pending := ReadPayload 18446744073709551615\<rparr>"

lemma wrapped_server_step:
  "run_event little_host varint_protocol (HeaderRead 0 (wire_header 4294967295 0 0)) echo_server =
   Inr (put_conn 0 wrapped_conn echo_server, None)"
proof -
  have st: "asio_store 0 (wire_header 4294967295 0 0) echo_conn =
      Inr (echo_conn\<lparr>rc_buf := \<lparr>buf_p = Some (wire_header 4294967295 0 0 @ replicate 4 0),
                      buf_size = 16\<rparr>, rc_pending := NoOp\<rparr>)"
    using header_stored [of echo_conn "replicate 16 0" 4294967295 0 0] by (simp add: echo_conn_def)
  have "wf_pbuf \<lparr>buf_p = Some (wire_header 4294967295 0 0 @ replicate 4 0), buf_size = 16\<rparr>"
    by (auto simp: wf_pbuf_def pow2_size_def intro: exI [of _ 4])
  moreover have wrap: "(4294967307 :: u32) = 11" "(- 1 :: u64) = 18446744073709551615" by simp_all
  ultimately show ?thesis
    using st
    by (simp add: echo_accept(2) handle_read_header_ok expand_packet_def announced_def
        wrapped_conn_def payload_size_def Let_def)
      (simp add: echo_conn_def wrap)
qed

lemma wrapped_server_reachable:
  "server_reachable little_host varint_protocol (put_conn 0 wrapped_conn echo_server)"
  by (rule server_reachable.event [OF echo_reachable _ wrapped_server_step])
    (simp add: echo_accept(2) echo_conn_def)

theorem payload_overflow_iff_witness:
  "run_event little_host varint_protocol (ReadFailed 0 [0, 0, 0, 0, 0] 2)
     (put_conn 0 wrapped_conn echo_server) = Inl OutOfBounds"
proof -
  have "as_objs (put_conn 0 wrapped_conn echo_server) 0 = Some wrapped_conn"
    "rc_pending wrapped_conn = ReadPayload 18446744073709551615"
    "enabled (ReadFailed 0 [0, 0, 0, 0, 0] 2) (put_conn 0 wrapped_conn echo_server)"
    "unat (buf_size (rc_buf wrapped_conn)) < 12 + length [0, 0, 0, 0, 0 :: byte]"
    by (simp_all add: put_conn_def wrapped_conn_def)
  with payload_overflow_iff [OF wrapped_server_reachable] show ?thesis by blast
qed

subsection \<open>Unknown methods, destroyed servers, failing operations\<close>

lemma handle_read_payload_dispatched:
  assumes "arrived M k meta param extra"
    and "ParseFromArray (proto_request P) meta = Some rq"
    and "as_objs S c = Some k" and "wf_pbuf (rc_buf k)"
  obtains k1 blk rpc_len where "run_event M P (PayloadRead c (meta @ param @ extra)) S =
      answer_request M P blk rpc_len rq c k1 S"
    and "rc_server k1 = rc_server k"
proof -
  from assms(1) obtain x y z rest where b: "buf_p (rc_buf k) = Some (host_header M x y z @ rest)"
    and l: "length meta = unat x" "length param = unat y" "length (meta @ param @ extra) \<le> length rest"
    by (auto simp: arrived_def)
  define blk where "blk = host_header M x y z @ (meta @ param @ extra) @
    drop (length (meta @ param @ extra)) rest"
  define k1 where "k1 = k\<lparr>rc_buf := (rc_buf k)\<lparr>buf_p := Some blk\<rparr>, rc_pending := NoOp\<rparr>"
  have st: "asio_store off_data (meta @ param @ extra) k = Inr k1"
    unfolding k1_def blk_def by (rule payload_stored [OF b l(3)])
  have "load_u32 M 0 blk = Inr x" by (simp add: blk_def)
  moreover have "load_at 12 (unat x) blk = Inr meta"
    unfolding blk_def l(1) [symmetric] by (rule load_metadata)
  moreover have "buf_p (rc_buf k1) = Some blk" "rc_server k1 = rc_server k" by (simp_all add: k1_def)
  ultimately show ?thesis
    using assms(2,3) st by (intro that [of blk x k1]) (simp_all add: handle_read_payload_def)
qed

text \<open>
  C20. A request for a method the server does not have ends in a null dereference: each of the
  three "not found" replies passes no response object, and \<open>respond_to_client\<close> calls
  \<open>resp->DebugString()\<close> on it. The client never gets the \<open>NOT_FOUND\<close> status.
\<close>

theorem unknown_method_crashes:
  assumes "server_reachable M P S" and "as_objs S c = Some k" and "arrived M k meta param extra"
    and "ParseFromArray (proto_request P) meta = Some rq"
    and "\<And>cs md. dispatch_to (as_services S) (rq_method_identity rq) \<noteq> Target cs md"
  shows "run_event M P (PayloadRead c (meta @ param @ extra)) S = Inl NullDeref"
proof -
  have ci: "conn_inv M k" by (rule server_invD(1) [OF reachable_inv [OF assms(1)] assms(2)])
  obtain k1 blk rpc_len where "run_event M P (PayloadRead c (meta @ param @ extra)) S =
      answer_request M P blk rpc_len rq c k1 S"
    using handle_read_payload_dispatched [OF assms(3,4,2) conn_inv_basic(1) [OF ci]] by metis
  then show ?thesis
    using assms(5)
    by (cases "dispatch_to (as_services S) (rq_method_identity rq)")
      (auto simp: answer_request_def respond_without_message)
qed

text \<open>A request that names no method at all.\<close>

definition bare_request :: "byte list Request" where
  "bare_request = Request_set_method_identity ''Echo_bogus'' (Request_set_id 7 (Request_New varint_lib))"

definition bare_meta :: "byte list" where
  "bare_meta = Request_SerializeWithCachedSizesToArray varint_lib bare_request"

lemma bare_meta_parses: "ParseFromArray (proto_request varint_protocol) bare_meta = Some bare_request"
proof -
  have good: "Request_good varint_lib varint_str_ok bare_request"
    by (simp add: bare_request_def varint_str_ok_def)
  have "SerializeToArray varint_request_api bare_request (Request_ByteSize varint_lib bare_request)
      = Some bare_meta"
    by (simp add: varint_request_api_def bare_meta_def)
  from varint_request.request.roundtrip [OF good this] show ?thesis
    by (simp add: varint_protocol_def)
qed

theorem unknown_method_crashes_witness:
  "run_event little_host varint_protocol (PayloadRead 0 (bare_meta @ [] @ []))
     (put_conn 0 (header_conn\<lparr>rc_buf := \<lparr>buf_p = Some (host_header little_host 14 0 0 @
        replicate 20 0), buf_size = 32\<rparr>, rc_n := 26, rc_pending := ReadPayload 14\<rparr>) echo_server)
     = Inl NullDeref"
  (is "run_event _ _ _ ?S = _")
proof -
  have len: "length bare_meta = 14" by code_simp
  have st: "asio_store 0 (wire_header 14 0 0) echo_conn =
      Inr (echo_conn\<lparr>rc_buf := \<lparr>buf_p = Some (wire_header 14 0 0 @ replicate 4 0), buf_size = 16\<rparr>,
                     rc_pending := NoOp\<rparr>)"
    using header_stored [of echo_conn "replicate 16 0" 14 0 0] by (simp add: echo_conn_def)
  have "wf_pbuf \<lparr>buf_p = Some (wire_header 14 0 0 @ replicate 4 0), buf_size = 16\<rparr>"
    by (auto simp: wf_pbuf_def pow2_size_def intro: exI [of _ 4])
  with st have step: "run_event little_host varint_protocol (HeaderRead 0 (wire_header 14 0 0)) echo_server
      = Inr (?S, None)"
    by (simp add: echo_accept(2) handle_read_header_ok expand_packet_def realloc_def announced_def
        header_conn_def payload_size_def little_host_def map_replicate_const double_until.simps
        replicate_add [symmetric] Let_def)
      (simp add: echo_conn_def)
  have "server_reachable little_host varint_protocol ?S"
    by (rule server_reachable.event [OF echo_reachable _ step]) (simp add: echo_accept(2) echo_conn_def)
  moreover have "arrived little_host (header_conn\<lparr>rc_buf := \<lparr>buf_p = Some (host_header little_host 14 0 0 @
        replicate 20 0), buf_size = 32\<rparr>, rc_n := 26, rc_pending := ReadPayload 14\<rparr>) bare_meta [] []"
    by (rule arrivedI [of _ _ 14 0 0 "replicate 20 0"]) (simp_all add: len)
  moreover have "dispatch_to (as_services ?S) (rq_method_identity bare_request) \<noteq> Target cs md" for cs md
    by (simp add: put_conn_def bare_request_def dispatch_to_def)
  moreover have "as_objs ?S 0 = Some (header_conn\<lparr>rc_buf := \<lparr>buf_p = Some (host_header little_host 14 0 0 @
        replicate 20 0), buf_size = 32\<rparr>, rc_n := 26, rc_pending := ReadPayload 14\<rparr>)"
    by (simp add: put_conn_def)
  ultimately show ?thesis
    using unknown_method_crashes [OF _ _ _ bare_meta_parses] by blast
qed

end
