(* ===== verification/Simple_Server_Requests.thy ===== *)
theory Simple_Server_Requests
  imports Simple_Server_Inv Async_Server_Replies
begin

section \<open>What the simple server promises, and what it does not\<close>

text \<open>
  The pool of connections as an abstract set of served descriptors, and the fate of a request:
  answered, but without the id that the protocol requires; refused; or fatal to the server.
\<close>

subsection \<open>The pool refines a set of clients\<close>

definition served :: "'m sserver \<Rightarrow> nat set" where
  "served S = {fd. \<exists>c. client_of S c = Some fd}"

lemma served_with_buffer:
  assumes "simple_inv S" and "ss_objs S c = Some k"
  shows "served (with_buffer c k b w S) = served S"
proof -
  have "client_of (with_buffer c k b w S) x = client_of S x" for x
    using assms(2) simple_invD(1) [OF assms(1), of x]
    by (auto simp: client_of_def with_buffer_def split: option.splits)
  then show ?thesis by (simp add: served_def)
qed

lemma served_destroy:
  assumes "simple_inv S" and "ss_in_use S c = Some d" and "ss_objs S c = Some k" and "alive k"
    and "destroy_rpc_connection c S = Inr S'"
  shows "served S' = served S - {client_fd k}" and "client_fd k \<in> served S"
    and "os_fds (ss_os S') = (os_fds (ss_os S))(client_fd k := None)"
    and "c \<in> set (ss_unused S')" and "ss_in_use S' c = None"
proof -
  note S' = destroy_result [OF assms(3,4), unfolded assms(5), simplified]
  have co: "client_of S' x = (if x = c then None else client_of S x)" for x
    using simple_invD(1) [OF assms(1), of x] by (auto simp: S' client_of_def split: option.splits)
  have cc: "client_of S c = Some (client_fd k)"
    using client_of_in_use [OF assms(1,3)] assms(2) by simp
  have uniq: "x = c" if "client_of S x = Some (client_fd k)" for x
  proof -
    have "x \<in> dom (ss_in_use S)" using that by (auto simp: client_of_def split: option.splits)
    then show ?thesis
      using simple_invD(6) [OF assms(1)] that cc assms(2) by (auto simp: inj_on_def dom_def)
  qed
  have "(\<exists>x. client_of S' x = Some fd) \<longleftrightarrow> (\<exists>x. client_of S x = Some fd) \<and> fd \<noteq> client_fd k" for fd
    unfolding co using uniq cc by (metis option.distinct(1) option.inject)
  then show "served S' = served S - {client_fd k}" unfolding served_def by blast
  show "client_fd k \<in> served S" using cc by (auto simp: served_def)
  show "os_fds (ss_os S') = (os_fds (ss_os S))(client_fd k := None)" "c \<in> set (ss_unused S')"
    "ss_in_use S' c = None"
    unfolding S' by (simp_all add: fd_close_fds)
qed

text \<open>What a set of clients may do in one step.\<close>

inductive pool_step :: "nat set \<Rightarrow> nat set \<Rightarrow> bool" where
  idle: "pool_step A A"
| connect: "fd \<notin> A \<Longrightarrow> pool_step A (insert fd A)"
| disconnect: "fd \<in> A \<Longrightarrow> pool_step A (A - {fd})"

inductive_simps pool_step_simps: "pool_step A B"

lemma client_step:
  assumes "simple_inv S" and "c \<in> set (ss_events S)" and "ss_objs S c = Some k"
    and "simple_handle_client M P c S = Inr (S', thrown)"
  shows "(served S' = served S \<or> served S' = served S - {client_fd k}) \<and> client_fd k \<in> served S \<and>
    (\<forall>fd. fd \<noteq> client_fd k \<longrightarrow> os_fds (ss_os S') fd = os_fds (ss_os S) fd) \<and>
    (os_fds (ss_os S') (client_fd k) = None \<longleftrightarrow> client_fd k \<notin> served S')"
proof -
  obtain d where d: "ss_in_use S c = Some d" using assms(2) simple_invD(5) [OF assms(1)] by auto
  have k: "alive k" "os_fds (ss_os S) (client_fd k) \<noteq> None"
    using simple_invD(2) [OF assms(1) d] assms(3) by auto
  have ex: "exact_pbuf (c_buf k)" using simple_invD(8) [OF assms(1,3)] by simp
  have mem: "client_fd k \<in> served S"
    using client_of_in_use [OF assms(1,3)] d by (auto simp: served_def)
  show ?thesis
  proof (rule handle_client_result [OF assms(4,3) ex])
    fix b w
    assume b: "exact_pbuf b" and tw: "touches (client_fd k) (ss_os S) w"
      and alt: "S' = with_buffer c k b w S \<or> destroy_rpc_connection c (with_buffer c k b w S) = Inr S'"
    let ?T = "with_buffer c k b w S"
    have inv: "simple_inv ?T" by (rule simple_inv_with_buffer [OF assms(1,3) b tw])
    have sv: "served ?T = served S" by (rule served_with_buffer [OF assms(1,3)])
    have os: "ss_os ?T = w" by (simp add: with_buffer_def)
    from alt show ?thesis
    proof
      assume "S' = ?T"
      with sv os tw k(2) mem show ?thesis by (auto simp: touches_def)
    next
      assume destroyed: "destroy_rpc_connection c ?T = Inr S'"
      have T: "ss_in_use ?T c = Some d" "ss_objs ?T c = Some (k\<lparr>c_buf := b\<rparr>)" "alive (k\<lparr>c_buf := b\<rparr>)"
        using d k by (simp_all add: with_buffer_def)
      note res = served_destroy [OF inv T destroyed]
      show ?thesis using res(1-3) sv os tw mem by (auto simp: touches_def)
    qed
  qed
qed

lemma listen_step:
  assumes "simple_inv S" and "handle_listen_sock (Some (fd, s)) add_ok S = Inr S'"
  shows "served S' = (if add_ok then insert fd (served S) else served S)"
    and "os_fds (ss_os S') = (os_fds (ss_os S))(fd \<mapsto> s)"
proof -
  have "served S' = (if add_ok then insert fd (served S) else served S) \<and>
    os_fds (ss_os S') = (os_fds (ss_os S))(fd \<mapsto> s)"
  proof (rule take_connection [OF assms])
    fix c k rest n
    assume c: "ss_in_use S c = None"
      and eq: "S' = (let T = S\<lparr>ss_unused := rest, ss_next := n,
                  ss_os := (ss_os S)\<lparr>os_fds := (os_fds (ss_os S))(fd \<mapsto> s)\<rparr>\<rparr> in
               if add_ok
               then T\<lparr>ss_in_use := (ss_in_use S)(c \<mapsto> c), ss_events := c # ss_events S,
                      ss_objs := (ss_objs S)(c \<mapsto> k\<lparr>client_fd := fd, alive := True\<rparr>)\<rparr>
               else T\<lparr>ss_objs := (ss_objs S)(c := None)\<rparr>)"
    have "client_of S' x = (if add_ok \<and> x = c then Some fd else client_of S x)" for x
      using simple_invD(1) [OF assms(1), of x] c eq
      by (auto simp: client_of_def Let_def split: option.splits)
    moreover have "client_of S c = None" using c by (simp add: client_of_def)
    ultimately have "served S' = (if add_ok then insert fd (served S) else served S)"
      by (auto simp: served_def) (metis option.distinct(1))
    with eq show ?thesis by (simp add: Let_def)
  qed
  then show "served S' = (if add_ok then insert fd (served S) else served S)"
    "os_fds (ss_os S') = (os_fds (ss_os S))(fd \<mapsto> s)" by blast+
qed

lemma served_open: "simple_inv S \<Longrightarrow> fd \<in> served S \<Longrightarrow> os_fds (ss_os S) fd \<noteq> None"
proof -
  assume inv: "simple_inv S" and "fd \<in> served S"
  then obtain c where c: "client_of S c = Some fd" by (auto simp: served_def)
  then obtain d where d: "ss_in_use S c = Some d" by (auto simp: client_of_def split: option.splits)
  obtain k where k: "ss_objs S c = Some k" "os_fds (ss_os S) (client_fd k) \<noteq> None"
    using simple_invD(2) [OF inv d] by auto
  with client_of_in_use [OF inv k(1)] c d show ?thesis by simp
qed

lemma event_object:
  assumes "simple_inv S" and "c \<in> set (ss_events S)"
  obtains k where "ss_in_use S c = Some c" and "ss_objs S c = Some k" and "alive k"
    and "os_fds (ss_os S) (client_fd k) \<noteq> None" and "exact_pbuf (c_buf k)" and "client_fd k \<in> served S"
proof -
  obtain d where d: "ss_in_use S c = Some d" using assms(2) simple_invD(5) [OF assms(1)] by auto
  then have "d = c" using simple_invD(1) [OF assms(1)] by blast
  obtain k where k: "ss_objs S c = Some k" "alive k" "os_fds (ss_os S) (client_fd k) \<noteq> None"
    using simple_invD(2) [OF assms(1) d] by auto
  have "client_fd k \<in> served S" using client_of_in_use [OF assms(1) k(1)] d by (auto simp: served_def)
  with d \<open>d = c\<close> k simple_invD(8) [OF assms(1) k(1)] show ?thesis by (intro that) auto
qed

subsection \<open>A concrete server to evaluate\<close>

definition quiet_os :: os where "quiet_os = \<lparr>os_fds = (\<lambda>_. None), os_errno = 0\<rparr>"

definition sock_with :: "byte list \<Rightarrow> sock" where
  "sock_with bs = \<lparr>inq = map (\<lambda>b. Chunk b []) bs, outq = [], sent = [], errno = 0\<rparr>"

lemma incoming_sock_with [simp]: "incoming (inq (sock_with bs)) = bs"
  by (induction bs) (simp_all add: sock_with_def)

lemma sock_with_simps [simp]:
  "final_errno (inq (sock_with bs)) e = e" "outq (sock_with bs) = []" "sent (sock_with bs) = []"
  by (induction bs) (simp_all add: sock_with_def)

definition simple_start :: "byte list sserver" where
  "simple_start = snd (simple_RegisterService (CarrotSimpleServer_new quiet_os) echo_service None)"

definition simple_conn :: rpc_connection where
  "simple_conn = \<lparr>client_fd = 5, alive = True, c_buf = null_buf\<rparr>"

definition simple_serving :: "byte list \<Rightarrow> byte list sserver" where
  "simple_serving bs = simple_start\<lparr>ss_in_use := [0 \<mapsto> 0], ss_objs := [0 \<mapsto> simple_conn],
     ss_events := [0], ss_os := quiet_os\<lparr>os_fds := [5 \<mapsto> sock_with bs]\<rparr>, ss_next := 1\<rparr>"

lemma simple_start_state [simp]:
  "ss_services simple_start = [''Echo'' \<mapsto> \<lparr>cs_s = echo_service, cs_c = None\<rparr>]"
  "ss_unused simple_start = []" "ss_in_use simple_start = (\<lambda>_. None)" "ss_objs simple_start = (\<lambda>_. None)"
  "ss_events simple_start = []" "ss_os simple_start = quiet_os" "ss_next simple_start = 0"
  by (simp_all add: simple_start_def simple_RegisterService_def RegisterService_def
      CarrotSimpleServer_new_def echo_service_def Let_def)

lemma simple_serving_step:
  "listen_callback True (Some (5, sock_with bs)) True simple_start = Inr (simple_serving bs)"
  by (simp add: listen_callback_def handle_listen_sock_def Let_def rpc_connection_new_def simple_serving_def
      simple_conn_def)
    (simp add: put_sconn_def quiet_os_def)

lemma simple_serving_reachable:
  "simple_reachable M P quiet_os simple_start" "simple_reachable M P quiet_os (simple_serving bs)"
proof -
  show s: "simple_reachable M P quiet_os simple_start"
    unfolding simple_start_def by (intro simple_reachable.register simple_reachable.start)
  show "simple_reachable M P quiet_os (simple_serving bs)"
    by (rule simple_reachable.listen [OF s _ simple_serving_step]) (simp add: quiet_os_def)
qed

subsection \<open>The pool refines a set of clients\<close>

lemma pool_refines_client:
  assumes inv: "simple_inv S" and c: "c \<in> set (ss_events S)"
    and run: "client_callback M P only_read c S = Inr (S', thrown)"
  shows "pool_step (served S) (served S') \<and>
      (\<forall>fd. fd \<notin> served S \<longrightarrow> os_fds (ss_os S') fd = os_fds (ss_os S) fd) \<and>
      (\<forall>fd \<in> served S. os_fds (ss_os S') fd = None \<longleftrightarrow> fd \<notin> served S')"
proof (cases only_read)
  case False
  with run have "S' = S" by (simp add: client_callback_def)
  then show ?thesis using served_open [OF inv] by (auto intro: pool_step.idle)
next
  case True
  with run have h: "simple_handle_client M P c S = Inr (S', thrown)" by (simp add: client_callback_def)
  obtain k where k: "ss_objs S c = Some k" by (rule event_object [OF inv c])
  from client_step [OF inv c k h]
  have sv: "served S' = served S \<or> served S' = served S - {client_fd k}" "client_fd k \<in> served S"
    and other: "\<And>fd. fd \<noteq> client_fd k \<Longrightarrow> os_fds (ss_os S') fd = os_fds (ss_os S) fd"
    and this_fd: "os_fds (ss_os S') (client_fd k) = None \<longleftrightarrow> client_fd k \<notin> served S'"
    by blast+
  have "pool_step (served S) (served S')"
    using sv pool_step.idle [of "served S"] pool_step.disconnect [OF sv(2)] by fastforce
  moreover have "os_fds (ss_os S') fd = None \<longleftrightarrow> fd \<notin> served S'" if "fd \<in> served S" for fd
  proof (cases "fd = client_fd k")
    case True
    show ?thesis unfolding True by (rule this_fd)
  next
    case False
    then have "fd \<in> served S'" using sv(1) that by blast
    with other [OF False] served_open [OF inv that] show ?thesis by metis
  qed
  moreover have "os_fds (ss_os S') fd = os_fds (ss_os S) fd" if "fd \<notin> served S" for fd
    using other [of fd] sv(2) that by blast
  ultimately show ?thesis by blast
qed

lemma pool_refines_listen:
  assumes inv: "simple_inv S" and new: "os_fds (ss_os S) fd = None"
    and run: "listen_callback only_read (Some (fd, s)) add_ok S = Inr S'"
  shows "pool_step (served S) (served S') \<and> (fd \<in> served S' \<longleftrightarrow> only_read \<and> add_ok)"
proof -
  have fd: "fd \<notin> served S" using served_open [OF inv, of fd] new by blast
  show ?thesis
  proof (cases only_read)
    case False
    with run have "S' = S" by (simp add: listen_callback_def)
    with False fd show ?thesis by (simp add: pool_step.idle)
  next
    case True
    with run have "handle_listen_sock (Some (fd, s)) add_ok S = Inr S'" by (simp add: listen_callback_def)
    from listen_step(1) [OF inv this] True fd show ?thesis
      by (cases add_ok) (simp_all add: pool_step.idle pool_step.connect)
  qed
qed

subsection \<open>Properties\<close>

text \<open>
  C31. The connection pool implements a set of clients: in every reachable state, handling an
  event of a client keeps the set of served descriptors or removes that client and closes its
  descriptor, touching no descriptor that is not served; and accepting adds the new
  descriptor or, when the reactor refuses it, changes nothing.
\<close>

theorem simple_pool_refines:
  assumes "simple_reachable M P w0 S"
  shows "(\<forall>c S' thrown. c \<in> set (ss_events S) \<longrightarrow>
      client_callback M P only_read c S = Inr (S', thrown) \<longrightarrow>
      pool_step (served S) (served S') \<and>
      (\<forall>fd. fd \<notin> served S \<longrightarrow> os_fds (ss_os S') fd = os_fds (ss_os S) fd) \<and>
      (\<forall>fd \<in> served S. os_fds (ss_os S') fd = None \<longleftrightarrow> fd \<notin> served S')) \<and>
    (\<forall>fd s add_ok S'. os_fds (ss_os S) fd = None \<longrightarrow>
      listen_callback only_read (Some (fd, s)) add_ok S = Inr S' \<longrightarrow>
      pool_step (served S) (served S') \<and>
      (fd \<in> served S' \<longleftrightarrow> only_read \<and> add_ok))"
  using pool_refines_client [OF simple_reachable_inv [OF assms]] pool_refines_listen [OF simple_reachable_inv [OF assms]]
  by blast

theorem simple_pool_refines_witness:
  "pool_step (served simple_start) (served (simple_serving [])) \<and> 5 \<in> served (simple_serving [])"
  using simple_pool_refines [OF simple_serving_reachable(1) [of little_host varint_protocol], of True]
    simple_serving_step [of "[]"]
  by (auto simp: quiet_os_def)

lemma expand_connection_alloc:
  assumes "\<And>n. can_alloc M n"
  obtains b' where "expand_connection_packet M b n = Inr (0, b')"
proof (cases "buf_size b < n \<or> buf_p b = None")
  case True
  obtain blk where "realloc M (buf_p b) (unat n) = Some blk" using assms by fastforce
  with True show ?thesis by (intro that [of "\<lparr>buf_p = Some blk, buf_size = n\<rparr>"])
      (simp add: expand_connection_packet_def)
next
  case False
  then have "expand_connection_packet M b n = Inr (0, b)" by (auto simp: expand_connection_packet_def)
  then show ?thesis by (rule that)
qed

text \<open>The state after a packet has been received, and after its metadata has been parsed.\<close>

definition simple_continue ::
  "machine \<Rightarrow> 'u protocol \<Rightarrow> nat \<Rightarrow> 'm sserver \<Rightarrow> ('m, 'u) answer \<Rightarrow> 'm simple_outcome" where
  "simple_continue M P c T ans =
     (case ans of
        Drop \<Rightarrow> and_then (destroy_rpc_connection c T) (\<lambda>S. Inr (S, None))
      | Reply resp rpc_resp \<Rightarrow>
          and_then (simple_respond_to_client M P resp (Some rpc_resp) c T) (\<lambda>S. Inr (S, None))
      | Throws what \<Rightarrow> Inr (T, Some what))"

lemma simple_packet_arrives:
  assumes "simple_inv S" and "c \<in> set (ss_events S)" and "ss_objs S c = Some k"
    and "to_read (client_fd k) (ss_os S) =
      frame (of_nat (length meta)) (of_nat (length param)) 0 (meta @ param) @ later"
    and "12 + length meta + length param < 4294967296" and "\<And>n. can_alloc M n"
  obtains b w tail where "exact_pbuf b"
    and "advanced (client_fd k) (frame (of_nat (length meta)) (of_nat (length param)) 0 (meta @ param)) (ss_os S) w"
    and "to_read (client_fd k) w = later"
    and "simple_handle_client M P c S =
      and_then (case ParseFromArray (proto_request P) meta of
          None \<Rightarrow> Inr Drop
        | Some rq \<Rightarrow> serve_request M P (ss_services S) (of_nat (length meta)) (of_nat (length param))
            (host_header M (of_nat (length meta)) (of_nat (length param)) 0 @ meta @ param @ tail) rq)
       (simple_continue M P c (with_buffer c k b w S))"
proof -
  have k: "os_fds (ss_os S) (client_fd k) \<noteq> None" "exact_pbuf (c_buf k)"
    using event_object [OF assms(1,2)] assms(3) by (metis option.inject)+
  obtain b1 where e: "expand_connection_packet M (c_buf k) (of_nat (12 + length meta + length param)) = Inr (0, b1)"
    by (rule expand_connection_alloc [OF assms(6)])
  obtain b w tail where r: "receive_packet expand_connection_packet M (client_fd k) (c_buf k) (ss_os S) =
      Inr (Some (of_nat (length meta), of_nat (length param)), b, w)"
    and b: "exact_pbuf b" "buf_p b = Some (host_header M (of_nat (length meta)) (of_nat (length param)) 0 @ meta @ param @ tail)"
    and w: "to_read (client_fd k) w = later"
      "advanced (client_fd k) (frame (of_nat (length meta)) (of_nat (length param)) 0 (meta @ param)) (ss_os S) w"
    by (rule connection_buffer.receive_arrives [OF k(2,1) assms(4,5) e])
  have "unat (of_nat (length meta) :: u32) = length meta" using assms(5) by (simp add: unat_of_nat_u32)
  note ps = metadata_loaded [OF b(2) this]
  have "simple_handle_client M P c S =
      and_then (parse_and_serve M P (ss_services S) (of_nat (length meta)) (of_nat (length param)) b)
       (simple_continue M P c (with_buffer c k b w S))"
    using assms(3) r unfolding simple_handle_client_def with_buffer_def simple_continue_def by (simp add: Let_def)
  then show ?thesis unfolding ps by (rule that [OF b(1) w(2,1)])
qed

lemma simple_request_arrives:
  assumes "simple_inv S" and "c \<in> set (ss_events S)" and "ss_objs S c = Some k"
    and "to_read (client_fd k) (ss_os S) =
      frame (of_nat (length meta)) (of_nat (length param)) 0 (meta @ param) @ later"
    and "12 + length meta + length param < 4294967296" and "\<And>n. can_alloc M n"
    and "ParseFromArray (proto_request P) meta = Some rq"
  obtains b w tail where "exact_pbuf b"
    and "advanced (client_fd k) (frame (of_nat (length meta)) (of_nat (length param)) 0 (meta @ param)) (ss_os S) w"
    and "to_read (client_fd k) w = later"
    and "simple_handle_client M P c S =
      and_then (serve_request M P (ss_services S) (of_nat (length meta)) (of_nat (length param))
        (host_header M (of_nat (length meta)) (of_nat (length param)) 0 @ meta @ param @ tail) rq)
       (simple_continue M P c (with_buffer c k b w S))"
  by (rule simple_packet_arrives [OF assms(1-6), where P = P]) (simp add: assms(7) that)

lemma simple_request_served:
  assumes "simple_reachable M P w0 S" and "c \<in> set (ss_events S)" and "ss_objs S c = Some k"
    and "to_read (client_fd k) (ss_os S) =
      frame (of_nat (length meta)) (of_nat (length param)) 0 (meta @ param) @ later"
    and "12 + length meta + length param < 4294967296" and "\<And>n. can_alloc M n"
    and "will_accept (client_fd k) (ss_os S)"
    and "sized (proto_response P)" and "all_sized (ss_services S)"
    and "expected_reply M P (ss_services S) meta param = Some reply" and "length reply < 4294967296"
  shows "\<exists>S'. client_callback M P True c S = Inr (S', None) \<and> served S' = served S \<and>
    ss_events S' = ss_events S \<and> to_read (client_fd k) (ss_os S') = later \<and>
    sent_to (client_fd k) (ss_os S') = sent_to (client_fd k) (ss_os S) @ reply"
proof -
  note inv = simple_reachable_inv [OF assms(1)]
  obtain rq cs md request ctl response where rq: "ParseFromArray (proto_request P) meta = Some rq"
    and target: "dispatch_to (ss_services S) (rq_method_identity rq) = Target cs md"
      "ParseFromArray (request_api md) param = Some request"
      "call_method md request (CarrotController_default (junk_callback M) (junk_u32 M)) (response_new md)
        = (ctl, response, None)"
    and reply: "reply_frame P (outcome_of ctl P) (response_api md) response = Some reply" "sized (response_api md)"
      "length reply = 12 + ByteSize (proto_response P) (outcome_of ctl P) + ByteSize (response_api md) response"
    by (rule expected_replyE [OF assms(10,8,9)])
  obtain b w tail where b: "exact_pbuf b" and w: "to_read (client_fd k) w = later"
      "advanced (client_fd k) (frame (of_nat (length meta)) (of_nat (length param)) 0 (meta @ param)) (ss_os S) w"
    and run: "simple_handle_client M P c S =
      and_then (serve_request M P (ss_services S) (of_nat (length meta)) (of_nat (length param))
        (host_header M (of_nat (length meta)) (of_nat (length param)) 0 @ meta @ param @ tail) rq)
       (simple_continue M P c (with_buffer c k b w S))"
    by (rule simple_request_arrives [OF inv assms(2-6) rq])
  have lens: "unat (of_nat (length meta) :: u32) = length meta"
    "unat (of_nat (length param) :: u32) = length param" using assms(5) by (simp_all add: unat_of_nat_u32)
  note served_req = parameter_loaded [OF target(1) lens target(2,3), of P]
  obtain b1 where e: "expand_connection_packet M b (of_nat (length reply)) = Inr (0, b1)"
    by (rule expand_connection_alloc [OF assms(6)])
  obtain b2 where br: "build_reply expand_connection_packet (\<lambda>x. x) M P (Some (response_api md, response))
      (Some (outcome_of ctl P)) b = Inr (Some reply, b2)"
    using connection_buffer.build_reply_outcome [OF b reply(3) assms(11) _ e, of "\<lambda>x. x"] reply(1,2) assms(8)
    by (auto simp: sized_def)
  have "will_accept (client_fd k) w" using w(2) assms(7) by (simp add: advanced_def will_accept_def)
  then obtain w2 where w2: "fd_write_n (client_fd k) reply w = (0, w2)"
    "touches (client_fd k) w w2" "sent_to (client_fd k) w2 = sent_to (client_fd k) w @ reply"
    "to_read (client_fd k) w2 = to_read (client_fd k) w"
    by (rule fd_write_all)
  have "simple_handle_client M P c S = Inr (with_buffer c k b2 w2 S, None)"
    unfolding run served_req using br w2(1)
    by (simp add: simple_continue_def simple_respond_to_client_def with_buffer_def Let_def put_sconn_def)
  moreover have "served (with_buffer c k b2 w2 S) = served S"
    by (rule served_with_buffer [OF inv assms(3)])
  ultimately show ?thesis
    using w w2 by (auto simp: client_callback_def with_buffer_def advanced_def)
qed

text \<open>
  C32. A request for a method that the simple server offers, sent by a connected client, is
  answered with the reply that \<open>expected_reply\<close> specifies: exactly those bytes are written to
  the client, the request is consumed and nothing after it, and the client stays connected,
  whatever its earlier requests were.
\<close>

theorem simple_request_answered:
  assumes "simple_reachable M P w0 S" and "c \<in> set (ss_events S)" and "ss_objs S c = Some k"
    and "to_read (client_fd k) (ss_os S) =
      frame (of_nat (length meta)) (of_nat (length param)) 0 (meta @ param) @ later"
    and "12 + length meta + length param < 4294967296" and "\<And>n. can_alloc M n"
    and "will_accept (client_fd k) (ss_os S)"
    and "sized (proto_response P)" and "all_sized (ss_services S)"
    and "expected_reply M P (ss_services S) meta param = Some reply" and "length reply < 4294967296"
  shows "\<exists>S'. client_callback M P True c S = Inr (S', None) \<and> served S' = served S \<and>
    ss_events S' = ss_events S \<and> to_read (client_fd k) (ss_os S') = later \<and>
    sent_to (client_fd k) (ss_os S') = sent_to (client_fd k) (ss_os S) @ reply"
  by (rule simple_request_served [OF assms])

lemma echo_expected_reply:
  "expected_reply little_host varint_protocol [''Echo'' \<mapsto> \<lparr>cs_s = echo_service, cs_c = None\<rparr>] echo_meta [1, 2, 3] =
     Some (frame 2 0 3 ([16, 1] @ [1, 2, 3]))"
proof -
  have ser: "SerializeToArray (proto_response varint_protocol) (outcome_of (CarrotController_default None 0) varint_protocol)
      (ByteSize (proto_response varint_protocol) (outcome_of (CarrotController_default None 0) varint_protocol))
      = Some [16, 1]"
    by code_simp
  have "reply_frame varint_protocol (outcome_of (CarrotController_default None 0) varint_protocol) bytes_api [1, 2, 3]
      = Some (frame 2 0 3 ([16, 1] @ [1, 2, 3]))"
    unfolding reply_frame_def ser by (simp add: bytes_api_def)
  moreover have "ParseFromArray bytes_api [1, 2, 3] = Some [1, 2, 3]" by (simp add: bytes_api_def)
  ultimately show ?thesis
    using echo_meta_parses echo_dispatch by (simp add: expected_reply_def echo_accept(3)) (simp add: echo_method_def)
qed

lemma echo_sized: "sized (proto_response varint_protocol)"
  "all_sized [''Echo'' \<mapsto> \<lparr>cs_s = echo_service, cs_c = None\<rparr>]"
proof -
  show "sized (proto_response varint_protocol)"
    unfolding varint_protocol_def using codec_sized [OF varint_response.response.message_codec_axioms] by simp
  have "sized bytes_api" by (rule codec_sized [OF bytes_codec.message_codec_axioms])
  then show "all_sized [''Echo'' \<mapsto> \<lparr>cs_s = echo_service, cs_c = None\<rparr>]"
    by (auto simp: all_sized_def echo_service_def echo_method_def fill_method_def split: if_splits)
qed

theorem simple_request_answered_witness:
  "\<exists>S'. client_callback little_host varint_protocol True 0 (simple_serving (frame 13 3 0 (echo_meta @ [1, 2, 3])))
      = Inr (S', None) \<and> sent_to 5 (ss_os S') = frame 2 0 3 ([16, 1] @ [1, 2, 3])"
proof -
  let ?S = "simple_serving (frame 13 3 0 (echo_meta @ [1, 2, 3]))"
  have st: "0 \<in> set (ss_events ?S)" "ss_objs ?S 0 = Some simple_conn" by (simp_all add: simple_serving_def)
  have tab: "ss_services ?S = [''Echo'' \<mapsto> \<lparr>cs_s = echo_service, cs_c = None\<rparr>]" by (simp add: simple_serving_def)
  have tr: "to_read (client_fd simple_conn) (ss_os ?S) =
      frame (of_nat (length echo_meta)) (of_nat (length [1, 2, 3 :: byte])) 0 (echo_meta @ [1, 2, 3]) @ []"
    by (simp add: simple_serving_def simple_conn_def to_read_def echo_meta_length)
  have small: "12 + length echo_meta + length [1, 2, 3 :: byte] < 4294967296" by (simp add: echo_meta_length)
  have wa: "will_accept (client_fd simple_conn) (ss_os ?S)"
    by (simp add: simple_serving_def simple_conn_def will_accept_def write_answers_def sock_with_def accepting_def)
  have "length (frame 2 0 3 ([16, 1] @ [1, 2, 3])) < 4294967296" by simp
  from simple_request_answered [OF simple_serving_reachable(2) st tr small example_hosts(3) wa
      echo_sized(1) _ _ this] echo_sized(2) echo_expected_reply
  show ?thesis
    unfolding tab by (auto simp: simple_conn_def simple_serving_def sent_to_def sock_with_def)
qed

lemma outcome_unparsable:
  assumes "response_wire L open_stream rest consumed str_ok enc_u64 enc_enum enc_str (proto_response P)"
    and "fresh_response P = Response_New L" and "str_ok ''''" and "str_ok ''server side failure''"
    and "SerializeToArray (proto_response P) (outcome_of ctl P) n = Some bs"
  shows "ParseFromArray (proto_response P) bs = None"
proof -
  have "Response_canonical L (outcome_of ctl P)" "str_ok (rs_message (outcome_of ctl P))"
    using assms(3,4) by (simp_all add: outcome_of_def assms(2) Response_canonical_def)
  from response_wire.response_parse [OF assms(1) this assms(5)] show ?thesis
    by (simp add: outcome_of_def assms(2) built_without_id)
qed

text \<open>
  The simple and the threaded server never set the \<open>id\<close> of a response, which rpc.proto
  makes required: whatever bytes their response records serialise to, parsing them fails, so
  every client of this repository rejects every reply of these servers.
\<close>

theorem replies_carry_no_id:
  assumes "response_wire L open_stream rest consumed str_ok enc_u64 enc_enum enc_str (proto_response P)"
    and "fresh_response P = Response_New L" and "str_ok ''''" and "str_ok ''server side failure''"
    and "SerializeToArray (proto_response P) (outcome_of ctl P) n = Some bs"
  shows "ParseFromArray (proto_response P) bs = None"
  by (rule outcome_unparsable [OF assms])

theorem replies_carry_no_id_witness:
  "SerializeToArray (proto_response varint_protocol)
     (outcome_of (CarrotController_default None 0) varint_protocol) 2 = Some [16, 1] \<and>
   ParseFromArray (proto_response varint_protocol) [16, 1] = None"
proof -
  have ser: "SerializeToArray (proto_response varint_protocol)
     (outcome_of (CarrotController_default None 0) varint_protocol) 2 = Some [16, 1]" by code_simp
  have wire: "response_wire varint_lib varint_open fst snd varint_str_ok enc_u64_value enc_enum_value
      enc_string (proto_response varint_protocol)"
    using varint_response.response_wire_axioms by (simp add: varint_protocol_def)
  have "fresh_response varint_protocol = Response_New varint_lib" by (simp add: varint_protocol_def)
  from replies_carry_no_id [OF wire this _ _ ser] ser show ?thesis by (simp add: varint_str_ok_def)
qed

text \<open>
  A client that disconnects in front of a complete header is given up: its descriptor is
  closed, its connection kept for reuse, and no other client is affected. Unless \<open>errno\<close> is
  \<open>EINTR\<close> when the end of its input is reached: then \<open>read_n\<close> never returns, and the only
  thread of the server serves nobody any more.
\<close>

theorem simple_client_leaves:
  assumes "simple_reachable M P w0 S" and "c \<in> set (ss_events S)" and "ss_objs S c = Some k"
    and "length (to_read (client_fd k) (ss_os S)) < 12"
  shows "if end_errno (client_fd k) (ss_os S) = EINTR then client_callback M P True c S = Inl Hang
    else \<exists>S'. client_callback M P True c S = Inr (S', None) \<and> served S' = served S - {client_fd k} \<and>
      os_fds (ss_os S') (client_fd k) = None \<and> last (ss_unused S') = c \<and>
      (\<forall>fd. fd \<noteq> client_fd k \<longrightarrow> os_fds (ss_os S') fd = os_fds (ss_os S) fd)"
proof -
  note inv = simple_reachable_inv [OF assms(1)]
  have k: "ss_in_use S c = Some c" "alive k" "os_fds (ss_os S) (client_fd k) \<noteq> None" "exact_pbuf (c_buf k)"
    using event_object [OF inv assms(2)] assms(3) by (metis option.inject)+
  note short = read_lengths_short [OF assms(4) k(3), of M]
  show ?thesis
  proof (cases "end_errno (client_fd k) (ss_os S) = EINTR")
    case True
    with short assms(3) show ?thesis
      by (simp add: gives_up_def stops_def client_callback_def simple_handle_client_def receive_packet_def)
  next
    case False
    with short obtain w where w: "read_lengths M (client_fd k) (ss_os S) = Inr (None, w)"
      "touches (client_fd k) (ss_os S) w" by (auto simp: gives_up_def stops_def)
    let ?T = "with_buffer c k (c_buf k) w S"
    have T: "ss_in_use ?T c = Some c" "ss_objs ?T c = Some k" using k(1) by (simp_all add: with_buffer_def)
    have inv': "simple_inv ?T" by (rule simple_inv_with_buffer [OF inv assms(3) k(4) w(2)])
    have os: "ss_os ?T = w" by (simp add: with_buffer_def)
    obtain S' where d: "destroy_rpc_connection c ?T = Inr S'" using destroy_result [OF T(2) k(2)] by blast
    have "client_callback M P True c S = Inr (S', None)"
      using assms(3) w(1) d
      by (simp add: client_callback_def simple_handle_client_def receive_packet_def with_buffer_def Let_def)
    moreover have "last (ss_unused S') = c"
      using destroy_result [OF T(2) k(2)] unfolding d by simp
    moreover have "served S' = served S - {client_fd k}"
      using served_destroy(1) [OF inv' T k(2) d] served_with_buffer [OF inv assms(3)] by simp
    moreover have "os_fds (ss_os S') = (os_fds w)(client_fd k := None)"
      using served_destroy(3) [OF inv' T k(2) d] os by simp
    ultimately show ?thesis using False w(2) by (simp add: touches_def)
  qed
qed

theorem simple_client_leaves_witness:
  "\<exists>S'. client_callback little_host varint_protocol True 0 (simple_serving [1, 2]) = Inr (S', None) \<and>
     os_fds (ss_os S') 5 = None"
proof -
  have "0 \<in> set (ss_events (simple_serving [1, 2]))" "ss_objs (simple_serving [1, 2]) 0 = Some simple_conn"
    by (simp_all add: simple_serving_def)
  moreover have "length (to_read (client_fd simple_conn) (ss_os (simple_serving [1, 2]))) < 12"
    by (simp add: simple_serving_def simple_conn_def to_read_def)
  moreover have "end_errno (client_fd simple_conn) (ss_os (simple_serving [1, 2])) \<noteq> EINTR"
    by (simp add: simple_serving_def simple_conn_def end_errno_def sock_with_def quiet_os_def EINTR_def)
  ultimately show ?thesis
    using simple_client_leaves [OF simple_serving_reachable(2) [of little_host varint_protocol "[1, 2]"],
        of 0 simple_conn]
    by (auto simp: simple_conn_def split: if_splits)
qed

lemma fd_read_length: "fd_read_n fd n w = Inr (r, bs, w') \<Longrightarrow> length bs \<le> n"
  by (auto simp: fd_read_n_def and_then_eq_Inr_iff dest!: read_n_result split: option.splits if_splits)

text \<open>
  The size of the block a connection holds after \<open>expand_connection_packet\<close> for \<open>n\<close> bytes: a
  connection taken from \<open>conns_unused\<close> keeps the block of its earlier clients.
\<close>

definition block_room :: "pbuf \<Rightarrow> u32 \<Rightarrow> nat" where
  "block_room b n = (if buf_p b = None then unat n else max (unat (buf_size b)) (unat n))"

lemma expand_connection_room:
  assumes "exact_pbuf b" and "expand_connection_packet M b n = Inr (0, b')"
  obtains blk where "buf_p b' = Some blk" and "length blk = block_room b n"
proof (cases "buf_size b < n \<or> buf_p b = None")
  case True
  then obtain blk where "realloc M (buf_p b) (unat n) = Some blk" "b' = \<lparr>buf_p = Some blk, buf_size = n\<rparr>"
    using assms(2) by (auto simp: expand_connection_packet_def split: option.splits)
  with True show ?thesis
    by (intro that [of blk]) (auto simp: block_room_def word_less_nat_alt max_def dest: realloc_eq_Some)
next
  case False
  then obtain blk where "buf_p b = Some blk" by auto
  with False assms show ?thesis
    by (intro that [of blk])
      (auto simp: expand_connection_packet_def exact_pbuf_def block_room_def word_less_nat_alt not_less)
qed

text \<open>What the last read of \<open>handle_client\<close> stores when the sum has wrapped to less than a header.\<close>

lemma wrapped_payload_stored:
  assumes "to_read fd w = later" and "os_fds w fd \<noteq> None" and "end_errno fd w \<noteq> EINTR"
    and "unat n < 12" and "length blk < 4294967296"
  obtains r bs w' where "fd_read_n fd (unat (payload_size n)) w = Inr (r, bs, w')"
    and "store_at off_data bs blk = Inl OutOfBounds \<longleftrightarrow> length blk < 12 + length later"
proof -
  have huge: "4294967296 \<le> unat (payload_size n)"
  proof -
    have "unat (ucast n :: u64) < 12" using assms(4) by simp
    moreover have "payload_size n = (ucast n :: u64) - 12" by (simp add: payload_size_def sizeof_packet_def)
    ultimately show ?thesis by (simp add: unat_sub_if')
  qed
  show ?thesis
  proof (cases "length later < unat (payload_size n)")
    case True
    with fd_read_too_little [of fd w, unfolded assms(1), OF this] assms(3) obtain w' where
      "fd_read_n fd (unat (payload_size n)) w = Inr (-1, later, w')" by fastforce
    then show ?thesis by (rule that) (simp add: store_at_def off_data_def not_le)
  next
    case False
    define m where "m = unat (payload_size n)"
    have m: "m \<le> length later" "length blk < m" using False huge assms(5) unfolding m_def by linarith+
    have parts: "to_read fd w = take m later @ drop m later" by (simp add: assms(1))
    have len: "length (take m later) = m" using m(1) by (simp add: min_def)
    obtain w' where w': "fd_read_n fd m w = Inr (0, take m later, w')"
      by (rule fd_read_enough [OF parts assms(2)]) (simp only: len)
    from len have "store_at off_data (take m later) blk = Inl OutOfBounds" "length blk < 12 + length later"
      using m by (simp_all add: store_at_def)
    with w' show ?thesis unfolding m_def by (intro that) simp_all
  qed
qed



text \<open>
  A request for something the simple server does not offer (an identity without a dot, an
  unknown service, an unknown method) makes it dereference a null pointer, in the log
  statement of \<open>respond_to_client\<close>, before it can reply \<open>NOT_FOUND\<close>.
\<close>

theorem simple_unknown_method_crashes:
  assumes "simple_reachable M P w0 S" and "c \<in> set (ss_events S)" and "ss_objs S c = Some k"
    and "to_read (client_fd k) (ss_os S) =
      frame (of_nat (length meta)) (of_nat (length param)) 0 (meta @ param) @ later"
    and "12 + length meta + length param < 4294967296" and "\<And>n. can_alloc M n"
    and "ParseFromArray (proto_request P) meta = Some rq"
    and "\<forall>cs md. dispatch_to (ss_services S) (rq_method_identity rq) \<noteq> Target cs md"
  shows "client_callback M P True c S = Inl NullDeref"
proof -
  obtain b w tail where run: "simple_handle_client M P c S =
      and_then (serve_request M P (ss_services S) (of_nat (length meta)) (of_nat (length param))
        (host_header M (of_nat (length meta)) (of_nat (length param)) 0 @ meta @ param @ tail) rq)
       (simple_continue M P c (with_buffer c k b w S))"
    by (rule simple_request_arrives [OF simple_reachable_inv [OF assms(1)] assms(2-7)])
  obtain rr where "serve_request M P (ss_services S) (of_nat (length meta)) (of_nat (length param))
      (host_header M (of_nat (length meta)) (of_nat (length param)) 0 @ meta @ param @ tail) rq = Inr (Reply None rr)"
    by (rule unknown_method_reply [OF assms(8)])
  with run show ?thesis
    by (simp add: client_callback_def simple_continue_def simple_respond_to_client_def with_buffer_def
        no_response_faults)
qed

theorem simple_unknown_method_crashes_witness:
  "client_callback little_host varint_protocol True 0
     (simple_serving (frame (of_nat (length bare_meta)) 0 0 bare_meta)) = Inl NullDeref"
proof -
  let ?S = "simple_serving (frame (of_nat (length bare_meta)) 0 0 bare_meta)"
  have st: "0 \<in> set (ss_events ?S)" "ss_objs ?S 0 = Some simple_conn" by (simp_all add: simple_serving_def)
  have tr: "to_read (client_fd simple_conn) (ss_os ?S) =
      frame (of_nat (length bare_meta)) (of_nat (length [])) 0 (bare_meta @ []) @ []"
    by (simp add: simple_serving_def simple_conn_def to_read_def)
  have "length bare_meta < 100" by code_simp
  then have small: "12 + length bare_meta + length ([] :: byte list) < 4294967296" by simp
  have "\<forall>cs md. dispatch_to (ss_services ?S) (rq_method_identity bare_request) \<noteq> Target cs md"
    by (simp add: simple_serving_def dispatch_to_def bare_request_def)
  from simple_unknown_method_crashes [OF simple_serving_reachable(2) st tr small example_hosts(3)
      bare_meta_parses this] show ?thesis .
qed

lemma delete_sconns_result:
  assumes "distinct cs" and "set cs \<subseteq> dom (ss_objs S)"
  shows "\<exists>S'. delete_sconns cs S = Inr S' \<and> ss_objs S' = ss_objs S |` (- set cs) \<and>
    (\<forall>fd. os_fds (ss_os S') fd =
      (if \<exists>c \<in> set cs. \<exists>k. ss_objs S c = Some k \<and> alive k \<and> client_fd k = fd then None
       else os_fds (ss_os S) fd)) \<and>
    ss_in_use S' = ss_in_use S \<and> ss_next S' = ss_next S"
  using assms
proof (induction cs arbitrary: S)
  case Nil
  then show ?case by simp
next
  case (Cons c cs)
  obtain k where k: "ss_objs S c = Some k" using Cons.prems(2) by auto
  define S1 where "S1 = (if alive k then S\<lparr>ss_os := snd (fd_close (client_fd k) (ss_os S))\<rparr> else S)
      \<lparr>ss_objs := (ss_objs S)(c := None)\<rparr>"
  have del: "delete_sconn c S = Inr S1"
    using k by (simp add: delete_sconn_def Let_def S1_def)
  have S1: "ss_objs S1 = (ss_objs S)(c := None)" "ss_in_use S1 = ss_in_use S" "ss_next S1 = ss_next S"
    "os_fds (ss_os S1) = (if alive k then (os_fds (ss_os S))(client_fd k := None) else os_fds (ss_os S))"
    by (simp_all add: S1_def fd_close_fds)
  have "set cs \<subseteq> dom (ss_objs S1)" using Cons.prems by (auto simp: S1)
  from Cons.IH [OF _ this] Cons.prems(1) obtain S' where
    S': "delete_sconns cs S1 = Inr S'" "ss_objs S' = ss_objs S1 |` (- set cs)"
      "\<And>fd. os_fds (ss_os S') fd =
        (if \<exists>c \<in> set cs. \<exists>k. ss_objs S1 c = Some k \<and> alive k \<and> client_fd k = fd then None
         else os_fds (ss_os S1) fd)"
      "ss_in_use S' = ss_in_use S1" "ss_next S' = ss_next S1"
    by auto
  have objs: "ss_objs S1 x = ss_objs S x" if "x \<in> set cs" for x
    using that Cons.prems(1) by (auto simp: S1)
  have "os_fds (ss_os S') fd =
      (if \<exists>x \<in> set (c # cs). \<exists>k. ss_objs S x = Some k \<and> alive k \<and> client_fd k = fd then None
       else os_fds (ss_os S) fd)" for fd
  proof -
    have "(\<exists>x \<in> set (c # cs). \<exists>k. ss_objs S x = Some k \<and> alive k \<and> client_fd k = fd) \<longleftrightarrow>
        alive k \<and> client_fd k = fd \<or> (\<exists>x \<in> set cs. \<exists>k. ss_objs S1 x = Some k \<and> alive k \<and> client_fd k = fd)"
      using k objs by auto
    then show ?thesis by (auto simp: S'(3) S1(4))
  qed
  moreover have "ss_objs S' = ss_objs S |` (- set (c # cs))"
    by (simp add: S'(2) S1(1) fun_eq_iff restrict_map_def)
  ultimately show ?case using S' S1 del by (intro exI [of _ S']) simp
qed

lemma used_connection:
  assumes "simple_inv S" and "c \<in> dom (ss_in_use S)"
  obtains k where "ss_objs S c = Some k" and "alive k" and "client_of S c = Some (client_fd k)"
    and "c < ss_next S" and "c \<notin> set (ss_unused S)"
proof -
  obtain k where k: "ss_objs S c = Some k" "alive k"
    using assms(2) simple_invD(2) [OF assms(1), of c] by auto
  moreover have "c \<notin> set (ss_unused S)" using k simple_invD(3) [OF assms(1), of c] by auto
  ultimately show ?thesis
    using that client_of_in_use [OF assms(1) k(1)] assms(2) simple_invD(8) [OF assms(1) k(1)] by auto
qed

lemma in_use_list_is:
  assumes "simple_inv S" and "ss_in_use T = ss_in_use S" and "ss_next T = ss_next S"
  shows "set (in_use_list T) = dom (ss_in_use S)" and "distinct (in_use_list T)"
proof -
  have used: "ss_in_use S c = (if c \<in> dom (ss_in_use S) then Some c else None)" for c
    using simple_invD(1) [OF assms(1), of c] by auto
  have "List.map_filter (ss_in_use S) xs = filter (\<lambda>c. c \<in> dom (ss_in_use S)) xs" for xs
    using used by (induction xs) (auto simp: List.map_filter_simps split: option.split)
  then have eq: "in_use_list T = filter (\<lambda>c. c \<in> dom (ss_in_use S)) [0..<ss_next S]"
    by (simp add: in_use_list_def assms(2,3))
  show "set (in_use_list T) = dom (ss_in_use S)"
    unfolding eq using used_connection [OF assms(1)] by (auto simp del: domIff)
  show "distinct (in_use_list T)" unfolding eq by simp
qed

lemma served_iff:
  assumes "simple_inv S"
  shows "fd \<in> served S \<longleftrightarrow>
    (\<exists>c \<in> dom (ss_in_use S). \<exists>k. ss_objs S c = Some k \<and> alive k \<and> client_fd k = fd)"
proof
  assume "fd \<in> served S"
  then obtain c where c: "client_of S c = Some fd" by (auto simp: served_def)
  then have dom: "c \<in> dom (ss_in_use S)" by (auto simp: client_of_def split: option.splits)
  obtain k where "ss_objs S c = Some k" "alive k" "client_of S c = Some (client_fd k)"
    by (rule used_connection [OF assms dom])
  with c dom show "\<exists>c \<in> dom (ss_in_use S). \<exists>k. ss_objs S c = Some k \<and> alive k \<and> client_fd k = fd" by auto
next
  assume "\<exists>c \<in> dom (ss_in_use S). \<exists>k. ss_objs S c = Some k \<and> alive k \<and> client_fd k = fd"
  then obtain c k where c: "c \<in> dom (ss_in_use S)" "ss_objs S c = Some k" "client_fd k = fd" by auto
  obtain k' where "ss_objs S c = Some k'" "client_of S c = Some (client_fd k')"
    by (rule used_connection [OF assms c(1)])
  with c show "fd \<in> served S" by (auto simp: served_def)
qed

lemma simple_delete_result:
  assumes "simple_inv S"
  shows "\<exists>S'. CarrotSimpleServer_delete S = Inr S' \<and> ss_objs S' = (\<lambda>_. None) \<and>
    (\<forall>fd. os_fds (ss_os S') fd = (if fd \<in> served S then None else os_fds (ss_os S) fd))"
proof -
  define S1 where "S1 = S\<lparr>ss_events := []\<rparr>"
  have S1: "ss_objs S1 = ss_objs S" "ss_unused S1 = ss_unused S" "ss_os S1 = ss_os S"
    "ss_in_use S1 = ss_in_use S" "ss_next S1 = ss_next S" by (simp_all add: S1_def)
  have "set (ss_unused S1) \<subseteq> dom (ss_objs S1)" "distinct (ss_unused S1)"
    using simple_invD(4,7) [OF assms] by (auto simp: S1)
  from delete_sconns_result [OF this(2,1)] obtain S2 where
    S2: "delete_sconns (ss_unused S1) S1 = Inr S2" "ss_objs S2 = ss_objs S1 |` (- set (ss_unused S1))"
      "\<And>fd. os_fds (ss_os S2) fd =
        (if \<exists>c \<in> set (ss_unused S1). \<exists>k. ss_objs S1 c = Some k \<and> alive k \<and> client_fd k = fd then None
         else os_fds (ss_os S1) fd)"
      "ss_in_use S2 = ss_in_use S" "ss_next S2 = ss_next S"
    by (auto simp: S1)
  have os2: "os_fds (ss_os S2) fd = os_fds (ss_os S) fd" for fd
    using simple_invD(3) [OF assms] by (fastforce simp: S2(3) S1)
  note iu = in_use_list_is [OF assms S2(4,5)]
  have o2: "ss_objs S2 c = ss_objs S c" if "c \<in> dom (ss_in_use S)" for c
    using used_connection [OF assms that] by (auto simp: S2(2) S1 restrict_map_def)
  have "set (in_use_list S2) \<subseteq> dom (ss_objs S2)"
    unfolding iu(1) using simple_invD(7) [OF assms] o2 by (auto simp: dom_def) blast
  from delete_sconns_result [OF iu(2) this] obtain S3 where
    S3: "delete_sconns (in_use_list S2) S2 = Inr S3" "ss_objs S3 = ss_objs S2 |` (- dom (ss_in_use S))"
      "\<And>fd. os_fds (ss_os S3) fd =
        (if \<exists>c \<in> dom (ss_in_use S). \<exists>k. ss_objs S2 c = Some k \<and> alive k \<and> client_fd k = fd then None
         else os_fds (ss_os S2) fd)"
    unfolding iu(1) by auto
  have "(\<exists>c \<in> dom (ss_in_use S). \<exists>k. ss_objs S2 c = Some k \<and> alive k \<and> client_fd k = fd) \<longleftrightarrow> fd \<in> served S"
    for fd
    using o2 unfolding served_iff [OF assms] by (metis (no_types, lifting))
  then have "os_fds (ss_os S3) fd = (if fd \<in> served S then None else os_fds (ss_os S) fd)" for fd
    by (simp add: S3(3) os2)
  moreover have "ss_objs S3 c = None" for c
    using simple_invD(7) [OF assms]
    by (cases "c \<in> dom (ss_objs S)") (auto simp: S3(2) S2(2) S1 restrict_map_def)
  moreover have "CarrotSimpleServer_delete S = Inr S3"
    using S2(1) S3(1) by (simp add: CarrotSimpleServer_delete_def S1_def Let_def)
  ultimately show ?thesis by (intro exI [of _ S3]) auto
qed

text \<open>
  C39. The destructor of the simple server never touches a freed object, whatever the server
  has been through: it deletes every connection exactly once and closes exactly the
  descriptors of the clients still connected.
\<close>

theorem simple_destructor_closes:
  assumes "simple_reachable M P w0 S"
  shows "\<exists>S'. CarrotSimpleServer_delete S = Inr S' \<and> ss_objs S' = (\<lambda>_. None) \<and>
    (\<forall>fd. os_fds (ss_os S') fd = (if fd \<in> served S then None else os_fds (ss_os S) fd))"
  by (rule simple_delete_result [OF simple_reachable_inv [OF assms]])

theorem simple_destructor_closes_witness:
  "\<exists>S'. CarrotSimpleServer_delete (simple_serving []) = Inr S' \<and> os_fds (ss_os S') 5 = None"
proof -
  have "5 \<in> served (simple_serving [])"
    by (auto simp: served_def client_of_def simple_serving_def simple_conn_def intro: exI [of _ 0])
  with simple_destructor_closes [OF simple_serving_reachable(2) [of little_host varint_protocol "[]"]]
  show ?thesis by (metis (no_types, lifting))
qed

text \<open>
  A client that the reactor refuses is forgotten with its descriptor open: the descriptor
  belongs to no connection and none of the server's handlers will ever touch it.
\<close>

theorem refused_client_leaks:
  assumes "simple_reachable M P w0 S" and "os_fds (ss_os S) fd = None"
    and "listen_callback True (Some (fd, s)) False S = Inr S'"
  shows "os_fds (ss_os S') fd = Some s \<and> fd \<notin> served S' \<and>
    (\<forall>c T thrown. c \<in> set (ss_events S') \<longrightarrow> client_callback M P only_read c S' = Inr (T, thrown) \<longrightarrow>
      os_fds (ss_os T) fd = Some s \<and> fd \<notin> served T) \<and>
    (\<exists>T. CarrotSimpleServer_delete S' = Inr T \<and> os_fds (ss_os T) fd = Some s)"
proof -
  note inv = simple_reachable_inv [OF assms(1)]
  have h: "handle_listen_sock (Some (fd, s)) False S = Inr S'"
    using assms(3) by (simp add: listen_callback_def)
  note step = listen_step [OF inv h]
  have inv': "simple_inv S'" by (rule simple_inv_listen [OF inv assms(2) h])
  have out: "fd \<notin> served S'" "os_fds (ss_os S') fd = Some s"
    using step served_open [OF inv, of fd] assms(2) by auto
  moreover have "os_fds (ss_os T) fd = Some s \<and> fd \<notin> served T"
    if c: "c \<in> set (ss_events S')" and run: "client_callback M P only_read c S' = Inr (T, thrown)" for c T thrown
  proof (cases only_read)
    case False
    with run out show ?thesis by (simp add: client_callback_def)
  next
    case True
    with run have handled: "simple_handle_client M P c S' = Inr (T, thrown)" by (simp add: client_callback_def)
    obtain k where k: "ss_objs S' c = Some k" by (rule event_object [OF inv' c])
    from client_step [OF inv' c k handled]
    have sv: "served T \<subseteq> served S'" "client_fd k \<in> served S'"
      and other: "\<And>x. x \<noteq> client_fd k \<Longrightarrow> os_fds (ss_os T) x = os_fds (ss_os S') x" by blast+
    have "fd \<noteq> client_fd k" using out(1) sv(2) by blast
    with out other sv(1) show ?thesis by auto
  qed
  moreover have "\<exists>T. CarrotSimpleServer_delete S' = Inr T \<and> os_fds (ss_os T) fd = Some s"
    using simple_delete_result [OF inv'] out by auto
  ultimately show ?thesis by blast
qed

theorem refused_client_leaks_witness:
  "\<exists>S' T. listen_callback True (Some (5, sock_with [])) False simple_start = Inr S' \<and>
     CarrotSimpleServer_delete S' = Inr T \<and> os_fds (ss_os T) 5 = Some (sock_with [])"
proof -
  have free: "os_fds (ss_os simple_start) 5 = None" by (simp add: quiet_os_def)
  obtain S' where "listen_callback True (Some (5, sock_with [])) False simple_start = Inr S'"
    by (simp add: listen_callback_def handle_listen_sock_def Let_def)
  with refused_client_leaks [OF simple_serving_reachable(1) [of little_host varint_protocol] free this, of True]
  show ?thesis by blast
qed

end
