(* ===== verification/Threaded_Server.thy ===== *)
theory Threaded_Server
  imports Simple_Server_Requests
begin

section \<open>The threaded server: src/src/server/carrot_threaded_server.h and .cpp\<close>

text \<open>
  One thread per client, each running \<open>handle_client\<close> over blocking descriptors, and the main
  thread accepting in \<open>Run\<close>. First the work of one thread on its own, as a loop that is shown
  to end; then the threads together, as interleaved steps, because they share the process's
  descriptors. An iteration of the loop is one step: the interleavings inside it are those of
  threads that use different descriptors. What follows for a client among others is in
  \<open>Threaded_Interleaving\<close>.
\<close>

subsection \<open>One thread\<close>

definition destroy_connection :: "nat \<Rightarrow> os \<Rightarrow> os" where
  "destroy_connection fd w = snd (fd_close fd w)"

text \<open>The lengths are kept in \<open>uint32_t\<close>.\<close>

definition in_u32 :: "nat \<Rightarrow> nat" where
  "in_u32 n = unat (of_nat n :: u32)"

definition threaded_respond_to_client ::
  "machine \<Rightarrow> 'u protocol \<Rightarrow> ('m message_api \<times> 'm) option \<Rightarrow> 'u Response option \<Rightarrow> nat \<Rightarrow> pbuf \<Rightarrow> os \<Rightarrow>
   (pbuf \<times> os) res" where
  "threaded_respond_to_client M P resp rpc_resp fd b w =
     and_then (build_reply expand_packet in_u32 M P resp rpc_resp b) (\<lambda>(out, b).
       case out of
         None \<Rightarrow> Inr (b, destroy_connection fd w)
       | Some bs \<Rightarrow>
           (case fd_write_n fd bs w of (r, w) \<Rightarrow>
              Inr (b, if r = -1 then destroy_connection fd w else w)))"

text \<open>How an iteration of the loop ends: at \<open>break\<close>, at the end or a \<open>continue\<close>, or by an exception.\<close>

datatype round = Break | Continue | Thrown string

definition threaded_round ::
  "machine \<Rightarrow> 'u protocol \<Rightarrow> 'm services \<Rightarrow> nat \<Rightarrow> pbuf \<Rightarrow> os \<Rightarrow> (round \<times> pbuf \<times> os) res" where
  "threaded_round M P tab fd b w =
     and_then (receive_packet expand_packet M fd b w) (\<lambda>(got, b, w).
     case got of
       None \<Rightarrow> Inr (Break, b, destroy_connection fd w)
     | Some (rpc_len, req_len) \<Rightarrow>
         and_then (parse_and_serve M P tab rpc_len req_len b) (\<lambda>ans.
         case ans of
           Drop \<Rightarrow> Inr (Continue, b, destroy_connection fd w)
         | Reply resp rpc_resp \<Rightarrow>
             and_then (threaded_respond_to_client M P resp (Some rpc_resp) fd b w) (\<lambda>(b, w).
               Inr (Continue, b, w))
         | Throws what \<Rightarrow> Inr (Thrown what, b, w)))"

text \<open>
  \<open>handle_client\<close>, with the values that the tests of \<open>stopped\<close> read. An exception leaves the
  thread's function, which ends the process; the final \<open>destroy_connection\<close> and \<open>free\<close> are
  then not reached. Every iteration that continues has consumed a header.
\<close>

lemma fd_read_takes:
  assumes "fd_read_n fd n w = Inr (r, bs, w')" and "r \<noteq> -1"
  shows "length (to_read fd w) = n + length (to_read fd w')"
proof (cases "os_fds w fd")
  case None
  with assms show ?thesis by (auto simp: fd_read_n_def to_read_def split: if_splits)
next
  case (Some s)
  then show ?thesis
    using assms read_n_result
    by (fastforce simp: fd_read_n_def to_read_def and_then_eq_Inr_iff)
qed

lemma read_lengths_takes:
  assumes "read_lengths M fd w = Inr (Some ls, w')"
  shows "length (to_read fd w) = 12 + length (to_read fd w')"
  using assms unfolding read_lengths_def
  by (auto simp: and_then_eq_Inr_iff split: if_splits dest!: fd_read_takes)

lemma receive_takes:
  assumes "receive_packet expand M fd b w = Inr (Some ls, b', w')"
  shows "12 + length (to_read fd w') \<le> length (to_read fd w)"
proof -
  obtain got w1 where 1: "read_lengths M fd w = Inr (got, w1)"
    using assms by (auto simp: receive_packet_def and_then_eq_Inr_iff)
  then obtain x y z where got: "got = Some (x, y, z)"
    using assms by (cases got) (auto simp: receive_packet_def)
  obtain n r bs where "fd_read_n fd n w1 = Inr (r, bs, w')" "r \<noteq> -1"
    using assms 1 got
    by (auto simp: receive_packet_def and_then_eq_Inr_iff Let_def split: if_splits)
  with fd_read_takes read_lengths_takes [OF 1 [unfolded got]] show ?thesis by fastforce
qed

lemma to_read_closed [simp]: "to_read fd (destroy_connection fd w) = []"
  by (simp add: to_read_def destroy_connection_def fd_close_fds)

lemma fd_write_keeps_input: "fd_write_n fd bs w = (r, w') \<Longrightarrow> to_read fd w' = to_read fd w"
  by (auto simp: fd_write_n_def to_read_def split: option.splits if_splits prod.splits
      dest!: write_n_sent)

lemma threaded_respond_result:
  assumes "threaded_respond_to_client M P resp rr fd b w = Inr (b', w')"
  obtains w1 where "touches fd w w1" and "to_read fd w1 = to_read fd w"
    and "w' = w1 \<or> w' = destroy_connection fd w1"
proof -
  obtain out b1 where b: "build_reply expand_packet in_u32 M P resp rr b = Inr (out, b1)"
    using assms by (auto simp: threaded_respond_to_client_def and_then_eq_Inr_iff)
  show ?thesis
  proof (cases out)
    case None
    with assms b show ?thesis by (intro that [of w]) (auto simp: threaded_respond_to_client_def)
  next
    case (Some bs)
    obtain r w1 where w1: "fd_write_n fd bs w = (r, w1)" by fastforce
    show ?thesis
      by (rule that [OF fd_write_touches [OF w1] fd_write_keeps_input [OF w1]])
        (use assms b Some w1 in \<open>auto simp: threaded_respond_to_client_def split: if_splits\<close>)
  qed
qed

lemma threaded_round_takes:
  assumes "threaded_round M P tab fd b w = Inr (Continue, b', w')"
  shows "length (to_read fd w') < length (to_read fd w)"
proof -
  obtain got b1 w1 where r: "receive_packet expand_packet M fd b w = Inr (got, b1, w1)"
    using assms by (auto simp: threaded_round_def and_then_eq_Inr_iff)
  then obtain ls where got: "got = Some ls" using assms by (cases got) (auto simp: threaded_round_def)
  note le = receive_takes [OF r [unfolded got]]
  obtain x y where ls: "ls = (x, y)" by (cases ls)
  obtain ans where a: "parse_and_serve M P tab x y b1 = Inr ans"
    using assms r got ls by (auto simp: threaded_round_def and_then_eq_Inr_iff)
  have "to_read fd w' = to_read fd w1 \<or> to_read fd w' = []"
  proof (cases ans)
    case (Reply resp rr)
    then have "threaded_respond_to_client M P resp (Some rr) fd b1 w1 = Inr (b', w')"
      using assms r got ls a by (auto simp: threaded_round_def and_then_eq_Inr_iff)
    then show ?thesis by (rule threaded_respond_result) auto
  qed (use assms r got ls a in \<open>auto simp: threaded_round_def\<close>)
  with le show ?thesis by auto
qed

function threaded_loop ::
  "machine \<Rightarrow> 'u protocol \<Rightarrow> 'm services \<Rightarrow> (nat \<Rightarrow> bool) \<Rightarrow> nat \<Rightarrow> pbuf \<Rightarrow> os \<Rightarrow> (string option \<times> os) res" where
  "threaded_loop M P tab stopped fd b w =
     (if stopped 0 then Inr (None, w)
      else
        (case threaded_round M P tab fd b w of
           Inl e \<Rightarrow> Inl e
         | Inr (Break, b, w) \<Rightarrow> Inr (None, w)
         | Inr (Continue, b, w) \<Rightarrow> threaded_loop M P tab (\<lambda>i. stopped (Suc i)) fd b w
         | Inr (Thrown what, b, w) \<Rightarrow> Inr (Some what, w)))"
  by pat_completeness auto
termination
  by (relation "measure (\<lambda>(M, P, tab, stopped, fd, b, w). length (to_read fd w))")
    (auto dest: threaded_round_takes)

declare threaded_loop.simps [simp del]

definition threaded_handle_client ::
  "machine \<Rightarrow> 'u protocol \<Rightarrow> 'm services \<Rightarrow> (nat \<Rightarrow> bool) \<Rightarrow> nat \<Rightarrow> os \<Rightarrow> (string option \<times> os) res" where
  "threaded_handle_client M P tab stopped fd w =
     and_then (threaded_loop M P tab stopped fd null_buf w) (\<lambda>(thrown, w).
       case thrown of
         None \<Rightarrow> Inr (None, destroy_connection fd w)
       | Some what \<Rightarrow> Inr (Some what, w))"

subsection \<open>The threads together\<close>

text \<open>
  \<open>Leaving\<close>: after the loop, before the final \<open>destroy_connection\<close>. The descriptors are the
  process's, so what one thread closes is closed for all. But \<open>errno\<close> is a thread's own: a step
  runs with the thread's value and leaves the one in \<open>ts_os\<close>, the main thread's, alone.
\<close>

datatype phase = Looping | Leaving

record thread =
  th_fd :: nat
  th_buf :: pbuf
  th_phase :: phase
  th_errno :: nat

record 'm tserver =
  ts_services :: "'m services"
  ts_stopped :: bool
  ts_threads :: "nat \<Rightarrow> thread option"
  ts_next :: nat
  ts_os :: os

definition CarrotThreadedServer_new :: "os \<Rightarrow> 'm tserver" where
  "CarrotThreadedServer_new w =
     \<lparr>ts_services = (\<lambda>_. None), ts_stopped = True, ts_threads = (\<lambda>_. None), ts_next = 0, ts_os = w\<rparr>"

definition put_thread :: "nat \<Rightarrow> thread option \<Rightarrow> os \<Rightarrow> 'm tserver \<Rightarrow> 'm tserver" where
  "put_thread t th w S =
     S\<lparr>ts_threads := (ts_threads S)(t := th), ts_os := w\<lparr>os_errno := os_errno (ts_os S)\<rparr>\<rparr>"

definition thread_os :: "thread \<Rightarrow> 'm tserver \<Rightarrow> os" where
  "thread_os th S = (ts_os S)\<lparr>os_errno := th_errno th\<rparr>"

definition thread_step ::
  "machine \<Rightarrow> 'u protocol \<Rightarrow> nat \<Rightarrow> 'm tserver \<Rightarrow> ('m tserver \<times> string option) res" where
  "thread_step M P t S =
     and_then (deref (ts_threads S t)) (\<lambda>th.
       case th_phase th of
         Leaving \<Rightarrow> Inr (put_thread t None (destroy_connection (th_fd th) (thread_os th S)) S, None)
       | Looping \<Rightarrow>
           (if ts_stopped S then Inr (put_thread t (Some (th\<lparr>th_phase := Leaving\<rparr>)) (ts_os S) S, None)
            else
              and_then (threaded_round M P (ts_services S) (th_fd th) (th_buf th) (thread_os th S)) (\<lambda>(r, b, w).
                let th1 = th\<lparr>th_buf := b, th_errno := os_errno w\<rparr> in
                case r of
                  Break \<Rightarrow> Inr (put_thread t (Some (th1\<lparr>th_phase := Leaving\<rparr>)) w S, None)
                | Continue \<Rightarrow> Inr (put_thread t (Some th1) w S, None)
                | Thrown what \<Rightarrow> Inr (put_thread t (Some th1) w S, Some what))))"

text \<open>
  One turn of the loop of \<open>Run\<close>: what \<open>accept\<close> returns, and whether \<open>Run\<close> goes on. The new
  thread is detached, so nobody waits for it.
\<close>

definition threaded_Run_turn :: "(nat \<times> sock) option \<Rightarrow> 'm tserver \<Rightarrow> bool \<times> 'm tserver" where
  "threaded_Run_turn accepted S =
     (if ts_stopped S then (False, S)
      else
        (case accepted of
           None \<Rightarrow> (False, S)
         | Some (fd, s) \<Rightarrow>
             (True, (put_thread (ts_next S) (Some \<lparr>th_fd = fd, th_buf = null_buf, th_phase = Looping, th_errno = 0\<rparr>)
                       ((ts_os S)\<lparr>os_fds := (os_fds (ts_os S))(fd \<mapsto> s)\<rparr>) S)\<lparr>ts_next := Suc (ts_next S)\<rparr>)))"

definition threaded_Run_start :: "'m tserver \<Rightarrow> 'm tserver" where
  "threaded_Run_start S = S\<lparr>ts_stopped := False\<rparr>"

definition threaded_Stop :: "'m tserver \<Rightarrow> 'm tserver" where
  "threaded_Stop S = S\<lparr>ts_stopped := True\<rparr>"

inductive threaded_reachable :: "machine \<Rightarrow> 'u protocol \<Rightarrow> os \<Rightarrow> 'm tserver \<Rightarrow> bool" for M P w0 where
  start: "threaded_reachable M P w0 (CarrotThreadedServer_new w0)"
| register: "threaded_reachable M P w0 S \<Longrightarrow>
    threaded_reachable M P w0 (S\<lparr>ts_services := snd (RegisterService (ts_services S) s closure)\<rparr>)"
| run: "threaded_reachable M P w0 S \<Longrightarrow> threaded_reachable M P w0 (threaded_Run_start S)"
| stop: "threaded_reachable M P w0 S \<Longrightarrow> threaded_reachable M P w0 (threaded_Stop S)"
| turn: "threaded_reachable M P w0 S \<Longrightarrow> os_fds (ts_os S) fd = None \<Longrightarrow>
    threaded_reachable M P w0 (snd (threaded_Run_turn (Some (fd, s)) S))"
| network: "threaded_reachable M P w0 S \<Longrightarrow> dom (os_fds w) = dom (os_fds (ts_os S)) \<Longrightarrow>
    threaded_reachable M P w0 (S\<lparr>ts_os := w\<rparr>)"
| thread: "threaded_reachable M P w0 S \<Longrightarrow> thread_step M P t S = Inr (S', None) \<Longrightarrow>
    threaded_reachable M P w0 S'"

inductive_cases threaded_reachableE: "threaded_reachable M P w0 S"

subsection \<open>What a thread does to its descriptor\<close>

lemma destroy_connection_fds [simp]: "os_fds (destroy_connection fd w) = (os_fds w)(fd := None)"
  by (simp add: destroy_connection_def fd_close_fds)

text \<open>\<open>keeps_others\<close>: no descriptor but this one changes.\<close>

definition keeps_others :: "nat \<Rightarrow> os \<Rightarrow> os \<Rightarrow> bool" where
  "keeps_others fd w w' \<longleftrightarrow> (\<forall>x. x \<noteq> fd \<longrightarrow> os_fds w' x = os_fds w x)"

lemma keeps_others_intros [intro]:
  "keeps_others fd w w" "touches fd w w' \<Longrightarrow> keeps_others fd w w'"
  "keeps_others fd w w' \<Longrightarrow> keeps_others fd w (destroy_connection fd w')"
  by (simp_all add: keeps_others_def touches_def)

lemma keeps_others_trans: "keeps_others fd w w1 \<Longrightarrow> keeps_others fd w1 w2 \<Longrightarrow> keeps_others fd w w2"
  by (simp add: keeps_others_def)

lemma threaded_round_keeps:
  assumes "threaded_round M P tab fd b w = Inr (r, b', w')"
  shows "keeps_others fd w w'" and "r = Break \<Longrightarrow> os_fds w' fd = None"
proof -
  obtain got b1 w1 where rcv: "receive_packet expand_packet M fd b w = Inr (got, b1, w1)"
    using assms by (auto simp: threaded_round_def and_then_eq_Inr_iff)
  have k1: "keeps_others fd w w1" using receive_touches [OF rcv] by blast
  have "keeps_others fd w w' \<and> (r = Break \<longrightarrow> os_fds w' fd = None)"
  proof (cases got)
    case None
    with assms rcv k1 show ?thesis by (auto simp: threaded_round_def)
  next
    case (Some ls)
    obtain x y where ls: "ls = (x, y)" by (cases ls)
    obtain ans where a: "parse_and_serve M P tab x y b1 = Inr ans"
      using assms rcv Some ls by (auto simp: threaded_round_def and_then_eq_Inr_iff)
    show ?thesis
    proof (cases ans)
      case (Reply resp rr)
      then have "threaded_respond_to_client M P resp (Some rr) fd b1 w1 = Inr (b', w')" "r = Continue"
        using assms rcv Some ls a by (auto simp: threaded_round_def and_then_eq_Inr_iff)
      then show ?thesis using k1 by (auto elim!: threaded_respond_result intro: keeps_others_trans)
    qed (use assms rcv Some ls a k1 in \<open>auto simp: threaded_round_def\<close>)
  qed
  then show "keeps_others fd w w'" "r = Break \<Longrightarrow> os_fds w' fd = None" by blast+
qed

lemma threaded_loop_keeps:
  "threaded_loop M P tab stopped fd b w = Inr (thrown, w') \<Longrightarrow> keeps_others fd w w'"
proof (induction M P tab stopped fd b w rule: threaded_loop.induct)
  case (1 M P tab stopped fd b w)
  show ?case
  proof (cases "stopped 0")
    case True
    with 1(2) show ?thesis by (auto simp: threaded_loop.simps [of M P tab stopped])
  next
    case False
    then obtain r b1 w1 where r: "threaded_round M P tab fd b w = Inr (r, b1, w1)"
      using 1(2) by (cases "threaded_round M P tab fd b w") (auto simp: threaded_loop.simps [of M P tab stopped])
    note k = threaded_round_keeps(1) [OF r]
    show ?thesis
    proof (cases r)
      case Continue
      then have "threaded_loop M P tab (\<lambda>i. stopped (Suc i)) fd b1 w1 = Inr (thrown, w')"
        using 1(2) False r by (simp add: threaded_loop.simps [of M P tab stopped])
      from 1(1) [OF False r refl [of "(r, b1, w1)"], unfolded Continue, OF refl refl this] k
      show ?thesis by (rule keeps_others_trans [rotated])
    qed (use 1(2) False r k in \<open>auto simp: threaded_loop.simps [of M P tab stopped]\<close>)
  qed
qed

subsection \<open>A request in one iteration\<close>

lemma in_u32_small: "n < 4294967296 \<Longrightarrow> in_u32 n = n"
  by (simp add: in_u32_def unat_of_nat_u32)

lemma threaded_round_answers:
  assumes "wf_pbuf b" and "os_fds w fd \<noteq> None" and "write_answers fd w = Some []"
    and "to_read fd w = frame (of_nat (length meta)) (of_nat (length param)) 0 (meta @ param) @ later"
    and "12 + length meta + length param \<le> 2147483648" and "\<And>n. can_alloc M n"
    and "sized (proto_response P)" and "all_sized tab"
    and "expected_reply M P tab meta param = Some reply" and "length reply \<le> 2147483648"
  obtains b' w' where "threaded_round M P tab fd b w = Inr (Continue, b', w')" and "wf_pbuf b'"
    and "to_read fd w' = later" and "sent_to fd w' = sent_to fd w @ reply" and "os_fds w' fd \<noteq> None"
    and "end_errno fd w' = end_errno fd w" and "write_answers fd w' = Some []"
proof -
  obtain rq cs md request ctl response where rq: "ParseFromArray (proto_request P) meta = Some rq"
    and target: "dispatch_to tab (rq_method_identity rq) = Target cs md"
      "ParseFromArray (request_api md) param = Some request"
      "call_method md request (CarrotController_default (junk_callback M) (junk_u32 M)) (response_new md)
        = (ctl, response, None)"
    and reply: "reply_frame P (outcome_of ctl P) (response_api md) response = Some reply" "sized (response_api md)"
      "length reply = 12 + ByteSize (proto_response P) (outcome_of ctl P) + ByteSize (response_api md) response"
    by (rule expected_replyE [OF assms(9,7,8)])
  have small: "12 + length meta + length param < 4294967296" "length reply < 4294967296"
    using assms(5,10) by simp_all
  have un: "unat (of_nat (12 + length meta + length param) :: u32) \<le> 2147483648"
    "unat (of_nat (length reply) :: u32) \<le> 2147483648"
    "unat (of_nat (length meta) :: u32) = length meta" "unat (of_nat (length param) :: u32) = length param"
    using assms(5,10) small by (simp_all add: unat_of_nat_u32 del: of_nat_add of_nat_numeral)
  obtain b1 where e1: "expand_packet M b (of_nat (12 + length meta + length param)) = Inr (0, b1)"
    by (rule expand_packet_alloc [OF assms(6) un(1)])
  obtain b2 w2 tail where rcv: "receive_packet expand_packet M fd b w =
      Inr (Some (of_nat (length meta), of_nat (length param)), b2, w2)"
    and b2: "wf_pbuf b2" "buf_p b2 = Some (host_header M (of_nat (length meta)) (of_nat (length param)) 0 @ meta @ param @ tail)"
    and w2: "to_read fd w2 = later" "os_fds w2 fd \<noteq> None"
      "advanced fd (frame (of_nat (length meta)) (of_nat (length param)) 0 (meta @ param)) w w2"
    by (rule utils_buffer.receive_arrives [OF assms(1,2,4) small(1) e1])
  have ps: "parse_and_serve M P tab (of_nat (length meta)) (of_nat (length param)) b2 =
      Inr (Reply (Some (response_api md, response)) (outcome_of ctl P))"
    unfolding metadata_loaded [OF b2(2) un(3)] rq option.case parameter_loaded [OF target(1) un(3,4) target(2,3)] ..
  obtain b3 where e2: "expand_packet M b2 (of_nat (length reply)) = Inr (0, b3)"
    by (rule expand_packet_alloc [OF assms(6) un(2)])
  have br: "\<exists>b4. build_reply expand_packet in_u32 M P (Some (response_api md, response))
      (Some (outcome_of ctl P)) b2 = Inr (Some reply, b4)"
    unfolding reply(1) [symmetric]
    by (rule utils_buffer.build_reply_outcome [OF b2(1) reply(3) small(2) _ e2])
      (use reply(2) assms(7) small(2) in \<open>auto simp: sized_def in_u32_small\<close>)
  then obtain b4 where b4: "build_reply expand_packet in_u32 M P (Some (response_api md, response))
      (Some (outcome_of ctl P)) b2 = Inr (Some reply, b4)" ..
  have "write_answers fd w2 = Some []" using w2(3) assms(3) by (simp add: advanced_def)
  then obtain w3 where w3: "fd_write_n fd reply w2 = (0, w3)" "touches fd w2 w3" "sent_to fd w3 = sent_to fd w2 @ reply"
    "to_read fd w3 = to_read fd w2" "end_errno fd w3 = end_errno fd w2" "write_answers fd w3 = Some []"
    by (rule fd_write_at_once)
  show ?thesis
  proof (rule that [of b4 w3])
    show "threaded_round M P tab fd b w = Inr (Continue, b4, w3)"
      using rcv ps b4 w3(1) by (simp add: threaded_round_def threaded_respond_to_client_def)
    show "wf_pbuf b4" by (rule utils_buffer.build_reply_keeps_wf [OF b4 b2(1)])
  qed (use w2 w3 in \<open>auto simp: advanced_def touches_def\<close>)
qed

text \<open>A client that disconnects in front of a complete header.\<close>

lemma threaded_round_leaves:
  assumes "length (to_read fd w) < 12" and "os_fds w fd \<noteq> None" and "end_errno fd w \<noteq> EINTR"
  obtains w' where "threaded_round M P tab fd b w = Inr (Break, b, destroy_connection fd w')"
    and "sent_to fd w' = sent_to fd w"
proof -
  obtain w1 where "read_lengths M fd w = Inr (None, w1)" "sent_to fd w1 = sent_to fd w"
    using read_lengths_short [OF assms(1,2), of M] assms(3) by (auto simp: gives_up_def stops_def)
  then show ?thesis by (intro that [of w1]) (simp_all add: threaded_round_def receive_packet_def)
qed

definition request_frame :: "byte list \<times> byte list \<Rightarrow> byte list" where
  "request_frame r = frame (of_nat (length (fst r))) (of_nat (length (snd r))) 0 (fst r @ snd r)"

definition within_2gb :: "byte list \<times> byte list \<Rightarrow> byte list \<Rightarrow> bool" where
  "within_2gb r reply \<longleftrightarrow> 12 + length (fst r) + length (snd r) \<le> 2147483648 \<and> length reply \<le> 2147483648"

text \<open>The first \<open>n\<close> iterations, when all of them continue.\<close>

inductive rounds :: "machine \<Rightarrow> 'u protocol \<Rightarrow> 'm services \<Rightarrow> nat \<Rightarrow> nat \<Rightarrow> pbuf \<times> os \<Rightarrow> pbuf \<times> os \<Rightarrow> bool"
  for M P tab fd where
  done_yet: "rounds M P tab fd 0 bw bw"
| another: "threaded_round M P tab fd b w = Inr (Continue, b1, w1) \<Longrightarrow>
    rounds M P tab fd n (b1, w1) bw \<Longrightarrow> rounds M P tab fd (Suc n) (b, w) bw"

lemma rounds_loop:
  "rounds M P tab fd n bw bw' \<Longrightarrow>
   threaded_loop M P tab (\<lambda>_. False) fd (fst bw) (snd bw) = threaded_loop M P tab (\<lambda>_. False) fd (fst bw') (snd bw')"
proof (induction n bw bw' rule: rounds.induct)
  case (another b w b1 w1 n bw)
  then show ?case by (simp add: threaded_loop.simps [of M P tab "\<lambda>_. False" fd b w])
qed simp

text \<open>The iterations that answer a list of requests.\<close>

lemma rounds_answer:
  assumes "list_all2 (\<lambda>r reply. expected_reply M P tab (fst r) (snd r) = Some reply \<and> within_2gb r reply)
      requests replies"
    and "wf_pbuf b" "os_fds w fd \<noteq> None" "write_answers fd w = Some []" "end_errno fd w \<noteq> EINTR"
    and "to_read fd w = concat (map request_frame requests) @ partial"
    and "\<And>n. can_alloc M n" and "sized (proto_response P)" and "all_sized tab"
  shows "\<exists>b1 w1. rounds M P tab fd (length requests) (b, w) (b1, w1) \<and>
      sent_to fd w1 = sent_to fd w @ concat replies \<and> to_read fd w1 = partial \<and>
      os_fds w1 fd \<noteq> None \<and> end_errno fd w1 \<noteq> EINTR"
  using assms(1-6)
proof (induction arbitrary: b w rule: list_all2_induct)
  case Nil
  then show ?case by (auto intro: rounds.done_yet)
next
  case (Cons r rs reply replies)
  have tr: "to_read fd w = frame (of_nat (length (fst r))) (of_nat (length (snd r))) 0 (fst r @ snd r) @
      (concat (map request_frame rs) @ partial)"
    using Cons.prems(5) by (simp add: request_frame_def [of r])
  have le: "12 + length (fst r) + length (snd r) \<le> 2147483648" "length reply \<le> 2147483648"
    and ex: "expected_reply M P tab (fst r) (snd r) = Some reply"
    using Cons.hyps(1) by (simp_all add: within_2gb_def)
  obtain b1 w1 where 1: "threaded_round M P tab fd b w = Inr (Continue, b1, w1)" "wf_pbuf b1"
    "to_read fd w1 = concat (map request_frame rs) @ partial" "sent_to fd w1 = sent_to fd w @ reply"
    "os_fds w1 fd \<noteq> None" "end_errno fd w1 = end_errno fd w" "write_answers fd w1 = Some []"
    by (rule threaded_round_answers [OF Cons.prems(1-3) tr le(1) assms(7-9) ex le(2)])
  have "end_errno fd w1 \<noteq> EINTR" using 1(6) Cons.prems(4) by simp
  from Cons.IH [OF 1(2,5,7) this 1(3)] obtain b2 w2 where
    2: "rounds M P tab fd (length rs) (b1, w1) (b2, w2)" "sent_to fd w2 = sent_to fd w1 @ concat replies"
      "to_read fd w2 = partial" "os_fds w2 fd \<noteq> None" "end_errno fd w2 \<noteq> EINTR" by auto
  have "rounds M P tab fd (Suc (length rs)) (b, w) (b2, w2)" by (rule rounds.another [OF 1(1) 2(1)])
  with 1(4) 2 show ?case by auto
qed

subsection \<open>The two ways to build a reply\<close>

lemma replies_built_alike:
  assumes "exact_pbuf b1" and "wf_pbuf b2" and "\<And>n. can_alloc M n"
    and "sized (proto_response P)" and "sized api"
    and "12 + ByteSize (proto_response P) rr + ByteSize api m \<le> 2147483648"
  shows "\<exists>out b1' b2'.
    build_reply expand_connection_packet (\<lambda>x. x) M P (Some (api, m)) (Some rr) b1 = Inr (out, b1') \<and>
    build_reply expand_packet in_u32 M P (Some (api, m)) (Some rr) b2 = Inr (out, b2')"
proof -
  define n where "n = 12 + ByteSize (proto_response P) rr + ByteSize api m"
  have n: "n < 4294967296" "unat (of_nat n :: u32) \<le> 2147483648"
    using assms(6) by (simp_all add: n_def unat_of_nat_u32 del: of_nat_add of_nat_numeral)
  obtain c1 where e1: "expand_connection_packet M b1 (of_nat n) = Inr (0, c1)"
    by (rule expand_connection_alloc [OF assms(3)])
  obtain c2 where e2: "expand_packet M b2 (of_nat n) = Inr (0, c2)"
    by (rule expand_packet_alloc [OF assms(3) n(2)])
  have "\<exists>b. build_reply expand_connection_packet (\<lambda>x. x) M P (Some (api, m)) (Some rr) b1 = Inr (reply_frame P rr api m, b)"
    by (rule connection_buffer.build_reply_outcome [OF assms(1) n_def n(1) _ e1])
      (use assms(4,5) in \<open>auto simp: sized_def\<close>)
  moreover have "\<exists>b. build_reply expand_packet in_u32 M P (Some (api, m)) (Some rr) b2 = Inr (reply_frame P rr api m, b)"
    by (rule utils_buffer.build_reply_outcome [OF assms(2) n_def n(1) _ e2])
      (use assms(4,5) n(1) in \<open>auto simp: sized_def in_u32_small\<close>)
  ultimately show ?thesis by blast
qed

subsection \<open>Properties\<close>

text \<open>
  A thread serves its client to the end: whatever requests for known methods the client
  sends before it disconnects, each is answered, in order, with the reply that
  \<open>expected_reply\<close> specifies, and then the thread returns with the client's descriptor closed
  and no other descriptor touched.
\<close>

theorem threaded_serves_all:
  assumes "os_fds w fd \<noteq> None" and "write_answers fd w = Some []" and "end_errno fd w \<noteq> EINTR"
    and "to_read fd w = concat (map request_frame requests) @ partial" and "length partial < 12"
    and "\<And>n. can_alloc M n" and "sized (proto_response P)" and "all_sized tab"
    and "list_all2 (\<lambda>r reply. expected_reply M P tab (fst r) (snd r) = Some reply \<and> within_2gb r reply)
      requests replies"
  shows "\<exists>b1 w1 w'. rounds M P tab fd (length requests) (null_buf, w) (b1, w1) \<and>
    sent_to fd w1 = sent_to fd w @ concat replies \<and>
    threaded_handle_client M P tab (\<lambda>_. False) fd w = Inr (None, w') \<and>
    os_fds w' fd = None \<and> (\<forall>x. x \<noteq> fd \<longrightarrow> os_fds w' x = os_fds w x)"
proof -
  from rounds_answer [OF assms(9) wf_null_buf assms(1-4,6-8)] obtain b1 w1 where
    1: "rounds M P tab fd (length requests) (null_buf, w) (b1, w1)" "sent_to fd w1 = sent_to fd w @ concat replies"
      "to_read fd w1 = partial" "os_fds w1 fd \<noteq> None" "end_errno fd w1 \<noteq> EINTR" by blast
  obtain w2 where w2: "threaded_round M P tab fd b1 w1 = Inr (Break, b1, destroy_connection fd w2)"
    by (rule threaded_round_leaves [of fd w1 M P tab b1]) (use 1(3-5) assms(5) in simp_all)
  have loop: "threaded_loop M P tab (\<lambda>_. False) fd null_buf w = Inr (None, destroy_connection fd w2)"
    using rounds_loop [OF 1(1)] w2 by (simp add: threaded_loop.simps [of M P tab "\<lambda>_. False" fd b1 w1])
  have "keeps_others fd w (destroy_connection fd w2)" by (rule threaded_loop_keeps [OF loop])
  with loop 1 show ?thesis by (auto simp: threaded_handle_client_def keeps_others_def)
qed

definition busy_os :: os where
  "busy_os = quiet_os\<lparr>os_fds := [5 \<mapsto> sock_with (frame 13 3 0 (echo_meta @ [1, 2, 3]) @ [7])]\<rparr>"

definition echo_tab :: "byte list services" where
  "echo_tab = [''Echo'' \<mapsto> \<lparr>cs_s = echo_service, cs_c = None\<rparr>]"

theorem threaded_serves_all_witness:
  "\<exists>b1 w1 w'. rounds little_host varint_protocol echo_tab 5 1 (null_buf, busy_os) (b1, w1) \<and>
    sent_to 5 w1 = frame 2 0 3 ([16, 1] @ [1, 2, 3]) \<and>
    threaded_handle_client little_host varint_protocol echo_tab (\<lambda>_. False) 5 busy_os = Inr (None, w') \<and>
    os_fds w' 5 = None"
proof -
  let ?rs = "[(echo_meta, [1, 2, 3 :: byte])]" and ?reps = "[frame 2 0 3 ([16, 1] @ [1, 2, 3 :: byte])]"
  have st: "os_fds busy_os 5 \<noteq> None" "write_answers 5 busy_os = Some []" "end_errno 5 busy_os \<noteq> EINTR"
    "sent_to 5 busy_os = []"
    by (simp_all add: busy_os_def write_answers_def end_errno_def sent_to_def quiet_os_def EINTR_def)
  have tr: "to_read 5 busy_os = concat (map request_frame ?rs) @ [7]"
    by (simp add: busy_os_def to_read_def request_frame_def echo_meta_length)
  have all: "list_all2 (\<lambda>r reply. expected_reply little_host varint_protocol echo_tab (fst r) (snd r) = Some reply \<and>
      within_2gb r reply) ?rs ?reps"
    using echo_expected_reply by (simp add: echo_tab_def within_2gb_def echo_meta_length)
  have "length [7 :: byte] < 12" by simp
  from threaded_serves_all [OF st(1-3) tr this example_hosts(3) echo_sized(1) _ all] echo_sized(2)
  show ?thesis by (simp add: echo_tab_def st(4)) blast
qed

text \<open>
  Threads are isolated as long as their descriptors differ: a step of one thread changes no
  other thread, and no descriptor but its own.
\<close>

lemma threads_isolated:
  assumes "ts_threads S t = Some th" and "thread_step M P t S = Inr (S', thrown)"
  shows "(\<forall>u. u \<noteq> t \<longrightarrow> ts_threads S' u = ts_threads S u) \<and>
    (\<forall>x. x \<noteq> th_fd th \<longrightarrow> os_fds (ts_os S') x = os_fds (ts_os S) x) \<and>
    os_errno (ts_os S') = os_errno (ts_os S) \<and> ts_next S' = ts_next S \<and>
    ts_services S' = ts_services S \<and> ts_stopped S' = ts_stopped S \<and>
    (\<forall>th'. ts_threads S' t = Some th' \<longrightarrow> th_fd th' = th_fd th)"
proof (cases "th_phase th")
  case Leaving
  with assms show ?thesis by (auto simp: thread_step_def put_thread_def thread_os_def)
next
  case Looping
  show ?thesis
  proof (cases "ts_stopped S")
    case True
    with assms Looping show ?thesis by (auto simp: thread_step_def put_thread_def)
  next
    case False
    obtain r b w where r: "threaded_round M P (ts_services S) (th_fd th) (th_buf th) (thread_os th S) = Inr (r, b, w)"
      using assms Looping False by (auto simp: thread_step_def and_then_eq_Inr_iff)
    have "\<exists>th'. S' = put_thread t (Some th') w S \<and> th_fd th' = th_fd th"
      using assms Looping False r by (cases r) (auto simp: thread_step_def Let_def)
    with threaded_round_keeps(1) [OF r] show ?thesis by (auto simp: put_thread_def keeps_others_def thread_os_def)
  qed
qed

definition threaded_start :: "byte list tserver" where
  "threaded_start = threaded_Run_start (CarrotThreadedServer_new quiet_os)"

definition threaded_accepted :: "byte list tserver" where
  "threaded_accepted = snd (threaded_Run_turn (Some (5, sock_with [])) threaded_start)"

lemma threaded_accepted_state:
  "ts_threads threaded_accepted = [0 \<mapsto> \<lparr>th_fd = 5, th_buf = null_buf, th_phase = Looping, th_errno = 0\<rparr>]"
  "ts_stopped threaded_accepted = False" "ts_next threaded_accepted = 1"
  "os_fds (ts_os threaded_accepted) = [5 \<mapsto> sock_with []]" "os_errno (ts_os threaded_accepted) = 0"
  "ts_services threaded_accepted = (\<lambda>_. None)"
  by (simp_all add: threaded_accepted_def threaded_start_def threaded_Run_turn_def threaded_Run_start_def
      CarrotThreadedServer_new_def put_thread_def quiet_os_def)

lemma threaded_accepted_os [simp]:
  "thread_os \<lparr>th_fd = 5, th_buf = null_buf, th_phase = Looping, th_errno = 0\<rparr> threaded_accepted
    = ts_os threaded_accepted"
  using threaded_accepted_state(5) by (simp add: thread_os_def)

lemma threaded_accepted_round:
  obtains w' where "threaded_round M P tab 5 null_buf (ts_os threaded_accepted) =
      Inr (Break, null_buf, destroy_connection 5 w')"
proof -
  have "length (to_read 5 (ts_os threaded_accepted)) < 12" "os_fds (ts_os threaded_accepted) 5 \<noteq> None"
    "end_errno 5 (ts_os threaded_accepted) \<noteq> EINTR"
    by (simp_all add: to_read_def threaded_accepted_state end_errno_def EINTR_def)
  from threaded_round_leaves [OF this] show ?thesis using that by blast
qed

lemma threads_isolated_example:
  "\<exists>S'. thread_step little_host varint_protocol 0 threaded_accepted = Inr (S', None) \<and>
     os_fds (ts_os S') 6 = None \<and> ts_threads S' 1 = None"
proof -
  obtain w' where w': "threaded_round little_host varint_protocol (ts_services threaded_accepted) 5 null_buf
      (ts_os threaded_accepted) = Inr (Break, null_buf, destroy_connection 5 w')"
    by (rule threaded_accepted_round)
  have th: "ts_threads threaded_accepted 0 = Some \<lparr>th_fd = 5, th_buf = null_buf, th_phase = Looping, th_errno = 0\<rparr>"
    by (simp add: threaded_accepted_state)
  obtain S' where step: "thread_step little_host varint_protocol 0 threaded_accepted = Inr (S', None)"
    using w' by (simp add: thread_step_def th threaded_accepted_state(2) Let_def)
  from threads_isolated [OF th step] step show ?thesis by (auto simp: threaded_accepted_state)
qed

lemma threaded_accepted_reachable: "threaded_reachable M P quiet_os threaded_accepted"
  unfolding threaded_accepted_def threaded_start_def
  by (intro threaded_reachable.turn threaded_reachable.run threaded_reachable.start)
    (simp add: threaded_Run_start_def CarrotThreadedServer_new_def quiet_os_def)

text \<open>
  C37. But every thread closes its descriptor twice, and in between the number can be given to
  a new client: there is a run in which the second close of the first client's thread takes
  the connection away from the second client, whose own thread is still serving it.
\<close>

theorem second_close_hits_other_client:
  "\<exists>S S' t u th. t \<noteq> u \<and> threaded_reachable M P quiet_os (S :: byte list tserver) \<and>
    ts_threads S u = Some th \<and> th_phase th = Looping \<and> os_fds (ts_os S) (th_fd th) \<noteq> None \<and>
    thread_step M P t S = Inr (S', None) \<and>
    ts_threads S' u = Some th \<and> os_fds (ts_os S') (th_fd th) = None"
proof -
  define th where "th = \<lparr>th_fd = 5, th_buf = null_buf, th_phase = Looping, th_errno = 0\<rparr>"
  have st: "ts_threads threaded_accepted 0 = Some th" by (simp add: threaded_accepted_state th_def)
  obtain w' where w': "threaded_round M P (ts_services threaded_accepted) 5 null_buf (ts_os threaded_accepted) =
      Inr (Break, null_buf, destroy_connection 5 w')"
    by (rule threaded_accepted_round)
  define th1 where "th1 = th\<lparr>th_phase := Leaving, th_errno := os_errno (destroy_connection 5 w')\<rparr>"
  define S1 where "S1 = put_thread 0 (Some th1) (destroy_connection 5 w') threaded_accepted"
  have "thread_step M P 0 threaded_accepted = Inr (S1, None)"
    using st w' by (simp add: thread_step_def th_def threaded_accepted_state(2) S1_def th1_def Let_def)
  then have r1: "threaded_reachable M P quiet_os S1"
    by (rule threaded_reachable.thread [OF threaded_accepted_reachable])
  have S1: "ts_threads S1 = [0 \<mapsto> th1]" "os_fds (ts_os S1) 5 = None"
    "ts_stopped S1 = False" "ts_next S1 = 1"
    by (simp_all add: S1_def put_thread_def threaded_accepted_state fun_upd_twist)
  define S2 where "S2 = snd (threaded_Run_turn (Some (5, sock_with [1])) S1)"
  have r2: "threaded_reachable M P quiet_os S2"
    unfolding S2_def by (rule threaded_reachable.turn [OF r1 S1(2)])
  have S2: "ts_threads S2 0 = Some th1" "ts_threads S2 1 = Some th"
    "os_fds (ts_os S2) 5 \<noteq> None"
    by (simp_all add: S2_def threaded_Run_turn_def S1 put_thread_def th_def)
  define S3 where "S3 = put_thread 0 None (destroy_connection 5 (thread_os th1 S2)) S2"
  have "thread_step M P 0 S2 = Inr (S3, None)" using S2(1) by (simp add: thread_step_def S3_def th1_def th_def)
  moreover have "ts_threads S3 1 = Some th" "os_fds (ts_os S3) (th_fd th) = None"
    using S2(2) by (simp_all add: S3_def put_thread_def th_def thread_os_def)
  ultimately show ?thesis
    using r2 S2(2,3) by (intro exI [of _ S2] exI [of _ S3] exI [of _ 0] exI [of _ 1] exI [of _ th])
      (simp add: th_def)
qed

text \<open>
  C33. The two copies of \<open>respond_to_client\<close> are equivalent: whatever buffers the simple and the
  threaded server have come to use for a client, and although one grows them to the exact size
  and the other by doubling, and one keeps lengths in \<open>size_t\<close> and the other in \<open>uint32_t\<close>, they
  leave all descriptors the same: the same bytes written, or the descriptor closed after the same
  failure. So for replies of at most \<open>2 ^ 31\<close> bytes, when the allocator delivers.
\<close>

theorem servers_reply_alike:
  assumes "ss_objs S c = Some k" and "alive k" and "exact_pbuf (c_buf k)" and "wf_pbuf b2"
    and "\<And>n. can_alloc M n" and "sized (proto_response P)" and "sized api"
    and "12 + ByteSize (proto_response P) rr + ByteSize api m \<le> 2147483648"
  shows "\<exists>S' b'.
    simple_respond_to_client M P (Some (api, m)) (Some rr) c S = Inr S' \<and>
    threaded_respond_to_client M P (Some (api, m)) (Some rr) (client_fd k) b2 (ss_os S) = Inr (b', ss_os S')"
proof -
  obtain out b1' b2' where
    out: "build_reply expand_connection_packet (\<lambda>x. x) M P (Some (api, m)) (Some rr) (c_buf k) = Inr (out, b1')"
      "build_reply expand_packet in_u32 M P (Some (api, m)) (Some rr) b2 = Inr (out, b2')"
    using replies_built_alike [OF assms(3-8)] by blast
  have d: "destroy_rpc_connection c (put_sconn c (k\<lparr>c_buf := b1'\<rparr>) S\<lparr>ss_os := w\<rparr>) =
      Inr (let S2 = put_sconn c (k\<lparr>c_buf := b1', alive := False\<rparr>)
               (S\<lparr>ss_events := removeAll c (ss_events S), ss_os := destroy_connection (client_fd k) w\<rparr>)
           in S2\<lparr>ss_unused := ss_unused S @ [c], ss_in_use := (ss_in_use S)(c := None)\<rparr>)" for w
    using assms(2) by (simp add: destroy_rpc_connection_def put_sconn_def destroy_connection_def Let_def)
  have d0: "destroy_rpc_connection c (put_sconn c (k\<lparr>c_buf := b1'\<rparr>) S) =
      destroy_rpc_connection c (put_sconn c (k\<lparr>c_buf := b1'\<rparr>) S\<lparr>ss_os := ss_os S\<rparr>)"
    by (simp add: put_sconn_def)
  show ?thesis
  proof (cases out)
    case None
    then show ?thesis
      using out assms(1) d [of "ss_os S"] d0
      by (simp add: simple_respond_to_client_def threaded_respond_to_client_def Let_def)
  next
    case (Some bs)
    obtain r w where w: "fd_write_n (client_fd k) bs (ss_os S) = (r, w)" by fastforce
    show ?thesis
      using Some out assms(1) w d [of w]
      by (simp add: simple_respond_to_client_def threaded_respond_to_client_def Let_def)
  qed
qed

theorem servers_reply_alike_witness:
  "\<exists>S' b'.
    simple_respond_to_client little_host varint_protocol (Some (bytes_api, [1, 2]))
      (Some (Response_set_status SUCCESS (Response_New varint_lib))) 0 (simple_serving []) = Inr S' \<and>
    threaded_respond_to_client little_host varint_protocol (Some (bytes_api, [1, 2]))
      (Some (Response_set_status SUCCESS (Response_New varint_lib))) 5 null_buf (ss_os (simple_serving []))
      = Inr (b', ss_os S')"
proof -
  let ?rr = "Response_set_status SUCCESS (Response_New varint_lib)"
  have sz: "sized bytes_api" by (rule codec_sized [OF bytes_codec.message_codec_axioms])
  have "ByteSize (proto_response varint_protocol) ?rr = 2" by code_simp
  then have small: "12 + ByteSize (proto_response varint_protocol) ?rr + ByteSize bytes_api [1, 2] \<le> 2147483648"
    by (simp add: bytes_api_def)
  have k: "ss_objs (simple_serving []) 0 = Some simple_conn" "alive simple_conn" "exact_pbuf (c_buf simple_conn)"
    by (simp_all add: simple_serving_def simple_conn_def)
  from servers_reply_alike [OF k wf_null_buf example_hosts(3) echo_sized(1) sz small]
  show ?thesis by (simp add: simple_conn_def)
qed

end
