(* ===== verification/Async_Channel.thy ===== *)
theory Async_Channel
  imports Packet_Buffer Service_Registry
begin

section \<open>The asynchronous channel: src/src/client/carrot_async_channel.h and .cpp\<close>

text \<open>
  \<open>CarrotAsyncChannel\<close> keeps one \<open>RpcClientConnection\<close> per server address; a connection
  resolves and connects on its first call, sends the calls as frames with an id each, keeps
  them in \<open>outgoing_tasks\<close>, and matches the responses to them by id. A call ends when its
  \<open>done\<close> closure has run. Connections, tasks, controllers and response messages are objects
  the code reaches through pointers, so each lives in a table of the state.

  \<open>cc_ops\<close> holds the asynchronous operations of a connection that have not completed. Any of
  them may complete at any time, with or without an error: this covers cancelled operations
  (which complete with an error) and those whose success was already queued when they were
  cancelled. What is shown for all runs holds with more completions than Asio allows; where a run
  is said to exist, or an operation to fail, \<open>asio_allows\<close> adds the rule that a connect does not
  succeed when its socket has been closed since it began. A \<open>done\<close> closure is the user's code: it may throw an exception (\<open>closures\<close>), it
  does not call back into the channel.
\<close>

subsection \<open>State\<close>

datatype asio_error = Eof | Err nat

datatype client_exn = ClientBadAlloc | ClientRuntimeError string | ClientSystemError asio_error

definition error_message :: "machine \<Rightarrow> asio_error \<Rightarrow> string" where
  "error_message M e = (case e of Eof \<Rightarrow> ''End of file'' | Err n \<Rightarrow> strerror M n)"

text \<open>The error numbers of \<open>boost::system::errc\<close> the code makes error codes from.\<close>

definition timed_out :: asio_error where "timed_out = Err 110"
definition not_enough_memory :: asio_error where "not_enough_memory = Err 12"
definition invalid_argument :: asio_error where "invalid_argument = Err 22"

record 'm method_desc =
  md_service :: string
  md_name :: string
  md_request_api :: "'m message_api"
  md_response_api :: "'m message_api"

definition STATE_CONNECT_TO_SERVER :: nat where "STATE_CONNECT_TO_SERVER = 0"
definition STATE_WRITE_TO_SERVER :: nat where "STATE_WRITE_TO_SERVER = 2"
definition STATE_READ_DATA :: nat where "STATE_READ_DATA = 4"
definition STATE_DONE :: nat where "STATE_DONE = 6"

definition state_strs :: "string list" where
  "state_strs = [''STATE_CONNECT_TO_SERVER'', ''STATE_PREPARE_TO_WRITE_TO_SERVER'',
     ''STATE_WRITE_TO_SERVER'', ''STATE_READ_METADATA'', ''STATE_READ_DATA'', ''STATE_TIMEOUT'',
     ''STATE_DONE'', '''']"

text \<open>
  \<open>call_task\<close>. \<open>t_controller\<close>, \<open>t_response\<close> and \<open>t_done\<close> are addresses; \<open>t_runs\<close> counts the
  calls of \<open>done->Run()\<close> made for this task.
\<close>

record 'm call_task =
  t_method :: "'m method_desc"
  t_controller :: nat
  t_request :: 'm
  t_response :: nat
  t_done :: nat
  t_buf :: pbuf
  t_id :: u64
  t_called :: bool
  t_state :: nat
  t_runs :: nat

datatype client_op =
    ResolveOp nat
  | ConnectOp nat
  | WriteOp nat "byte list"
  | ReadHeaderOp
  | ReadPayloadOp u32
  | TimerOp nat

record cconn =
  cc_id :: u64
  cc_open :: bool
  cc_outgoing :: "(u64 \<times> nat) list"
  cc_host :: string
  cc_service :: string
  cc_buf :: pbuf
  cc_n :: u32
  cc_connecting :: bool
  cc_ops :: "client_op list"
  cc_aborted :: "nat list"

text \<open>
  \<open>socket_.close()\<close>, which \<open>async_connect\<close> also does first: Asio aborts the operations pending on the
  socket, so a connect that was pending (of the calls in \<open>cc_aborted\<close>) cannot succeed any more.
\<close>

definition connecting :: "cconn \<Rightarrow> nat list" where
  "connecting k = concat (map (\<lambda>x. case x of ConnectOp t \<Rightarrow> [t] | _ \<Rightarrow> []) (cc_ops k))"

definition close_socket :: "cconn \<Rightarrow> cconn" where
  "close_socket k = k\<lparr>cc_open := False, cc_aborted := connecting k\<rparr>"

lemma close_socket_sels [simp]:
  "cc_id (close_socket k) = cc_id k" "\<not> cc_open (close_socket k)" "cc_outgoing (close_socket k) = cc_outgoing k"
  "cc_host (close_socket k) = cc_host k" "cc_service (close_socket k) = cc_service k"
  "cc_buf (close_socket k) = cc_buf k" "cc_n (close_socket k) = cc_n k"
  "cc_connecting (close_socket k) = cc_connecting k" "cc_ops (close_socket k) = cc_ops k"
  "cc_aborted (close_socket k) = connecting k"
  by (simp_all add: close_socket_def)

lemma connecting_set: "set (connecting k) = {t. ConnectOp t \<in> set (cc_ops k)}"
proof -
  have "set (concat (map (\<lambda>x. case x of ConnectOp t \<Rightarrow> [t] | _ \<Rightarrow> []) xs)) = {t. ConnectOp t \<in> set xs}" for xs
    by (induction xs) (auto split: client_op.splits)
  then show ?thesis by (simp only: connecting_def)
qed

lemma connecting_remove: "\<forall>t. x \<noteq> ConnectOp t \<Longrightarrow> connecting (k\<lparr>cc_ops := remove1 x (cc_ops k)\<rparr>) = connecting k"
proof -
  assume x: "\<forall>t. x \<noteq> ConnectOp t"
  have "concat (map (\<lambda>x. case x of ConnectOp t \<Rightarrow> [t] | _ \<Rightarrow> []) (remove1 x xs)) =
      concat (map (\<lambda>x. case x of ConnectOp t \<Rightarrow> [t] | _ \<Rightarrow> []) xs)" for xs
    by (induction xs) (use x in \<open>auto split: client_op.splits\<close>)
  then show ?thesis by (simp add: connecting_def)
qed

record 'm channel =
  ch_conns :: "string \<Rightarrow> nat option"
  ch_objs :: "nat \<Rightarrow> cconn option"
  ch_tasks :: "nat \<Rightarrow> 'm call_task option"
  ch_ctls :: "nat \<Rightarrow> controller"
  ch_resps :: "nat \<Rightarrow> 'm"
  ch_next_conn :: nat
  ch_next_task :: nat

text \<open>The exception closure \<open>d\<close> throws when it runs for task \<open>t\<close>, if it throws one.\<close>

type_synonym closures = "nat \<Rightarrow> nat \<Rightarrow> string option"

text \<open>The protobuf side: \<open>Request\<close> and \<open>Response\<close> of the protocol and a new \<open>Request\<close>.\<close>

record 'u client_protocol =
  cp_request :: "'u Request message_api"
  cp_response :: "'u Response message_api"
  cp_fresh_request :: "'u Request"

type_synonym 'm client_outcome = "('m channel \<times> client_exn option) res"

text \<open>The destructors, with the block that each gives to \<open>free\<close>.\<close>

definition call_task_delete :: "'m call_task \<Rightarrow> block option \<times> 'm call_task" where
  "call_task_delete T = (case free_packet (t_buf T) of (freed, b) \<Rightarrow> (freed, T\<lparr>t_buf := b\<rparr>))"

definition RpcClientConnection_delete :: "cconn \<Rightarrow> block option \<times> cconn" where
  "RpcClientConnection_delete k = (case free_packet (cc_buf k) of (freed, b) \<Rightarrow> (freed, k\<lparr>cc_buf := b\<rparr>))"

definition put_cconn :: "nat \<Rightarrow> cconn \<Rightarrow> 'm channel \<Rightarrow> 'm channel" where
  "put_cconn c k S = S\<lparr>ch_objs := (ch_objs S)(c \<mapsto> k)\<rparr>"

definition put_task :: "nat \<Rightarrow> 'm call_task \<Rightarrow> 'm channel \<Rightarrow> 'm channel" where
  "put_task t T S = S\<lparr>ch_tasks := (ch_tasks S)(t \<mapsto> T)\<rparr>"

definition set_ctl :: "nat \<Rightarrow> (controller \<Rightarrow> controller) \<Rightarrow> 'm channel \<Rightarrow> 'm channel" where
  "set_ctl a g S = S\<lparr>ch_ctls := (ch_ctls S)(a := g (ch_ctls S a))\<rparr>"

definition add_op :: "nat \<Rightarrow> client_op \<Rightarrow> 'm channel \<Rightarrow> 'm channel" where
  "add_op c x S =
     (case ch_objs S c of None \<Rightarrow> S
      | Some k \<Rightarrow> put_cconn c (k\<lparr>cc_ops := x # cc_ops k\<rparr>) S)"

text \<open>
  \<open>std::map<uint64_t, call_task_sptr>\<close>: entries in the order of their keys; \<open>insert\<close> keeps an
  existing entry.
\<close>

fun omap_insert :: "u64 \<Rightarrow> nat \<Rightarrow> (u64 \<times> nat) list \<Rightarrow> (u64 \<times> nat) list" where
  "omap_insert i t [] = [(i, t)]"
| "omap_insert i t ((j, u) # r) =
     (if i < j then (i, t) # (j, u) # r
      else if i = j then (j, u) # r
      else (j, u) # omap_insert i t r)"

definition omap_erase :: "u64 \<Rightarrow> (u64 \<times> nat) list \<Rightarrow> (u64 \<times> nat) list" where
  "omap_erase i xs = filter (\<lambda>(j, t). j \<noteq> i) xs"

subsection \<open>Running a closure\<close>

text \<open>
  \<open>try { task->done->Run(); } catch (...) { SetFailed }\<close> followed by \<open>called = true\<close>, and the
  guarded form of it that every path uses, with what is done to the controller first.
\<close>

definition run_done :: "closures \<Rightarrow> nat \<Rightarrow> 'm call_task \<Rightarrow> 'm channel \<Rightarrow> 'm channel" where
  "run_done D t T S =
     (let S1 = (case D (t_done T) t of
                  None \<Rightarrow> S
                | Some what \<Rightarrow> set_ctl (t_controller T) (SetFailed (''rpc failed: '' @ what)) S)
      in put_task t (T\<lparr>t_called := True, t_runs := Suc (t_runs T)\<rparr>) S1)"

definition complete ::
  "closures \<Rightarrow> (controller \<Rightarrow> controller) \<Rightarrow> nat \<Rightarrow> 'm channel \<Rightarrow> 'm channel" where
  "complete D g t S =
     (case ch_tasks S t of
        None \<Rightarrow> S
      | Some T \<Rightarrow>
          if \<not> t_called T then run_done D t T (set_ctl (t_controller T) g S) else S)"

subsection \<open>RpcClientConnection\<close>

text \<open>
  \<open>destroy\<close>. \<open>chann_->conns()\<close> returns a copy of the channel's map, so erasing from it leaves
  the channel unchanged.
\<close>

definition client_conns :: "'m channel \<Rightarrow> string \<Rightarrow> nat option" where
  "client_conns S = ch_conns S"

definition erase_from_copy :: "string \<Rightarrow> (string \<Rightarrow> nat option) \<Rightarrow> 'm channel \<Rightarrow> 'm channel" where
  "erase_from_copy key copy S = (let copy1 = copy(key := None) in S)"

definition client_destroy ::
  "machine \<Rightarrow> closures \<Rightarrow> asio_error \<Rightarrow> nat \<Rightarrow> 'm channel \<Rightarrow> 'm channel" where
  "client_destroy M D reason c S =
     (case ch_objs S c of
        None \<Rightarrow> S
      | Some k \<Rightarrow>
          (let S1 = put_cconn c (close_socket k) S;
               S2 = erase_from_copy (cc_host k @ '':'' @ cc_service k) (client_conns S1) S1;
               S3 = fold (\<lambda>(i, t). complete D
                      (SetFailed (''rpc failed: '' @ error_message M reason)) t) (cc_outgoing k) S2
           in put_cconn c ((close_socket k)\<lparr>cc_outgoing := []\<rparr>) S3))"

definition setup_task_timer :: "nat \<Rightarrow> nat \<Rightarrow> 'm channel \<Rightarrow> 'm channel" where
  "setup_task_timer c t S =
     (case ch_tasks S t of
        None \<Rightarrow> S
      | Some T \<Rightarrow>
          if ctl_timeout (ch_ctls S (t_controller T)) \<noteq> TIMEOUT_NEVER
          then add_op c (TimerOp t) S else S)"

definition finish_task :: "closures \<Rightarrow> nat \<Rightarrow> 'm channel \<Rightarrow> 'm channel" where
  "finish_task D t S = complete D (\<lambda>ctl. ctl) t S"

definition fail_task ::
  "closures \<Rightarrow> string \<Rightarrow> error_code \<Rightarrow> nat \<Rightarrow> 'm call_task \<Rightarrow> 'm channel \<Rightarrow> 'm channel" where
  "fail_task D reason ec t T S = finish_task D t (set_ctl (t_controller T) (SetFailed_ec reason ec) S)"

definition handle_timeout ::
  "machine \<Rightarrow> closures \<Rightarrow> asio_error option \<Rightarrow> nat \<Rightarrow> nat \<Rightarrow> 'm channel \<Rightarrow> 'm client_outcome" where
  "handle_timeout M D error c t S =
     (case error of
        None \<Rightarrow>
          and_then (deref (ch_objs S c)) (\<lambda>k.
          and_then (deref (ch_tasks S t)) (\<lambda>T.
            let S1 = put_cconn c (k\<lparr>cc_outgoing := omap_erase (t_id T) (cc_outgoing k)\<rparr>) S;
                S2 = complete D (SetFailed_ec
                       (''rpc timed out at state '' @ state_strs ! t_state T) EC_RPC_TIMEOUT) t S1
            in Inr (if cc_connecting k then client_destroy M D timed_out c S2 else S2, None)))
      | Some e \<Rightarrow> Inr (S, None))"

text \<open>
  \<open>start_call\<close>. The two sizes are truncated to 32 bits; their sum with the header's size is a
  \<open>size_t\<close>, and truncated again as the argument of \<open>expand_packet\<close>.
\<close>

definition make_request :: "'u client_protocol \<Rightarrow> 'm call_task \<Rightarrow> 'u Request" where
  "make_request P T =
     Request_set_method_identity (identity_of (md_service (t_method T)) (md_name (t_method T)))
       (Request_set_id (t_id T) (cp_fresh_request P))"

definition start_call ::
  "machine \<Rightarrow> 'u client_protocol \<Rightarrow> closures \<Rightarrow> nat \<Rightarrow> nat \<Rightarrow> 'm channel \<Rightarrow> 'm channel res" where
  "start_call M P D c t S =
     and_then (deref (ch_tasks S t)) (\<lambda>T.
     let rpc_req = make_request P T;
         api = md_request_api (t_method T);
         rpc_len = (of_nat (ByteSize (cp_request P) rpc_req) :: u32);
         req_len = (of_nat (ByteSize api (t_request T)) :: u32);
         n = sizeof_packet + unat rpc_len + unat req_len in
     and_then (expand_packet M (t_buf T) (of_nat n)) (\<lambda>(r, b).
       let T1 = T\<lparr>t_buf := b\<rparr>; S1 = put_task t T1 S in
       if r = -1 then Inr (fail_task D ''failed to allocate memory for rpc packet'' EC_OOM t T1 S1)
       else
         and_then (deref (buf_p b)) (\<lambda>blk.
         case SerializeToArray (cp_request P) rpc_req (unat (rpc_len + req_len)) of
           None \<Rightarrow> Inr (fail_task D ''failed to serialize Request metadata into byte array''
                        EC_SERIALIZATION_ERROR t T1 S1)
         | Some bs1 \<Rightarrow>
             and_then (store_at off_data bs1 blk) (\<lambda>blk.
             case SerializeToArray api (t_request T) (unat req_len) of
               None \<Rightarrow> Inr (fail_task D ''failed to serialize request paramerter into byte array''
                            EC_SERIALIZATION_ERROR t T1
                            (put_task t (T1\<lparr>t_buf := b\<lparr>buf_p := Some blk\<rparr>\<rparr>) S1))
             | Some bs2 \<Rightarrow>
                 and_then (store_at (off_data + unat rpc_len) bs2 blk) (\<lambda>blk.
                 and_then (store_header M rpc_len req_len 0 blk) (\<lambda>blk.
                 and_then (CONVERT_TO_NETWORK_ORDER M blk) (\<lambda>blk.
                 and_then (deref (ch_objs S c)) (\<lambda>k.
                 and_then (load_at 0 n blk) (\<lambda>out.
                   let S2 = put_cconn c (k\<lparr>cc_outgoing := omap_insert (t_id T) t (cc_outgoing k)\<rparr>)
                              (put_task t (T1\<lparr>t_buf := b\<lparr>buf_p := Some blk\<rparr>,
                                             t_state := STATE_WRITE_TO_SERVER\<rparr>) S1)
                   in Inr (add_op c (WriteOp t out) (setup_task_timer c t S2)))))))))))"

definition start_read ::
  "machine \<Rightarrow> closures \<Rightarrow> nat \<Rightarrow> 'm channel \<Rightarrow> 'm client_outcome" where
  "start_read M D c S =
     and_then (deref (ch_objs S c)) (\<lambda>k.
     and_then (expand_packet M (cc_buf k) (of_nat sizeof_packet)) (\<lambda>(r, b).
       let S1 = put_cconn c (k\<lparr>cc_buf := b\<rparr>) S in
       if r = -1 then Inr (client_destroy M D not_enough_memory c S1, Some ClientBadAlloc)
       else Inr (add_op c ReadHeaderOp S1, None)))"

definition issue ::
  "machine \<Rightarrow> 'u client_protocol \<Rightarrow> closures \<Rightarrow> nat \<Rightarrow> 'm method_desc \<Rightarrow> nat \<Rightarrow> 'm \<Rightarrow> nat \<Rightarrow> nat \<Rightarrow>
   'm channel \<Rightarrow> 'm channel res" where
  "issue M P D c method ctl request response done_cb S =
     and_then (deref (ch_objs S c)) (\<lambda>k.
     let t = ch_next_task S;
         T = \<lparr>t_method = method, t_controller = ctl, t_request = request, t_response = response,
              t_done = done_cb, t_buf = null_buf, t_id = cc_id k + 1, t_called = False,
              t_state = STATE_CONNECT_TO_SERVER, t_runs = 0\<rparr>;
         k1 = k\<lparr>cc_id := cc_id k + 1\<rparr>;
         S1 = put_cconn c k1 (put_task t T (S\<lparr>ch_next_task := Suc t\<rparr>)) in
     if \<not> cc_open k then
       Inr (setup_task_timer c t
              (put_cconn c (k1\<lparr>cc_ops := ResolveOp t # cc_ops k1, cc_connecting := True\<rparr>) S1))
     else start_call M P D c t S1)"

definition handle_resolve ::
  "machine \<Rightarrow> closures \<Rightarrow> asio_error option \<Rightarrow> nat \<Rightarrow> nat \<Rightarrow> 'm channel \<Rightarrow> 'm client_outcome" where
  "handle_resolve M D error c t S =
     (case error of
        None \<Rightarrow>
          and_then (deref (ch_objs S c)) (\<lambda>k.
            Inr (put_cconn c ((close_socket k)\<lparr>cc_open := True, cc_ops := ConnectOp t # cc_ops k\<rparr>) S, None))
      | Some e \<Rightarrow>
          Inr (client_destroy M D e c (complete D (SetFailed_ec
                 (''failed to connect, '' @ error_message M e) EC_ERROR) t S),
               Some (ClientSystemError e)))"

definition handle_connect ::
  "machine \<Rightarrow> 'u client_protocol \<Rightarrow> closures \<Rightarrow> asio_error option \<Rightarrow> nat \<Rightarrow> nat \<Rightarrow> 'm channel \<Rightarrow>
   'm client_outcome" where
  "handle_connect M P D error c t S =
     (case error of
        None \<Rightarrow>
          and_then (deref (ch_objs S c)) (\<lambda>k.
          and_then (start_call M P D c t (put_cconn c (k\<lparr>cc_connecting := False\<rparr>) S)) (\<lambda>S1.
          start_read M D c S1))
      | Some e \<Rightarrow>
          Inr (client_destroy M D e c (complete D (SetFailed_ec
                 (''failed to connect, '' @ error_message M e) EC_CONNECTION_FAILED) t S),
               Some (ClientSystemError e)))"

definition client_read_header ::
  "machine \<Rightarrow> closures \<Rightarrow> asio_error option \<Rightarrow> nat \<Rightarrow> 'm channel \<Rightarrow> 'm client_outcome" where
  "client_read_header M D error c S =
     (case error of
        None \<Rightarrow>
          and_then (deref (ch_objs S c)) (\<lambda>k.
          and_then (deref (buf_p (cc_buf k))) (\<lambda>blk.
          and_then (CONVERT_TO_HOST_ORDER M blk) (\<lambda>blk.
          and_then (load_u32 M off_rpc_len blk) (\<lambda>rpc_len.
          and_then (load_u32 M off_req_len blk) (\<lambda>req_len.
          and_then (load_u32 M off_resp_len blk) (\<lambda>resp_len.
            let n = rpc_len + req_len + resp_len;
                k1 = k\<lparr>cc_buf := (cc_buf k)\<lparr>buf_p := Some blk\<rparr>, cc_n := n\<rparr> in
            and_then (expand_packet M (cc_buf k1) (n + of_nat sizeof_packet)) (\<lambda>(r, b).
              let S1 = put_cconn c (k1\<lparr>cc_buf := b\<rparr>) S in
              if r = -1 then Inr (client_destroy M D not_enough_memory c S1, Some ClientBadAlloc)
              else Inr (add_op c (ReadPayloadOp n) S1, None))))))))
      | Some e \<Rightarrow> Inr (client_destroy M D e c S, Some (ClientSystemError e)))"

text \<open>The \<open>switch\<close> over the status of a response, and the parsing of the response message.\<close>

definition apply_status :: "Status \<Rightarrow> string \<Rightarrow> controller \<Rightarrow> controller" where
  "apply_status st message ctl =
     (case st of
        NOT_FOUND \<Rightarrow> SetFailed_ec
          (''The remote method called not found on the server side: '' @ message) EC_METHOD_NOT_FOUND ctl
      | ERROR \<Rightarrow> SetFailed_ec (''Some errors occurred during the rpc: '' @ message) EC_ERROR ctl
      | FAILED \<Rightarrow> SetFailed_ec (''Failed to call rpc: '' @ message) EC_FAILED ctl
      | SUCCESS \<Rightarrow> ctl)"

definition store_response :: "nat \<Rightarrow> 'm \<Rightarrow> 'm channel \<Rightarrow> 'm channel" where
  "store_response a m S = S\<lparr>ch_resps := (ch_resps S)(a := m)\<rparr>"

definition deliver_response ::
  "Status \<Rightarrow> string \<Rightarrow> 'm option \<Rightarrow> 'm call_task \<Rightarrow> 'm channel \<Rightarrow> 'm channel" where
  "deliver_response st message parsed T S =
     (let S1 = set_ctl (t_controller T) (apply_status st message) S in
      case parsed of
        None \<Rightarrow> set_ctl (t_controller T)
          (SetFailed_ec ''failed to read response parameter from server'' EC_SERIALIZATION_ERROR) S1
      | Some m \<Rightarrow> store_response (t_response T) m S1)"

definition erase_task :: "nat \<Rightarrow> u64 \<Rightarrow> 'm channel \<Rightarrow> 'm channel" where
  "erase_task c i S =
     (case ch_objs S c of
        None \<Rightarrow> S
      | Some k \<Rightarrow> put_cconn c (k\<lparr>cc_outgoing := omap_erase i (cc_outgoing k)\<rparr>) S)"

text \<open>
  The part of \<open>handle_read_payload\<close> after the metadata has been parsed. \<open>start_read\<close> may throw,
  after \<open>destroy\<close> has ended all calls; then the two statements after it are not reached. A
  response parameter that does not parse leaves the user's message partly overwritten; the
  model leaves it alone, no one reads it.
\<close>

definition match_response ::
  "machine \<Rightarrow> closures \<Rightarrow> block \<Rightarrow> u32 \<Rightarrow> 'u Response \<Rightarrow> nat \<Rightarrow> cconn \<Rightarrow> 'm channel \<Rightarrow>
   'm client_outcome" where
  "match_response M D blk rpc_len rpc_resp c k S =
     (case map_of (cc_outgoing k) (rs_id rpc_resp) of
        None \<Rightarrow> start_read M D c S
      | Some t \<Rightarrow>
          and_then (deref (ch_tasks S t)) (\<lambda>T.
          and_then (load_u32 M off_resp_len blk) (\<lambda>resp_len.
          and_then (load_at (off_data + unat rpc_len) (unat resp_len) blk) (\<lambda>param.
          let S1 = deliver_response (Response_status rpc_resp) (rs_message rpc_resp)
                     (ParseFromArray (md_response_api (t_method T)) param) T
                     (put_task t (T\<lparr>t_state := STATE_DONE\<rparr>) S) in
          and_then (start_read M D c S1) (\<lambda>(S2, thrown).
          if thrown \<noteq> None then Inr (S2, thrown)
          else Inr (finish_task D t (erase_task c (rs_id rpc_resp) S2), None))))))"

definition client_read_payload ::
  "machine \<Rightarrow> 'u client_protocol \<Rightarrow> closures \<Rightarrow> asio_error option \<Rightarrow> nat \<Rightarrow> nat \<Rightarrow> 'm channel \<Rightarrow>
   'm client_outcome" where
  "client_read_payload M P D error transferred c S =
     and_then (deref (ch_objs S c)) (\<lambda>k.
     if error = None \<or> unat (cc_n k) = transferred \<and> error = Some Eof then
       and_then (deref (buf_p (cc_buf k))) (\<lambda>blk.
       and_then (load_u32 M off_rpc_len blk) (\<lambda>rpc_len.
       and_then (load_at off_data (unat rpc_len) blk) (\<lambda>meta.
       case ParseFromArray (cp_response P) meta of
         None \<Rightarrow> Inr (client_destroy M D invalid_argument c S,
                      Some (ClientRuntimeError ''carrot-rpc: failed to parse rpc request metadata''))
       | Some rpc_resp \<Rightarrow> match_response M D blk rpc_len rpc_resp c k S)))
     else
       (case error of
          None \<Rightarrow> Inr (S, None)
        | Some e \<Rightarrow> Inr (client_destroy M D e c S, Some (ClientSystemError e))))"

definition handle_write ::
  "machine \<Rightarrow> closures \<Rightarrow> asio_error option \<Rightarrow> nat \<Rightarrow> nat \<Rightarrow> 'm channel \<Rightarrow> 'm client_outcome" where
  "handle_write M D error c t S =
     (case error of
        None \<Rightarrow>
          and_then (deref (ch_tasks S t)) (\<lambda>T.
            Inr (put_task t (T\<lparr>t_state := STATE_READ_DATA\<rparr>) S, None))
      | Some e \<Rightarrow>
          Inr (client_destroy M D e c (complete D (SetFailed_ec
                 (''failed write rpc packet out, '' @ error_message M e) EC_TRANSPORT_ERROR) t S),
               Some (ClientSystemError e)))"

subsection \<open>CarrotAsyncChannel\<close>

definition CarrotAsyncChannel_new :: "(nat \<Rightarrow> controller) \<Rightarrow> (nat \<Rightarrow> 'm) \<Rightarrow> 'm channel" where
  "CarrotAsyncChannel_new ctls resps =
     \<lparr>ch_conns = (\<lambda>_. None), ch_objs = (\<lambda>_. None), ch_tasks = (\<lambda>_. None), ch_ctls = ctls,
      ch_resps = resps, ch_next_conn = 0, ch_next_task = 0\<rparr>"

definition RpcClientConnection_new :: "string \<Rightarrow> string \<Rightarrow> cconn" where
  "RpcClientConnection_new h s =
     \<lparr>cc_id = 0, cc_open = False, cc_outgoing = [], cc_host = h, cc_service = s, cc_buf = null_buf,
      cc_n = 0, cc_connecting = False, cc_ops = [], cc_aborted = []\<rparr>"

definition client_map_insert :: "string \<Rightarrow> nat \<Rightarrow> (string \<Rightarrow> nat option) \<Rightarrow> string \<Rightarrow> nat option" where
  "client_map_insert key v tab = (if tab key = None then tab(key \<mapsto> v) else tab)"

definition CallMethod ::
  "machine \<Rightarrow> 'u client_protocol \<Rightarrow> closures \<Rightarrow> 'm method_desc \<Rightarrow> nat \<Rightarrow> 'm \<Rightarrow> nat \<Rightarrow> nat \<Rightarrow>
   'm channel \<Rightarrow> 'm channel res" where
  "CallMethod M P D method ctl request response done_cb S =
     (let h = ctl_host (ch_ctls S ctl); s = ctl_service (ch_ctls S ctl); key = h @ '':'' @ s in
      case ch_conns S key of
        None \<Rightarrow>
          (let c = ch_next_conn S;
               S1 = put_cconn c (RpcClientConnection_new h s) (S\<lparr>ch_next_conn := Suc c\<rparr>);
               S2 = S1\<lparr>ch_conns := client_map_insert key c (ch_conns S1)\<rparr>
           in issue M P D c method ctl request response done_cb S2)
      | Some c \<Rightarrow> issue M P D c method ctl request response done_cb S)"

subsection \<open>The events of the io_service\<close>

datatype client_event =
    Resolved nat nat "asio_error option"
  | Connected nat nat "asio_error option"
  | WriteDone nat nat "byte list" "asio_error option"
  | HeaderArrived nat "byte list" "asio_error option"
  | PayloadArrived nat u32 "byte list" "asio_error option"
  | TimerFired nat nat "asio_error option"

text \<open>The connection and the operation an event completes.\<close>

fun completes :: "client_event \<Rightarrow> nat \<times> client_op" where
  "completes (Resolved c t e) = (c, ResolveOp t)"
| "completes (Connected c t e) = (c, ConnectOp t)"
| "completes (WriteDone c t bs e) = (c, WriteOp t bs)"
| "completes (HeaderArrived c bs e) = (c, ReadHeaderOp)"
| "completes (PayloadArrived c n bs e) = (c, ReadPayloadOp n)"
| "completes (TimerFired c t e) = (c, TimerOp t)"

text \<open>A read without error has transferred the bytes asked for, one with an error at most those.\<close>

fun transfer_ok :: "client_event \<Rightarrow> bool" where
  "transfer_ok (HeaderArrived c bs e) =
     (length bs \<le> sizeof_packet \<and> (e = None \<longrightarrow> length bs = sizeof_packet))"
| "transfer_ok (PayloadArrived c n bs e) =
     (length bs \<le> unat n \<and> (e = None \<longrightarrow> length bs = unat n))"
| "transfer_ok _ = True"

definition client_enabled :: "client_event \<Rightarrow> 'm channel \<Rightarrow> bool" where
  "client_enabled ev S =
     (case completes ev of (c, x) \<Rightarrow>
        transfer_ok ev \<and>
        (case ch_objs S c of None \<Rightarrow> False | Some k \<Rightarrow> x \<in> set (cc_ops k)))"

text \<open>Asio's rule about closing a socket, for the operation whose success the code relies on.\<close>

fun asio_allows :: "client_event \<Rightarrow> 'm channel \<Rightarrow> bool" where
  "asio_allows (Connected c t None) S =
     (case ch_objs S c of None \<Rightarrow> False | Some k \<Rightarrow> cc_open k \<and> t \<notin> set (cc_aborted k))"
| "asio_allows _ S = True"

definition op_done :: "nat \<Rightarrow> client_op \<Rightarrow> 'm channel \<Rightarrow> 'm channel" where
  "op_done c x S =
     (case ch_objs S c of
        None \<Rightarrow> S
      | Some k \<Rightarrow> put_cconn c (k\<lparr>cc_ops := remove1 x (cc_ops k)\<rparr>) S)"

text \<open>
  What a read stores: at offset \<open>off\<close> of the connection's buffer. (Two reads can only be
  outstanding together when two calls connected at the same time; then the code's buffer may
  have moved under the first, which is not modelled.)
\<close>

definition client_store :: "nat \<Rightarrow> nat \<Rightarrow> byte list \<Rightarrow> 'm channel \<Rightarrow> 'm channel res" where
  "client_store c off bs S =
     and_then (deref (ch_objs S c)) (\<lambda>k.
     and_then (deref (buf_p (cc_buf k))) (\<lambda>blk.
     and_then (store_at off bs blk) (\<lambda>blk.
       Inr (put_cconn c (k\<lparr>cc_buf := (cc_buf k)\<lparr>buf_p := Some blk\<rparr>\<rparr>) S))))"

fun client_handler ::
  "machine \<Rightarrow> 'u client_protocol \<Rightarrow> closures \<Rightarrow> client_event \<Rightarrow> 'm channel \<Rightarrow> 'm client_outcome" where
  "client_handler M P D (Resolved c t e) S = handle_resolve M D e c t S"
| "client_handler M P D (Connected c t e) S = handle_connect M P D e c t S"
| "client_handler M P D (WriteDone c t bs e) S = handle_write M D e c t S"
| "client_handler M P D (HeaderArrived c bs e) S =
     and_then (client_store c 0 bs S) (\<lambda>S. client_read_header M D e c S)"
| "client_handler M P D (PayloadArrived c n bs e) S =
     and_then (client_store c off_data bs S) (\<lambda>S. client_read_payload M P D e (length bs) c S)"
| "client_handler M P D (TimerFired c t e) S = handle_timeout M D e c t S"

definition client_run ::
  "machine \<Rightarrow> 'u client_protocol \<Rightarrow> closures \<Rightarrow> client_event \<Rightarrow> 'm channel \<Rightarrow> 'm client_outcome" where
  "client_run M P D ev S =
     (case completes ev of (c, x) \<Rightarrow> client_handler M P D ev (op_done c x S))"

text \<open>
  The states of a channel in use. A connection issues fewer than \<open>2 ^ 64\<close> calls, so that call
  ids do not repeat. The user may change controllers and response messages, or make new ones.
\<close>

definition ids_left :: "'m channel \<Rightarrow> bool" where
  "ids_left S \<longleftrightarrow> (\<forall>c k. ch_objs S c = Some k \<longrightarrow> cc_id k \<noteq> - 1)"

inductive channel_reachable ::
  "machine \<Rightarrow> 'u client_protocol \<Rightarrow> closures \<Rightarrow> 'm channel \<Rightarrow> bool" for M P D where
  start: "channel_reachable M P D (CarrotAsyncChannel_new ctls resps)"
| call: "channel_reachable M P D S \<Longrightarrow> ids_left S \<Longrightarrow>
    CallMethod M P D method ctl request response done_cb S = Inr S' \<Longrightarrow> channel_reachable M P D S'"
| user: "channel_reachable M P D S \<Longrightarrow> channel_reachable M P D (set_ctl a g S)"
| user_response: "channel_reachable M P D S \<Longrightarrow> channel_reachable M P D (store_response a m S)"
| event: "channel_reachable M P D S \<Longrightarrow> client_enabled ev S \<Longrightarrow>
    client_run M P D ev S = Inr (S', thrown) \<Longrightarrow> channel_reachable M P D S'"

inductive_cases channel_reachableE: "channel_reachable M P D S"

end
