(* ===== verification/Async_Channel_Inv.thy ===== *)
theory Async_Channel_Inv
  imports Async_Channel
begin

section \<open>No call of the asynchronous channel is lost or answered twice\<close>

text \<open>
  The invariant of the channel: a task's closure has run once if the task is marked called
  and not at all otherwise; a task that is not marked is still waited for, in the
  \<open>outgoing_tasks\<close> of a connection or by a resolve or connect operation; and within a
  connection call ids identify tasks. It is stated with a set \<open>A\<close> of tasks a handler has
  taken out of the state and not yet dealt with.
\<close>

subsection \<open>Ids and members\<close>

definition task_id :: "'m channel \<Rightarrow> nat \<Rightarrow> u64 option" where
  "task_id S t = map_option t_id (ch_tasks S t)"

definition live :: "cconn \<Rightarrow> nat set" where
  "live k = snd ` set (cc_outgoing k) \<union> {t. ResolveOp t \<in> set (cc_ops k)}
     \<union> {t. ConnectOp t \<in> set (cc_ops k)}"

definition members :: "cconn \<Rightarrow> nat set" where
  "members k = live k \<union> {t. TimerOp t \<in> set (cc_ops k)}"

definition conn_ok :: "(nat \<Rightarrow> u64 option) \<Rightarrow> cconn \<Rightarrow> bool" where
  "conn_ok ids k \<longleftrightarrow> wf_pbuf (cc_buf k) \<and>
     (\<forall>(i, t) \<in> set (cc_outgoing k). ids t = Some i) \<and>
     (\<forall>t \<in> members k. \<exists>i. ids t = Some i \<and> unat i \<le> unat (cc_id k)) \<and>
     inj_on ids (members k)"

definition task_ok :: "'m call_task \<Rightarrow> bool" where
  "task_ok T \<longleftrightarrow> t_runs T = (if t_called T then 1 else 0) \<and> t_state T < length state_strs \<and>
     wf_pbuf (t_buf T)"

definition chan_inv :: "nat set \<Rightarrow> 'm channel \<Rightarrow> bool" where
  "chan_inv A S \<longleftrightarrow>
     (\<forall>t T. ch_tasks S t = Some T \<longrightarrow> t < ch_next_task S \<and> task_ok T) \<and>
     (\<forall>c k. ch_objs S c = Some k \<longrightarrow> c < ch_next_conn S \<and> conn_ok (task_id S) k) \<and>
     (\<forall>t T. ch_tasks S t = Some T \<longrightarrow> t_called T \<or> t \<in> A \<or>
        (\<exists>c k. ch_objs S c = Some k \<and> t \<in> live k))"

lemma chan_invD:
  assumes "chan_inv A S"
  shows "ch_tasks S t = Some T \<Longrightarrow> t < ch_next_task S"
    and "ch_tasks S t = Some T \<Longrightarrow> task_ok T"
    and "ch_objs S c = Some k \<Longrightarrow> c < ch_next_conn S"
    and "ch_objs S c = Some k \<Longrightarrow> conn_ok (task_id S) k"
    and "ch_tasks S t = Some T \<Longrightarrow> \<not> t_called T \<Longrightarrow> t \<notin> A \<Longrightarrow>
      \<exists>c k. ch_objs S c = Some k \<and> t \<in> live k"
  using assms unfolding chan_inv_def by blast+

lemma chan_inv_mono: "chan_inv A S \<Longrightarrow> A \<subseteq> B \<Longrightarrow> chan_inv B S"
  unfolding chan_inv_def by blast

lemma live_members: "live k \<subseteq> members k" by (auto simp: members_def)

lemma live_simps [simp]:
  "live (k\<lparr>cc_id := i\<rparr>) = live k" "live (k\<lparr>cc_open := op\<rparr>) = live k"
  "live (k\<lparr>cc_buf := b\<rparr>) = live k" "live (k\<lparr>cc_n := n\<rparr>) = live k"
  "live (k\<lparr>cc_connecting := cn\<rparr>) = live k" "live (close_socket k) = live k"
  by (simp_all add: live_def)

lemma members_simps [simp]:
  "members (k\<lparr>cc_id := i\<rparr>) = members k" "members (k\<lparr>cc_open := op\<rparr>) = members k"
  "members (k\<lparr>cc_buf := b\<rparr>) = members k" "members (k\<lparr>cc_n := n\<rparr>) = members k"
  "members (k\<lparr>cc_connecting := cn\<rparr>) = members k" "members (close_socket k) = members k"
  by (simp_all add: members_def)

subsection \<open>Operations that keep tasks and connections apart\<close>

text \<open>Changing a connection.\<close>

lemma put_cconn_simps [simp]:
  "ch_tasks (put_cconn c k S) = ch_tasks S" "task_id (put_cconn c k S) = task_id S"
  "ch_objs (put_cconn c k S) = (ch_objs S)(c \<mapsto> k)"
  "ch_next_task (put_cconn c k S) = ch_next_task S"
  "ch_next_conn (put_cconn c k S) = ch_next_conn S"
  "ch_conns (put_cconn c k S) = ch_conns S" "ch_ctls (put_cconn c k S) = ch_ctls S"
  "ch_resps (put_cconn c k S) = ch_resps S"
  by (simp_all add: put_cconn_def task_id_def fun_eq_iff)

lemma put_cconn_inv:
  assumes "chan_inv A S" and "ch_objs S c = Some k" and "conn_ok (task_id S) k'"
    and "live k \<subseteq> live k' \<union> B" and "A \<subseteq> B"
  shows "chan_inv B (put_cconn c k' S)"
  unfolding chan_inv_def
proof (intro conjI allI impI)
  fix t T assume t: "ch_tasks (put_cconn c k' S) t = Some T"
  then show "t < ch_next_task (put_cconn c k' S)" "task_ok T"
    using chan_invD(1,2) [OF assms(1)] by auto
  show "t_called T \<or> t \<in> B \<or> (\<exists>c' k''. ch_objs (put_cconn c k' S) c' = Some k'' \<and> t \<in> live k'')"
  proof (cases "t_called T \<or> t \<in> B")
    case False
    with chan_invD(5) [OF assms(1), of t T] t assms(5) obtain c' k''
      where "ch_objs S c' = Some k''" "t \<in> live k''" by auto
    with assms(2,4) False show ?thesis by (cases "c' = c") auto
  qed auto
next
  fix c' k'' assume "ch_objs (put_cconn c k' S) c' = Some k''"
  then show "c' < ch_next_conn (put_cconn c k' S)" "conn_ok (task_id (put_cconn c k' S)) k''"
    using chan_invD(3,4) [OF assms(1)] assms(2,3) by (auto split: if_splits)
qed

text \<open>Changing a task, its id apart.\<close>

lemma put_task_simps [simp]:
  "ch_tasks (put_task t T S) = (ch_tasks S)(t \<mapsto> T)" "ch_objs (put_task t T S) = ch_objs S"
  "ch_next_task (put_task t T S) = ch_next_task S"
  "ch_next_conn (put_task t T S) = ch_next_conn S"
  "ch_conns (put_task t T S) = ch_conns S" "ch_ctls (put_task t T S) = ch_ctls S"
  "ch_resps (put_task t T S) = ch_resps S"
  by (simp_all add: put_task_def)

lemma task_id_put:
  "ch_tasks S t = Some T \<Longrightarrow> t_id T' = t_id T \<Longrightarrow> task_id (put_task t T' S) = task_id S"
  by (auto simp: task_id_def)

lemma put_task_inv:
  assumes "chan_inv A S" and "ch_tasks S t = Some T" and "t_id T' = t_id T" and "task_ok T'"
    and "t_called T \<Longrightarrow> t_called T' \<or> t \<in> A"
  shows "chan_inv A (put_task t T' S)"
    and "t_called T' \<Longrightarrow> chan_inv (A - {t}) (put_task t T' S)"
proof -
  note id = task_id_put [OF assms(2,3)]
  have "t_called T' \<or> t \<in> A \<or> (\<exists>c k. ch_objs S c = Some k \<and> t \<in> live k)"
    using assms(5) chan_invD(5) [OF assms(1,2)] by blast
  then show "chan_inv A (put_task t T' S)"
    using assms(1,2,4) unfolding chan_inv_def id by (auto split: if_splits)
  show "chan_inv (A - {t}) (put_task t T' S)" if "t_called T'"
    using assms(1,2,4) that unfolding chan_inv_def id by (auto split: if_splits)
qed

lemma set_ctl_simps [simp]:
  "ch_tasks (set_ctl a g S) = ch_tasks S" "ch_objs (set_ctl a g S) = ch_objs S"
  "task_id (set_ctl a g S) = task_id S"
  "ch_next_task (set_ctl a g S) = ch_next_task S" "ch_next_conn (set_ctl a g S) = ch_next_conn S"
  "ch_conns (set_ctl a g S) = ch_conns S" "ch_resps (set_ctl a g S) = ch_resps S"
  by (simp_all add: set_ctl_def task_id_def fun_eq_iff)

lemma set_ctl_inv [simp]: "chan_inv A (set_ctl a g S) = chan_inv A S"
  by (simp add: chan_inv_def)

lemma add_op_simps [simp]:
  "ch_tasks (add_op c x S) = ch_tasks S" "task_id (add_op c x S) = task_id S"
  "ch_next_task (add_op c x S) = ch_next_task S" "ch_next_conn (add_op c x S) = ch_next_conn S"
  "ch_conns (add_op c x S) = ch_conns S" "ch_ctls (add_op c x S) = ch_ctls S"
  by (simp_all add: add_op_def split: option.splits)

lemma add_op_inv:
  assumes "chan_inv A S"
    and "\<And>k. ch_objs S c = Some k \<Longrightarrow> conn_ok (task_id S) (k\<lparr>cc_ops := x # cc_ops k\<rparr>)"
  shows "chan_inv A (add_op c x S)"
proof (cases "ch_objs S c")
  case (Some k)
  have "live k \<subseteq> live (k\<lparr>cc_ops := x # cc_ops k\<rparr>) \<union> A" by (auto simp: live_def)
  with Some show ?thesis
    using put_cconn_inv [OF assms(1) Some assms(2) [OF Some]] by (simp add: add_op_def)
qed (use assms(1) in \<open>simp add: add_op_def\<close>)

text \<open>Operations that name no task do not change what a connection's invariant says.\<close>

lemma conn_ok_plain_op:
  assumes "conn_ok ids k" and "x = ReadHeaderOp \<or> (\<exists>n. x = ReadPayloadOp n) \<or> (\<exists>t bs. x = WriteOp t bs)"
  shows "conn_ok ids (k\<lparr>cc_ops := x # cc_ops k\<rparr>)"
proof -
  have "members (k\<lparr>cc_ops := x # cc_ops k\<rparr>) = members k"
    using assms(2) by (auto simp: members_def live_def)
  with assms(1) show ?thesis by (simp add: conn_ok_def)
qed

text \<open>\<open>t\<close> may become a member of connection \<open>c\<close>: no other member has its id.\<close>

definition may_join :: "(nat \<Rightarrow> u64 option) \<Rightarrow> nat \<Rightarrow> cconn \<Rightarrow> bool" where
  "may_join ids t k \<longleftrightarrow> (\<exists>i. ids t = Some i \<and> unat i \<le> unat (cc_id k)) \<and>
     (\<forall>t' \<in> members k. ids t' = ids t \<longrightarrow> t' = t)"

lemma conn_ok_join:
  assumes "conn_ok ids k" and "may_join ids t k"
    and "members k' \<subseteq> insert t (members k)" and "cc_id k' = cc_id k" and "wf_pbuf (cc_buf k')"
    and "\<And>i u. (i, u) \<in> set (cc_outgoing k') \<Longrightarrow> ids u = Some i"
  shows "conn_ok ids k'"
  unfolding conn_ok_def
proof (intro conjI)
  have "inj_on ids (insert t (members k))"
    using assms(1,2) by (auto simp: conn_ok_def may_join_def inj_on_def)
  then show "inj_on ids (members k')" using assms(3) by (rule inj_on_subset)
  show "\<forall>u\<in>members k'. \<exists>i. ids u = Some i \<and> unat i \<le> unat (cc_id k')"
    using assms(1-4) by (auto simp: conn_ok_def may_join_def)
  show "\<forall>(i, u)\<in>set (cc_outgoing k'). ids u = Some i" using assms(6) by auto
qed (rule assms(5))

lemma member_may_join:
  "conn_ok ids k \<Longrightarrow> t \<in> members k \<Longrightarrow> may_join ids t k"
  by (auto simp: conn_ok_def may_join_def inj_on_def)

lemma may_join_sub:
  "may_join ids t k \<Longrightarrow> members k' \<subseteq> members k \<Longrightarrow> cc_id k' = cc_id k \<Longrightarrow> may_join ids t k'"
  by (auto simp: may_join_def)

subsection \<open>Running closures\<close>

lemma complete_simps [simp]:
  "ch_objs (complete D g t S) = ch_objs S" "ch_next_task (complete D g t S) = ch_next_task S"
  "ch_next_conn (complete D g t S) = ch_next_conn S" "ch_conns (complete D g t S) = ch_conns S"
  "ch_resps (complete D g t S) = ch_resps S"
  by (simp_all add: complete_def run_done_def Let_def split: option.splits)

lemma complete_tasks:
  "ch_tasks (complete D g t S) =
     (case ch_tasks S t of
        None \<Rightarrow> ch_tasks S
      | Some T \<Rightarrow> if t_called T then ch_tasks S
                  else (ch_tasks S)(t \<mapsto> T\<lparr>t_called := True, t_runs := Suc (t_runs T)\<rparr>))"
  by (auto simp: complete_def run_done_def Let_def split: option.splits)

lemma complete_task_id [simp]: "task_id (complete D g t S) = task_id S"
  by (auto simp: task_id_def complete_tasks split: option.splits)

lemma complete_called:
  "ch_tasks (complete D g t S) u = Some T' \<Longrightarrow> \<exists>T. ch_tasks S u = Some T \<and> t_id T' = t_id T \<and>
     (t_called T' \<longleftrightarrow> t_called T \<or> u = t)"
  by (auto simp: complete_tasks split: option.splits if_splits)

lemma chan_inv_drop:
  assumes "chan_inv A S" and "\<And>T. ch_tasks S t = Some T \<Longrightarrow> t_called T"
  shows "chan_inv (A - {t}) S"
  unfolding chan_inv_def
proof (intro conjI allI impI)
  fix u T assume u: "ch_tasks S u = Some T"
  show "t_called T \<or> u \<in> A - {t} \<or> (\<exists>c k. ch_objs S c = Some k \<and> u \<in> live k)"
    using chan_invD(5) [OF assms(1) u] assms(2) u by blast
qed (use chan_invD(1-4) [OF assms(1)] in blast)+

lemma complete_inv:
  assumes "chan_inv A S" shows "chan_inv (A - {t}) (complete D g t S)"
proof (cases "ch_tasks S t")
  case None
  then have "chan_inv (A - {t}) S" by (intro chan_inv_drop [OF assms]) simp
  with None show ?thesis by (simp add: complete_def)
next
  case (Some T)
  note ok = chan_invD(2) [OF assms Some]
  show ?thesis
  proof (cases "t_called T")
    case True
    then have "chan_inv (A - {t}) S" using Some by (intro chan_inv_drop [OF assms]) simp
    with Some True show ?thesis by (simp add: complete_def)
  next
    case False
    let ?T = "T\<lparr>t_called := True, t_runs := Suc (t_runs T)\<rparr>"
    have "task_ok ?T" using ok False by (simp add: task_ok_def)
    then have put: "chan_inv (A - {t}) (put_task t ?T S')"
      if "chan_inv A S'" "ch_tasks S' t = Some T" for S' :: "'a channel"
      using that by (intro put_task_inv(2) [where T = T]) simp_all
    obtain S' where "complete D g t S = put_task t ?T S'" "chan_inv A S'" "ch_tasks S' t = Some T"
    proof (cases "D (t_done T) t")
      case None
      with Some False assms that [of "set_ctl (t_controller T) g S"] show ?thesis
        by (simp add: complete_def run_done_def Let_def)
    next
      case (Some what)
      with \<open>ch_tasks S t = Some T\<close> False assms
        that [of "set_ctl (t_controller T) (SetFailed (''rpc failed: '' @ what))
          (set_ctl (t_controller T) g S)"] show ?thesis
        by (simp add: complete_def run_done_def Let_def)
    qed
    with put show ?thesis by simp
  qed
qed

lemma complete_inv': "chan_inv A S \<Longrightarrow> chan_inv A (complete D g t S)"
  by (rule chan_inv_mono [OF complete_inv]) auto

lemma fold_complete_simps [simp]:
  "ch_objs (fold (\<lambda>(i, t). complete D g t) xs S) = ch_objs S"
  "ch_next_task (fold (\<lambda>(i, t). complete D g t) xs S) = ch_next_task S"
  "ch_next_conn (fold (\<lambda>(i, t). complete D g t) xs S) = ch_next_conn S"
  "ch_conns (fold (\<lambda>(i, t). complete D g t) xs S) = ch_conns S"
  "ch_resps (fold (\<lambda>(i, t). complete D g t) xs S) = ch_resps S"
  "task_id (fold (\<lambda>(i, t). complete D g t) xs S) = task_id S"
  by (induction xs arbitrary: S) auto

lemma fold_complete_inv:
  "chan_inv A S \<Longrightarrow> chan_inv (A - snd ` set xs) (fold (\<lambda>(i, t). complete D g t) xs S)"
proof (induction xs arbitrary: A S)
  case (Cons x xs)
  obtain i t where x: "x = (i, t)" by (cases x)
  have "chan_inv (A - {t}) (complete D g t S)" by (rule complete_inv [OF Cons.prems])
  from Cons.IH [OF this] show ?case by (simp add: x Diff_insert2 [symmetric])
qed simp

subsection \<open>destroy\<close>

lemma chan_inv_extend:
  assumes "chan_inv A S" and "ch_objs S c = Some k" and "conn_ok (task_id S) k'"
  shows "chan_inv (A \<union> (live k - live k')) (put_cconn c k' S)"
  by (rule put_cconn_inv [OF assms]) auto

lemma client_destroy_as:
  assumes "ch_objs S c = Some k"
  shows "client_destroy M D reason c S =
    put_cconn c ((close_socket k)\<lparr>cc_outgoing := []\<rparr>)
      (fold (\<lambda>(i, t). complete D (SetFailed (''rpc failed: '' @ error_message M reason)) t)
        (cc_outgoing k) (put_cconn c (close_socket k) S))"
  using assms by (simp add: client_destroy_def erase_from_copy_def Let_def)

lemma put_cconn_twice [simp]: "put_cconn c k' (put_cconn c k S) = put_cconn c k' S"
  by (simp add: put_cconn_def)

lemma put_cconn_complete:
  "put_cconn c k (complete D g t S) = complete D g t (put_cconn c k S)"
  by (simp add: complete_def run_done_def put_cconn_def set_ctl_def put_task_def Let_def
      split: option.splits)

lemma put_cconn_fold:
  "put_cconn c k (fold (\<lambda>(i, t). complete D g t) xs S) =
   fold (\<lambda>(i, t). complete D g t) xs (put_cconn c k S)"
  by (induction xs arbitrary: S) (auto simp: put_cconn_complete)

lemma client_destroy_inv:
  assumes "chan_inv A S" shows "chan_inv A (client_destroy M D reason c S)"
proof (cases "ch_objs S c")
  case (Some k)
  let ?k = "(close_socket k)\<lparr>cc_outgoing := []\<rparr>"
  have "live ?k \<subseteq> live k" "members ?k \<subseteq> members k" by (auto simp: live_def members_def)
  then have ok: "conn_ok (task_id S) ?k"
    using chan_invD(4) [OF assms Some] by (auto simp: conn_ok_def intro: inj_on_subset)
  have "chan_inv (A \<union> (live k - live ?k)) (put_cconn c ?k S)"
    by (rule chan_inv_extend [OF assms Some ok])
  moreover have "live k - live ?k \<subseteq> snd ` set (cc_outgoing k)" by (auto simp: live_def)
  ultimately have "chan_inv (A \<union> snd ` set (cc_outgoing k)) (put_cconn c ?k S)"
    using chan_inv_mono [of "A \<union> (live k - live ?k)"] by blast
  from fold_complete_inv [OF this, where xs = "cc_outgoing k"] show ?thesis
    unfolding client_destroy_as [OF Some] put_cconn_fold put_cconn_twice
    by (rule chan_inv_mono) auto
qed (use assms in \<open>simp add: client_destroy_def\<close>)

lemma client_destroy_simps [simp]:
  "ch_next_task (client_destroy M D reason c S) = ch_next_task S"
  "ch_next_conn (client_destroy M D reason c S) = ch_next_conn S"
  "ch_conns (client_destroy M D reason c S) = ch_conns S"
  "task_id (client_destroy M D reason c S) = task_id S"
  by (simp_all add: client_destroy_def erase_from_copy_def Let_def split: option.splits)

subsection \<open>Timers and failed calls\<close>

lemma setup_task_timer_simps [simp]:
  "ch_tasks (setup_task_timer c t S) = ch_tasks S" "task_id (setup_task_timer c t S) = task_id S"
  by (simp_all add: setup_task_timer_def split: option.splits)

lemma setup_task_timer_inv:
  assumes "chan_inv A S" and "\<And>k. ch_objs S c = Some k \<Longrightarrow> may_join (task_id S) t k"
  shows "chan_inv A (setup_task_timer c t S)"
proof -
  have "conn_ok (task_id S) (k\<lparr>cc_ops := TimerOp t # cc_ops k\<rparr>)" if "ch_objs S c = Some k" for k
    using chan_invD(4) [OF assms(1) that] assms(2) [OF that]
    by (rule conn_ok_join) (use chan_invD(4) [OF assms(1) that] in
        \<open>auto simp: members_def live_def conn_ok_def\<close>)
  then have "chan_inv A (add_op c (TimerOp t) S)" by (rule add_op_inv [OF assms(1)])
  then show ?thesis
    using assms(1) by (simp add: setup_task_timer_def split: option.splits)
qed

lemma finish_task_inv: "chan_inv A S \<Longrightarrow> chan_inv (A - {t}) (finish_task D t S)"
  by (simp add: finish_task_def complete_inv)

lemma fail_task_inv: "chan_inv A S \<Longrightarrow> chan_inv (A - {t}) (fail_task D reason ec t T S)"
  by (simp add: fail_task_def finish_task_inv)

subsection \<open>Starting a call and a read\<close>

lemma omap_insert_set:
  "set (omap_insert i t xs) \<subseteq> insert (i, t) (set xs)"
  "(i, t) \<in> set (omap_insert i t xs) \<or> (\<exists>u. (i, u) \<in> set xs)"
  "set xs \<subseteq> set (omap_insert i t xs)"
proof -
  show "set (omap_insert i t xs) \<subseteq> insert (i, t) (set xs)"
    by (induction xs) (force split: if_splits)+
  show "(i, t) \<in> set (omap_insert i t xs) \<or> (\<exists>u. (i, u) \<in> set xs)"
    by (induction xs) (force split: if_splits)+
  show "set xs \<subseteq> set (omap_insert i t xs)"
    by (induction xs) (force split: if_splits)+
qed

lemma omap_erase_set [simp]: "set (omap_erase i xs) = {(j, t) \<in> set xs. j \<noteq> i}"
  by (auto simp: omap_erase_def)

text \<open>Inserting an admissible task makes it live, whether or not its id was there before.\<close>

lemma outgoing_insert:
  assumes "conn_ok ids k" and "may_join ids t k" and "ids t = Some i"
  defines "k' \<equiv> k\<lparr>cc_outgoing := omap_insert i t (cc_outgoing k)\<rparr>"
  shows "conn_ok ids k'" and "live k' = insert t (live k)" and "may_join ids t k'"
proof -
  let ?o = "omap_insert i t (cc_outgoing k)"
  have out: "ids u = Some j" if "(j, u) \<in> set ?o" for j u
    using that omap_insert_set(1) [of i t "cc_outgoing k"] assms(1,3) by (auto simp: conn_ok_def)
  have mem: "(i, t) \<in> set ?o"
  proof -
    have "u = t" if "(i, u) \<in> set (cc_outgoing k)" for u
    proof -
      have "ids u = ids t" using that assms(1,3) by (auto simp: conn_ok_def)
      moreover have "u \<in> members k" using that by (force simp: members_def live_def)
      ultimately show ?thesis using assms(2) by (auto simp: may_join_def)
    qed
    with omap_insert_set(2) [of i t "cc_outgoing k"] omap_insert_set(3) [of "cc_outgoing k" i t] show ?thesis by blast
  qed
  have img: "snd ` set ?o = insert t (snd ` set (cc_outgoing k))"
    using mem omap_insert_set(1) [of i t "cc_outgoing k"]
      omap_insert_set(3) [of "cc_outgoing k" i t] by force
  show live: "live k' = insert t (live k)" using img by (auto simp: k'_def live_def)
  then have m: "members k' = insert t (members k)" by (auto simp: members_def k'_def)
  show ok: "conn_ok ids k'"
    by (rule conn_ok_join [OF assms(1,2)])
      (use m out assms(1) in \<open>auto simp: k'_def conn_ok_def\<close>)
  show "may_join ids t k'" by (rule member_may_join [OF ok]) (simp add: m)
qed

lemma wf_pbuf_put:
  "wf_pbuf b \<Longrightarrow> buf_p b = Some blk \<Longrightarrow> length blk' = length blk \<Longrightarrow> wf_pbuf (b\<lparr>buf_p := Some blk'\<rparr>)"
  by (auto simp: wf_pbuf_def)

text \<open>
  \<open>start_call\<close> either ends the call or makes the task live. What it leaves is one of four
  states, which the next lemma lists.
\<close>

lemma start_call_cases:
  assumes "start_call M P D c t S = Inr S'" and "ch_tasks S t = Some T"
  obtains (oom) b where "expand_packet M (t_buf T) (of_nat (sizeof_packet
        + unat (of_nat (ByteSize (cp_request P) (make_request P T)) :: u32)
        + unat (of_nat (ByteSize (md_request_api (t_method T)) (t_request T)) :: u32))) = Inr (-1, b)"
      "S' = fail_task D ''failed to allocate memory for rpc packet'' EC_OOM t (T\<lparr>t_buf := b\<rparr>)
              (put_task t (T\<lparr>t_buf := b\<rparr>) S)"
    | (no_meta) b reason where "wf_pbuf (t_buf T) \<Longrightarrow> wf_pbuf b"
      "S' = fail_task D reason EC_SERIALIZATION_ERROR t (T\<lparr>t_buf := b\<rparr>) (put_task t (T\<lparr>t_buf := b\<rparr>) S)"
    | (no_param) b b' reason where "wf_pbuf (t_buf T) \<Longrightarrow> wf_pbuf b'"
      "S' = fail_task D reason EC_SERIALIZATION_ERROR t (T\<lparr>t_buf := b\<rparr>)
              (put_task t (T\<lparr>t_buf := b'\<rparr>) S)"
    | (sent) b k out where "wf_pbuf (t_buf T) \<Longrightarrow> wf_pbuf b" "ch_objs S c = Some k"
      "S' = add_op c (WriteOp t out) (setup_task_timer c t
          (put_cconn c (k\<lparr>cc_outgoing := omap_insert (t_id T) t (cc_outgoing k)\<rparr>)
            (put_task t (T\<lparr>t_buf := b, t_state := STATE_WRITE_TO_SERVER\<rparr>) S)))"
proof -
  let ?n = "sizeof_packet + unat (of_nat (ByteSize (cp_request P) (make_request P T)) :: u32)
        + unat (of_nat (ByteSize (md_request_api (t_method T)) (t_request T)) :: u32)"
  have twice: "put_task t T2 (put_task t T1 S) = put_task t T2 S" for T1 T2
    by (simp add: put_task_def)
  obtain r b where e: "expand_packet M (t_buf T) (of_nat ?n) = Inr (r, b)"
    using assms by (cases "expand_packet M (t_buf T) (of_nat ?n)") (auto simp: start_call_def Let_def)
  have wf: "wf_pbuf b" if "wf_pbuf (t_buf T)" by (rule expand_packet_preserves_wf [OF that e])
  show ?thesis
  proof (cases "r = -1")
    case True
    with assms e show ?thesis by (intro oom) (auto simp: start_call_def Let_def)
  next
    case False
    obtain blk where blk: "buf_p b = Some blk"
      using assms e False by (cases "buf_p b") (auto simp: start_call_def Let_def)
    have wf': "wf_pbuf (b\<lparr>buf_p := Some blk'\<rparr>)" if "wf_pbuf (t_buf T)" "length blk' = length blk" for blk'
      using wf_pbuf_put [OF wf [OF that(1)] blk that(2)] .
    note s = assms(1) [unfolded start_call_def assms(2) deref_simps and_then_simps Let_def e
        prod.case if_not_P [OF False] blk]
    show ?thesis
    proof (cases "SerializeToArray (cp_request P) (make_request P T)
        (unat ((of_nat (ByteSize (cp_request P) (make_request P T)) :: u32)
          + of_nat (ByteSize (md_request_api (t_method T)) (t_request T))))")
      case None
      with s show ?thesis 
        by (intro no_meta [of b "''failed to serialize Request metadata into byte array''"])
          (auto simp: wf)
    next
      case (Some bs1)
      with s obtain blk1 where b1: "store_at off_data bs1 blk = Inr blk1"
        by (auto simp: and_then_eq_Inr_iff simp del: packet_layout)
      note l1 = store_at_length [OF b1]
      show ?thesis
      proof (cases "SerializeToArray (md_request_api (t_method T)) (t_request T)
          (unat (of_nat (ByteSize (md_request_api (t_method T)) (t_request T)) :: u32))")
        case None
        with s Some b1 twice show ?thesis
          by (intro no_param [of "b\<lparr>buf_p := Some blk1\<rparr>"
                "''failed to serialize request paramerter into byte array''" b])
            (auto simp: wf' l1 simp del: packet_layout)
      next
        case (Some bs2)
        with s \<open>SerializeToArray (cp_request P) _ _ = Some bs1\<close> b1 obtain blk2 blk3 blk4 k out
          where st: "store_at (off_data + unat (of_nat (ByteSize (cp_request P) (make_request P T)) :: u32))
              bs2 blk1 = Inr blk2"
            "store_header M (of_nat (ByteSize (cp_request P) (make_request P T)))
              (of_nat (ByteSize (md_request_api (t_method T)) (t_request T))) 0 blk2 = Inr blk3"
            "CONVERT_TO_NETWORK_ORDER M blk3 = Inr blk4" "ch_objs S c = Some k"
          and S': "S' = add_op c (WriteOp t out) (setup_task_timer c t
            (put_cconn c (k\<lparr>cc_outgoing := omap_insert (t_id T) t (cc_outgoing k)\<rparr>)
              (put_task t (T\<lparr>t_buf := b\<lparr>buf_p := Some blk4\<rparr>, t_state := STATE_WRITE_TO_SERVER\<rparr>) S)))"
          by (auto simp: and_then_eq_Inr_iff deref_eq_iff twice Let_def simp del: packet_layout)
        have "length blk4 = length blk3"
          using st(3) unfolding CONVERT_TO_NETWORK_ORDER_def convert_field_def store_u32_def
            and_then_eq_Inr_iff by (elim exE conjE) (simp add: store_at_length)
        moreover have "length blk3 = length blk2"
          using st(2) unfolding store_header_def store_u32_def and_then_eq_Inr_iff
          by (elim exE conjE) (simp add: store_at_length)
        ultimately have "length blk4 = length blk" using store_at_length [OF st(1)] l1 by simp
        with S' st(4) show ?thesis by (intro sent [of "b\<lparr>buf_p := Some blk4\<rparr>"]) (simp_all add: wf')
      qed
    qed
  qed
qed

lemma fail_after_put_inv:
  assumes "chan_inv A S" and "ch_tasks S t = Some T" and "wf_pbuf b"
  shows "chan_inv (A - {t}) (fail_task D reason ec t T' (put_task t (T\<lparr>t_buf := b\<rparr>) S))"
proof -
  have "task_ok (T\<lparr>t_buf := b\<rparr>)" using chan_invD(2) [OF assms(1,2)] assms(3) by (simp add: task_ok_def)
  then have "chan_inv A (put_task t (T\<lparr>t_buf := b\<rparr>) S)"
    by (intro put_task_inv(1) [OF assms(1,2)]) simp_all
  then show ?thesis by (rule fail_task_inv)
qed

lemma start_call_inv:
  assumes "start_call M P D c t S = Inr S'" and "chan_inv A S" and "ch_tasks S t = Some T"
    and "ch_objs S c = Some k" and "may_join (task_id S) t k"
  shows "chan_inv (A - {t}) S'"
proof -
  have wfT: "wf_pbuf (t_buf T)" using chan_invD(2) [OF assms(2,3)] by (simp add: task_ok_def)
  show ?thesis
    using assms(1,3)
  proof (cases rule: start_call_cases)
    case (oom b)
    with fail_after_put_inv [OF assms(2,3) expand_packet_preserves_wf [OF wfT oom(1)]]
    show ?thesis by simp
  next
    case (no_meta b reason)
    with fail_after_put_inv [OF assms(2,3) no_meta(1) [OF wfT]] show ?thesis by simp
  next
    case (no_param b b' reason)
    with fail_after_put_inv [OF assms(2,3) no_param(1) [OF wfT]] show ?thesis by simp
  next
    case (sent b k' out)
    let ?T = "T\<lparr>t_buf := b, t_state := STATE_WRITE_TO_SERVER\<rparr>"
    let ?S1 = "put_task t ?T S"
    let ?k = "k\<lparr>cc_outgoing := omap_insert (t_id T) t (cc_outgoing k)\<rparr>"
    have k': "k' = k" using sent(2) assms(4) by simp
    have "task_ok ?T"
      using chan_invD(2) [OF assms(2,3)] sent(1) [OF wfT]
      by (simp add: task_ok_def STATE_WRITE_TO_SERVER_def state_strs_def)
    then have inv1: "chan_inv A ?S1" by (intro put_task_inv(1) [OF assms(2,3)]) simp_all
    have ids: "task_id ?S1 = task_id S" by (rule task_id_put [OF assms(3)]) simp
    have idt: "task_id S t = Some (t_id T)" using assms(3) by (simp add: task_id_def)
    note oi = outgoing_insert [OF chan_invD(4) [OF assms(2,4)] assms(5) idt]
    have "chan_inv A (put_cconn c ?k ?S1)"
      by (rule put_cconn_inv [OF inv1]) (use assms(4) oi ids in auto)
    then have "chan_inv (A - {t}) (put_cconn c ?k ?S1)"
      unfolding chan_inv_def using oi(2) by auto
    then have timer: "chan_inv (A - {t}) (setup_task_timer c t (put_cconn c ?k ?S1))"
      by (rule setup_task_timer_inv) (use oi(3) ids in auto)
    have "chan_inv (A - {t}) (add_op c (WriteOp t out) (setup_task_timer c t (put_cconn c ?k ?S1)))"
      by (rule add_op_inv [OF timer], rule conn_ok_plain_op [OF chan_invD(4) [OF timer]]) simp_all
    then show ?thesis using sent(3) k' by simp
  qed
qed

lemma start_read_inv:
  assumes "start_read M D c S = Inr (S', thrown)" and "chan_inv A S"
  shows "chan_inv A S'"
proof -
  obtain k where k: "ch_objs S c = Some k"
    using assms(1) by (auto simp: start_read_def and_then_eq_Inr_iff deref_eq_iff)
  obtain r b where e: "expand_packet M (cc_buf k) (of_nat sizeof_packet) = Inr (r, b)"
    using assms(1) k by (cases "expand_packet M (cc_buf k) (of_nat sizeof_packet)")
      (auto simp: start_read_def)
  have ok: "conn_ok (task_id S) k" by (rule chan_invD(4) [OF assms(2) k])
  then have "wf_pbuf b" using expand_packet_preserves_wf [OF _ e] by (simp add: conn_ok_def)
  with ok have okb: "conn_ok (task_id S) (k\<lparr>cc_buf := b\<rparr>)" by (simp add: conn_ok_def)
  have inv: "chan_inv A (put_cconn c (k\<lparr>cc_buf := b\<rparr>) S)"
    by (rule put_cconn_inv [OF assms(2) k okb]) auto
  have "chan_inv A (add_op c ReadHeaderOp (put_cconn c (k\<lparr>cc_buf := b\<rparr>) S))"
    by (rule add_op_inv [OF inv]) (use conn_ok_plain_op [OF okb, of ReadHeaderOp] in simp)
  with inv client_destroy_inv show ?thesis
    using assms(1) k e by (auto simp: start_read_def Let_def split: if_splits)
qed

subsection \<open>CallMethod\<close>

lemma conn_ok_ids:
  assumes "conn_ok ids k" and "\<And>u i. ids u = Some i \<Longrightarrow> ids' u = Some i"
  shows "conn_ok ids' k"
proof -
  have eq: "ids' u = ids u" if "u \<in> members k" for u
    using that assms unfolding conn_ok_def by metis
  have "inj_on ids' (members k)" using assms(1) inj_on_cong [of "members k" ids' ids] eq
    by (simp add: conn_ok_def)
  moreover have "\<forall>(i, t)\<in>set (cc_outgoing k). ids' t = Some i"
    using assms unfolding conn_ok_def by blast
  moreover have "\<forall>t\<in>members k. \<exists>i. ids' t = Some i \<and> unat i \<le> unat (cc_id k)"
    using assms unfolding conn_ok_def by blast
  ultimately show ?thesis using assms(1) by (simp add: conn_ok_def)
qed

lemma conn_ok_id_grows:
  assumes "conn_ok ids k" and "unat (cc_id k) \<le> unat i"
  shows "conn_ok ids (k\<lparr>cc_id := i\<rparr>)"
proof -
  have "\<exists>j. ids t = Some j \<and> unat j \<le> unat i" if "t \<in> members k" for t
    using assms that unfolding conn_ok_def by (meson order_trans)
  with assms(1) show ?thesis by (simp add: conn_ok_def)
qed

lemma new_task_inv:
  assumes "chan_inv A S" and "ch_objs S c = Some k" and "cc_id k \<noteq> - 1"
    and "t = ch_next_task S" and "task_ok T" and "t_id T = cc_id k + 1"
  shows "chan_inv (insert t A) (put_cconn c (k\<lparr>cc_id := cc_id k + 1\<rparr>)
      (put_task t T (S\<lparr>ch_next_task := Suc t\<rparr>)))" (is "chan_inv _ ?S")
    and "may_join (task_id (put_task t T (S\<lparr>ch_next_task := Suc t\<rparr>))) t (k\<lparr>cc_id := cc_id k + 1\<rparr>)"
proof -
  let ?ids = "task_id (put_task t T (S\<lparr>ch_next_task := Suc t\<rparr>))"
  have fresh: "ch_tasks S t = None"
    using chan_invD(1) [OF assms(1), of t] assms(4) by (cases "ch_tasks S t") auto
  have ids: "?ids = (task_id S)(t \<mapsto> cc_id k + 1)" using assms(6) by (auto simp: task_id_def)
  have none: "task_id S t = None" using fresh by (simp add: task_id_def)
  have lt: "unat (cc_id k) < unat (cc_id k + 1)"
  proof -
    have "1 + cc_id k \<noteq> 0" using assms(3) by (simp add: add_eq_0_iff)
    from unatSuc [OF this] show ?thesis by (simp add: add.commute)
  qed
  have ext: "conn_ok ?ids k'" if "conn_ok (task_id S) k'" for k'
    by (rule conn_ok_ids [OF that]) (use none in \<open>auto simp: ids\<close>)
  have okk: "conn_ok (task_id S) k" by (rule chan_invD(4) [OF assms(1,2)])
  have okk': "conn_ok ?ids (k\<lparr>cc_id := cc_id k + 1\<rparr>)"
    by (rule conn_ok_id_grows [OF ext [OF okk]]) (use lt in simp)
  have "chan_inv (insert t A) (put_task t T (S\<lparr>ch_next_task := Suc t\<rparr>))"
    unfolding chan_inv_def
  proof (intro conjI allI impI)
    fix u U assume "ch_tasks (put_task t T (S\<lparr>ch_next_task := Suc t\<rparr>)) u = Some U"
    then have u: "u = t \<and> U = T \<or> u \<noteq> t \<and> ch_tasks S u = Some U" by (auto split: if_splits)
    then show "u < ch_next_task (put_task t T (S\<lparr>ch_next_task := Suc t\<rparr>))" "task_ok U"
      using chan_invD(1,2) [OF assms(1)] assms(4,5) by (auto intro: less_SucI)
    show "t_called U \<or> u \<in> insert t A \<or> (\<exists>c k. ch_objs (put_task t T (S\<lparr>ch_next_task := Suc t\<rparr>)) c = Some k \<and>
        u \<in> live k)"
      using u chan_invD(5) [OF assms(1), of u U] by auto
  next
    fix c' k' assume "ch_objs (put_task t T (S\<lparr>ch_next_task := Suc t\<rparr>)) c' = Some k'"
    then have k': "ch_objs S c' = Some k'" by simp
    show "c' < ch_next_conn (put_task t T (S\<lparr>ch_next_task := Suc t\<rparr>))"
      using chan_invD(3) [OF assms(1) k'] by simp
    show "conn_ok ?ids k'" by (rule ext [OF chan_invD(4) [OF assms(1) k']])
  qed
  then show "chan_inv (insert t A) ?S"
    by (rule put_cconn_inv) (use assms(2) okk' in auto)
  show "may_join ?ids t (k\<lparr>cc_id := cc_id k + 1\<rparr>)"
    unfolding may_join_def
  proof (intro conjI ballI impI)
    show "\<exists>i. ?ids t = Some i \<and> unat i \<le> unat (cc_id (k\<lparr>cc_id := cc_id k + 1\<rparr>))" by (simp add: ids)
  next
    fix t' assume t': "t' \<in> members (k\<lparr>cc_id := cc_id k + 1\<rparr>)" and eq: "?ids t' = ?ids t"
    show "t' = t"
    proof (rule ccontr)
      assume "t' \<noteq> t"
      with eq have "task_id S t' = Some (cc_id k + 1)" by (simp add: ids)
      with okk t' lt show False by (force simp: conn_ok_def)
    qed
  qed
qed

lemma chan_inv_live:
  assumes "chan_inv A S" and "ch_objs S c = Some k" and "t \<in> live k"
  shows "chan_inv (A - {t}) S"
  unfolding chan_inv_def
proof (intro conjI allI impI)
  fix u T assume u: "ch_tasks S u = Some T"
  show "t_called T \<or> u \<in> A - {t} \<or> (\<exists>c k. ch_objs S c = Some k \<and> u \<in> live k)"
    using chan_invD(5) [OF assms(1) u] assms(2,3) by blast
qed (use chan_invD(1-4) [OF assms(1)] in blast)+

lemma new_conn_inv:
  assumes "chan_inv A S" and "c = ch_next_conn S" and "\<And>ids. conn_ok ids k"
  shows "chan_inv A ((put_cconn c k (S\<lparr>ch_next_conn := Suc c\<rparr>))\<lparr>ch_conns := tab\<rparr>)" (is "chan_inv A ?S")
  unfolding chan_inv_def
proof (intro conjI allI impI)
  have ids: "task_id ?S = task_id S" by (simp add: task_id_def fun_eq_iff)
  fix c' k' assume c': "ch_objs ?S c' = Some k'"
  then show "c' < ch_next_conn ?S"
    using chan_invD(3) [OF assms(1), of c'] assms(2) by (auto split: if_splits intro: less_SucI)
  show "conn_ok (task_id ?S) k'"
    unfolding ids using c' chan_invD(4) [OF assms(1), of c'] assms(3) by (auto split: if_splits)
next
  fix u T assume u: "ch_tasks ?S u = Some T"
  then show "u < ch_next_task ?S" "task_ok T" using chan_invD(1,2) [OF assms(1)] by auto
  have "ch_objs S c = None"
    using chan_invD(3) [OF assms(1), of c] assms(2) by (cases "ch_objs S c") auto
  then have "ch_objs ?S c' = Some k'" if "ch_objs S c' = Some k'" for c' k'
    using that by auto
  moreover have "ch_tasks S u = Some T" using u by simp
  ultimately show "t_called T \<or> u \<in> A \<or> (\<exists>c k. ch_objs ?S c = Some k \<and> u \<in> live k)"
    using chan_invD(5) [OF assms(1)] by blast
qed

lemma issue_inv:
  assumes "issue M P D c method ctl request response done_cb S = Inr S'" and "chan_inv A S"
    and "\<And>k. ch_objs S c = Some k \<Longrightarrow> cc_id k \<noteq> - 1"
  shows "chan_inv A S'"
proof -
  obtain k where k: "ch_objs S c = Some k"
    using assms(1) by (auto simp: issue_def and_then_eq_Inr_iff deref_eq_iff)
  define t where "t = ch_next_task S"
  define T where "T = \<lparr>t_method = method, t_controller = ctl, t_request = request, t_response = response,
      t_done = done_cb, t_buf = null_buf, t_id = cc_id k + 1, t_called = False,
      t_state = STATE_CONNECT_TO_SERVER, t_runs = 0\<rparr>"
  define k1 where "k1 = k\<lparr>cc_id := cc_id k + 1\<rparr>"
  define S1 where "S1 = put_cconn c k1 (put_task t T (S\<lparr>ch_next_task := Suc t\<rparr>))"
  have T: "task_ok T" "t_id T = cc_id k + 1"
    by (simp_all add: task_ok_def T_def STATE_CONNECT_TO_SERVER_def state_strs_def)
  note new = new_task_inv [OF assms(2) k assms(3) [OF k] t_def T, folded k1_def S1_def]
  have S1: "ch_objs S1 c = Some k1" "ch_tasks S1 t = Some T"
    "task_id S1 = task_id (put_task t T (S\<lparr>ch_next_task := Suc t\<rparr>))" by (simp_all add: S1_def)
  have join: "may_join (task_id S1) t k1" using new(2) by (simp only: S1(3))
  have ok1: "conn_ok (task_id S1) k1" by (rule chan_invD(4) [OF new(1) S1(1)])
  have fresh: "t \<notin> A \<or> chan_inv (insert t A - {t}) S1 \<Longrightarrow> True" by simp
  show ?thesis
  proof (cases "cc_open k")
    case True
    then have "start_call M P D c t S1 = Inr S'"
      using assms(1) k by (simp add: issue_def Let_def t_def T_def k1_def S1_def)
    from start_call_inv [OF this new(1) S1(2,1) join] show ?thesis
      by (rule chan_inv_mono) auto
  next
    case False
    let ?k2 = "k1\<lparr>cc_ops := ResolveOp t # cc_ops k1, cc_connecting := True\<rparr>"
    have S': "S' = setup_task_timer c t (put_cconn c ?k2 S1)"
      using assms(1) k False by (simp add: issue_def Let_def t_def T_def k1_def S1_def)
    have m: "members ?k2 = insert t (members k1)" "live ?k2 = insert t (live k1)"
      by (auto simp: members_def live_def)
    have ok2: "conn_ok (task_id S1) ?k2"
      by (rule conn_ok_join [OF ok1 join]) (use m ok1 in \<open>auto simp: conn_ok_def\<close>)
    have "chan_inv (insert t A) (put_cconn c ?k2 S1)"
      by (rule put_cconn_inv [OF new(1) S1(1) ok2]) (use m in auto)
    from chan_inv_live [OF this, of c ?k2 t] m(2) have "chan_inv (insert t A - {t}) (put_cconn c ?k2 S1)"
      by simp
    then have "chan_inv A (put_cconn c ?k2 S1)" by (rule chan_inv_mono) auto
    then show ?thesis
      unfolding S' by (rule setup_task_timer_inv)
        (use member_may_join [OF ok2] m in auto)
  qed
qed

lemma CallMethod_inv:
  assumes "CallMethod M P D method ctl request response done_cb S = Inr S'" and "chan_inv A S"
    and "ids_left S"
  shows "chan_inv A S'"
proof -
  let ?h = "ctl_host (ch_ctls S ctl)" and ?s = "ctl_service (ch_ctls S ctl)"
  show ?thesis
  proof (cases "ch_conns S (?h @ '':'' @ ?s)")
    case (Some c)
    then have "issue M P D c method ctl request response done_cb S = Inr S'"
      using assms(1) by (simp add: CallMethod_def Let_def)
    then show ?thesis by (rule issue_inv [OF _ assms(2)]) (use assms(3) in \<open>simp add: ids_left_def\<close>)
  next
    case None
    define c where "c = ch_next_conn S"
    define k where "k = RpcClientConnection_new ?h ?s"
    define S2 where "S2 = (put_cconn c k (S\<lparr>ch_next_conn := Suc c\<rparr>))
      \<lparr>ch_conns := client_map_insert (?h @ '':'' @ ?s) c (ch_conns S)\<rparr>"
    have call: "issue M P D c method ctl request response done_cb S2 = Inr S'"
      using assms(1) None by (simp add: CallMethod_def Let_def c_def k_def S2_def)
    have "conn_ok ids k" for ids
      by (simp add: conn_ok_def k_def RpcClientConnection_new_def members_def live_def)
    then have "chan_inv A S2" unfolding S2_def by (rule new_conn_inv [OF assms(2) c_def])
    then show ?thesis
      by (rule issue_inv [OF call])
        (simp add: S2_def k_def RpcClientConnection_new_def)
  qed
qed

subsection \<open>The handlers\<close>

text \<open>What removing the completed operation leaves.\<close>

lemma op_done_simps [simp]:
  "ch_tasks (op_done c x S) = ch_tasks S" "task_id (op_done c x S) = task_id S"
  by (simp_all add: op_done_def split: option.splits)

definition op_tasks :: "client_op \<Rightarrow> nat set" where
  "op_tasks x = (case x of ResolveOp t \<Rightarrow> {t} | ConnectOp t \<Rightarrow> {t} | _ \<Rightarrow> {})"

lemma op_done_inv:
  assumes "chan_inv A S" and "ch_objs S c = Some k"
    and k'_def: "k' = k\<lparr>cc_ops := remove1 x (cc_ops k)\<rparr>"
  shows "chan_inv (A \<union> op_tasks x) (op_done c x S)" and "ch_objs (op_done c x S) c = Some k'"
    and "members k' \<subseteq> members k"
proof -
  have sub: "set (remove1 x (cc_ops k)) \<subseteq> set (cc_ops k)" by (rule set_remove1_subset)
  then show m: "members k' \<subseteq> members k" by (auto simp: members_def live_def k'_def)
  have "conn_ok (task_id S) k" by (rule chan_invD(4) [OF assms(1,2)])
  then have ok: "conn_ok (task_id S) k'"
    using m by (auto simp: conn_ok_def k'_def intro: inj_on_subset)
  have rem: "y = x" if "y \<in> set (cc_ops k)" "y \<notin> set (remove1 x (cc_ops k))" for y
    using that by (metis in_set_remove1)
  then have l: "live k \<subseteq> live k' \<union> (A \<union> op_tasks x)"
    by (auto simp: live_def k'_def op_tasks_def split: client_op.splits)
  show "chan_inv (A \<union> op_tasks x) (op_done c x S)"
    using put_cconn_inv [OF assms(1,2) ok l] assms(2) by (simp add: op_done_def k'_def)
  show "ch_objs (op_done c x S) c = Some k'" using assms(2) by (simp add: op_done_def k'_def)
qed

lemma fail_and_destroy_inv:
  "chan_inv A S \<Longrightarrow> chan_inv (A - {t}) (client_destroy M D e c (complete D g t S))"
  by (intro client_destroy_inv complete_inv)

lemma handle_resolve_inv:
  assumes "handle_resolve M D error c t S = Inr (S', thrown)" and "chan_inv A S"
    and "ch_objs S c = Some k" and "may_join (task_id S) t k"
  shows "chan_inv (A - {t}) S'"
proof (cases error)
  case (Some e)
  with assms(1) fail_and_destroy_inv [OF assms(2)] show ?thesis by (auto simp: handle_resolve_def)
next
  case None
  let ?k = "(close_socket k)\<lparr>cc_open := True, cc_ops := ConnectOp t # cc_ops k\<rparr>"
  have S': "S' = put_cconn c ?k S" using assms(1,3) None by (simp add: handle_resolve_def)
  have m: "members ?k = insert t (members k)" "live ?k = insert t (live k)"
    by (auto simp: members_def live_def)
  have ok: "conn_ok (task_id S) k" by (rule chan_invD(4) [OF assms(2,3)])
  have "conn_ok (task_id S) ?k"
    by (rule conn_ok_join [OF ok assms(4)]) (use m ok in \<open>auto simp: conn_ok_def\<close>)
  from put_cconn_inv [OF assms(2,3) this] m have "chan_inv A (put_cconn c ?k S)" by auto
  then show ?thesis unfolding S' by (rule chan_inv_live [where c = c and k = ?k]) (use m(2) in simp_all)
qed

lemma handle_connect_inv:
  assumes "handle_connect M P D error c t S = Inr (S', thrown)" and "chan_inv A S"
    and "ch_objs S c = Some k" and "may_join (task_id S) t k" and "ch_tasks S t = Some T"
  shows "chan_inv (A - {t}) S'"
proof (cases error)
  case (Some e)
  with assms(1) fail_and_destroy_inv [OF assms(2)] show ?thesis by (auto simp: handle_connect_def)
next
  case None
  let ?k = "k\<lparr>cc_connecting := False\<rparr>"
  obtain S1 where 1: "start_call M P D c t (put_cconn c ?k S) = Inr S1"
    and 2: "start_read M D c S1 = Inr (S', thrown)"
    using assms(1,3) None by (auto simp: handle_connect_def and_then_eq_Inr_iff)
  have "conn_ok (task_id S) ?k" using chan_invD(4) [OF assms(2,3)] by (simp add: conn_ok_def)
  then have inv: "chan_inv A (put_cconn c ?k S)" by (rule put_cconn_inv [OF assms(2,3)]) auto
  have "may_join (task_id (put_cconn c ?k S)) t ?k"
    using may_join_sub [OF assms(4), of ?k] by simp
  then have "chan_inv (A - {t}) S1"
    using start_call_inv [OF 1 inv, of T ?k] assms(5) by simp
  then show ?thesis by (rule start_read_inv [OF 2])
qed

lemma handle_timeout_inv:
  assumes "handle_timeout M D error c t S = Inr (S', thrown)" and "chan_inv A S"
    and "\<And>k. ch_objs S c = Some k \<Longrightarrow> may_join (task_id S) t k"
  shows "chan_inv A S'"
proof (cases error)
  case (Some e)
  with assms(1,2) show ?thesis by (simp add: handle_timeout_def)
next
  case None
  obtain k T where k: "ch_objs S c = Some k" and T: "ch_tasks S t = Some T"
    using assms(1) None by (auto simp: handle_timeout_def and_then_eq_Inr_iff deref_eq_iff)
  let ?k = "k\<lparr>cc_outgoing := omap_erase (t_id T) (cc_outgoing k)\<rparr>"
  have okk: "conn_ok (task_id S) k" by (rule chan_invD(4) [OF assms(2) k])
  have m: "members ?k \<subseteq> members k" by (auto simp: members_def live_def)
  have ok: "conn_ok (task_id S) ?k"
    using okk m by (auto simp: conn_ok_def intro: inj_on_subset)
  have "u = t" if "(t_id T, u) \<in> set (cc_outgoing k)" for u
  proof -
    have "task_id S u = task_id S t" using that okk T by (auto simp: conn_ok_def task_id_def)
    moreover have "u \<in> members k" using that by (force simp: members_def live_def)
    ultimately show ?thesis using assms(3) [OF k] by (auto simp: may_join_def)
  qed
  then have l: "live k \<subseteq> live ?k \<union> insert t A" by (force simp: live_def)
  have "chan_inv (insert t A) (put_cconn c ?k S)" by (rule put_cconn_inv [OF assms(2) k ok l]) auto
  then have "chan_inv (insert t A - {t}) (complete D g t (put_cconn c ?k S))" for g
    by (rule complete_inv)
  then have "chan_inv A (complete D g t (put_cconn c ?k S))" for g
    using chan_inv_mono by blast
  then show ?thesis
    using assms(1) None k T
    by (auto simp: handle_timeout_def Let_def split: if_splits intro!: client_destroy_inv)
qed

lemma handle_write_inv:
  assumes "handle_write M D error c t S = Inr (S', thrown)" and "chan_inv A S"
  shows "chan_inv A S'"
proof (cases error)
  case (Some e)
  with assms show ?thesis
    by (auto simp: handle_write_def intro!: client_destroy_inv complete_inv')
next
  case None
  then obtain T where T: "ch_tasks S t = Some T" and S': "S' = put_task t (T\<lparr>t_state := STATE_READ_DATA\<rparr>) S"
    using assms(1) by (auto simp: handle_write_def and_then_eq_Inr_iff deref_eq_iff)
  have "task_ok (T\<lparr>t_state := STATE_READ_DATA\<rparr>)"
    using chan_invD(2) [OF assms(2) T] by (simp add: task_ok_def STATE_READ_DATA_def state_strs_def)
  then show ?thesis unfolding S' by (intro put_task_inv(1) [OF assms(2) T]) simp_all
qed

lemma client_read_header_inv:
  assumes "client_read_header M D error c S = Inr (S', thrown)" and "chan_inv A S"
  shows "chan_inv A S'"
proof (cases error)
  case (Some e)
  with assms show ?thesis by (auto simp: client_read_header_def intro: client_destroy_inv)
next
  case None
  obtain k blk blk' n r b where k: "ch_objs S c = Some k" and blk: "buf_p (cc_buf k) = Some blk"
    and conv: "CONVERT_TO_HOST_ORDER M blk = Inr blk'"
    and e: "expand_packet M ((cc_buf k)\<lparr>buf_p := Some blk'\<rparr>) (n + 12) = Inr (r, b)"
    and S': "let S1 = put_cconn c (k\<lparr>cc_n := n, cc_buf := b\<rparr>) S in
      S' = client_destroy M D not_enough_memory c S1 \<or> S' = add_op c (ReadPayloadOp n) S1"
    using assms(1) None
    by (auto simp: client_read_header_def and_then_eq_Inr_iff deref_eq_iff Let_def split: if_splits)
  have ok: "conn_ok (task_id S) k" by (rule chan_invD(4) [OF assms(2) k])
  have "length blk' = length blk"
    using conv unfolding CONVERT_TO_HOST_ORDER_def convert_field_def store_u32_def
      and_then_eq_Inr_iff by (elim exE conjE) (simp add: store_at_length)
  then have "wf_pbuf ((cc_buf k)\<lparr>buf_p := Some blk'\<rparr>)"
    using ok wf_pbuf_put [OF _ blk] by (simp add: conn_ok_def)
  then have "wf_pbuf b" using e by (rule expand_packet_preserves_wf)
  with ok have ok1: "conn_ok (task_id S) (k\<lparr>cc_n := n, cc_buf := b\<rparr>)" by (simp add: conn_ok_def)
  have inv: "chan_inv A (put_cconn c (k\<lparr>cc_n := n, cc_buf := b\<rparr>) S)"
    by (rule put_cconn_inv [OF assms(2) k ok1]) auto
  have "chan_inv A (add_op c (ReadPayloadOp n) (put_cconn c (k\<lparr>cc_n := n, cc_buf := b\<rparr>) S))"
    by (rule add_op_inv [OF inv]) (use conn_ok_plain_op [OF ok1, of "ReadPayloadOp n"] in simp)
  with S' client_destroy_inv [OF inv] show ?thesis by (auto simp: Let_def)
qed

lemma deliver_response_simps [simp]:
  "ch_tasks (deliver_response st msg parsed T S) = ch_tasks S"
  "ch_objs (deliver_response st msg parsed T S) = ch_objs S"
  "ch_next_task (deliver_response st msg parsed T S) = ch_next_task S"
  "ch_next_conn (deliver_response st msg parsed T S) = ch_next_conn S"
  "task_id (deliver_response st msg parsed T S) = task_id S"
  by (simp_all add: deliver_response_def store_response_def task_id_def fun_eq_iff Let_def
      split: option.splits)

lemma deliver_response_inv [simp]:
  "chan_inv A (deliver_response st msg parsed T S) = chan_inv A S"
  by (simp add: chan_inv_def)

lemma erase_task_inv:
  assumes "chan_inv A S" and "\<And>k u. ch_objs S c = Some k \<Longrightarrow> (i, u) \<in> set (cc_outgoing k) \<Longrightarrow> u = t"
  shows "chan_inv (insert t A) (erase_task c i S)"
proof (cases "ch_objs S c")
  case None
  with chan_inv_mono [OF assms(1)] show ?thesis by (auto simp: erase_task_def)
next
  case (Some k)
  let ?k = "k\<lparr>cc_outgoing := omap_erase i (cc_outgoing k)\<rparr>"
  have "conn_ok (task_id S) k" by (rule chan_invD(4) [OF assms(1) Some])
  moreover have "members ?k \<subseteq> members k" by (auto simp: members_def live_def)
  ultimately have ok: "conn_ok (task_id S) ?k" by (auto simp: conn_ok_def intro: inj_on_subset)
  have "live k \<subseteq> live ?k \<union> insert t A" using assms(2) [OF Some] by (force simp: live_def)
  from put_cconn_inv [OF assms(1) Some ok this] Some show ?thesis by (auto simp: erase_task_def)
qed

lemma match_response_inv:
  assumes "match_response M D blk rpc_len rpc_resp c k S = Inr (S', thrown)" and "chan_inv A S"
    and k: "ch_objs S c = Some k"
  shows "chan_inv A S'"
proof (cases "map_of (cc_outgoing k) (rs_id rpc_resp)")
  case None
  with assms(1) have "start_read M D c S = Inr (S', thrown)" by (simp add: match_response_def)
  then show ?thesis using assms(2) by (rule start_read_inv)
next
  case (Some t)
  then obtain T st msg parsed S2 thrown' where found: "ch_tasks S t = Some T"
      "start_read M D c (deliver_response st msg parsed T (put_task t (T\<lparr>t_state := STATE_DONE\<rparr>) S))
        = Inr (S2, thrown')"
      "S' = (if thrown' \<noteq> None then S2 else finish_task D t (erase_task c (rs_id rpc_resp) S2))"
    using assms(1) unfolding match_response_def
    by (fastforce simp: and_then_eq_Inr_iff deref_eq_iff Let_def split: if_splits)
  let ?S1 = "deliver_response st msg parsed T (put_task t (T\<lparr>t_state := STATE_DONE\<rparr>) S)"
  have "task_ok (T\<lparr>t_state := STATE_DONE\<rparr>)"
    using chan_invD(2) [OF assms(2) found(1)] by (simp add: task_ok_def STATE_DONE_def state_strs_def)
  then have "chan_inv A (put_task t (T\<lparr>t_state := STATE_DONE\<rparr>) S)"
    by (intro put_task_inv(1) [OF assms(2) found(1)]) simp_all
  then have "chan_inv A ?S1" by simp
  then have inv2: "chan_inv A S2" by (rule start_read_inv [OF found(2)])
  show ?thesis
  proof (cases thrown')
    case (Some x)
    with inv2 found(3) show ?thesis by simp
  next
    case None
    have out: "cc_outgoing k2 = cc_outgoing k" if "ch_objs S2 c = Some k2" for k2
      using found(1,2) k None that
      by (auto simp: start_read_def and_then_eq_Inr_iff Let_def add_op_def split: if_splits)
    have okk: "conn_ok (task_id S) k" by (rule chan_invD(4) [OF assms(2) k])
    have uniq: "u = t" if "(rs_id rpc_resp, u) \<in> set (cc_outgoing k)" for u
    proof -
      have "(rs_id rpc_resp, t) \<in> set (cc_outgoing k)"
        by (rule map_of_SomeD [OF \<open>map_of (cc_outgoing k) (rs_id rpc_resp) = Some t\<close>])
      moreover from this that have "u \<in> members k" "t \<in> members k"
        by (force simp: members_def live_def)+
      moreover have "task_id S v = Some (rs_id rpc_resp)"
        if "(rs_id rpc_resp, v) \<in> set (cc_outgoing k)" for v
        using that okk unfolding conn_ok_def by fast
      from this [OF that] this [OF calculation(1)] have "task_id S u = task_id S t" by simp
      ultimately show ?thesis using okk by (auto simp: conn_ok_def inj_on_def)
    qed
    have "chan_inv (insert t A) (erase_task c (rs_id rpc_resp) S2)"
      by (rule erase_task_inv [OF inv2]) (use out uniq in auto)
    from finish_task_inv [OF this, of t D] None found(3) show ?thesis
      by (auto intro: chan_inv_mono)
  qed
qed

lemma client_read_payload_inv:
  fixes P :: "'u client_protocol"
  assumes "client_read_payload M P D error transferred c S = Inr (S', thrown)" and "chan_inv A S"
  shows "chan_inv A S'"
proof -
  obtain k where k: "ch_objs S c = Some k"
    using assms(1) by (auto simp: client_read_payload_def and_then_eq_Inr_iff deref_eq_iff)
  consider (same) "S' = S" | (destroyed) e where "S' = client_destroy M D e c S"
    | (matched) blk rpc_len and rpc_resp :: "'u Response"
      where "match_response M D blk rpc_len rpc_resp c k S = Inr (S', thrown)"
    using assms(1) k unfolding client_read_payload_def
    by (auto simp: and_then_eq_Inr_iff deref_eq_iff split: if_splits option.splits)
  then show ?thesis
    using client_destroy_inv [OF assms(2)] match_response_inv [OF _ assms(2) k] assms(2)
    by cases auto
qed

subsection \<open>Every event preserves the invariant\<close>

lemma client_store_inv:
  assumes "client_store c off bs S = Inr S'" and "chan_inv A S"
  shows "chan_inv A S'"
proof -
  obtain k blk blk' where k: "ch_objs S c = Some k" and blk: "buf_p (cc_buf k) = Some blk"
    and st: "store_at off bs blk = Inr blk'"
    and S': "S' = put_cconn c (k\<lparr>cc_buf := (cc_buf k)\<lparr>buf_p := Some blk'\<rparr>\<rparr>) S"
    using assms(1) by (auto simp: client_store_def and_then_eq_Inr_iff deref_eq_iff)
  have "conn_ok (task_id S) k" by (rule chan_invD(4) [OF assms(2) k])
  then have "conn_ok (task_id S) (k\<lparr>cc_buf := (cc_buf k)\<lparr>buf_p := Some blk'\<rparr>\<rparr>)"
    using wf_pbuf_put [OF _ blk store_at_length [OF st]] by (simp add: conn_ok_def)
  then show ?thesis unfolding S' by (rule put_cconn_inv [OF assms(2) k]) auto
qed

lemma client_run_inv:
  assumes "client_run M P D ev S = Inr (S', thrown)" and "client_enabled ev S" and "chan_inv {} S"
  shows "chan_inv {} S'"
proof -
  obtain c x where cx: "completes ev = (c, x)" by (cases "completes ev")
  obtain k where k: "ch_objs S c = Some k" "x \<in> set (cc_ops k)"
    using assms(2) cx by (auto simp: client_enabled_def split: option.splits)
  define k' where "k' = k\<lparr>cc_ops := remove1 x (cc_ops k)\<rparr>"
  define S0 where "S0 = op_done c x S"
  have okk: "conn_ok (task_id S) k" by (rule chan_invD(4) [OF assms(3) k(1)])
  note od = op_done_inv [OF assms(3) k(1) k'_def, folded S0_def]
  have inv: "chan_inv (op_tasks x) S0" using od(1) by simp
  have ids: "task_id S0 = task_id S" "ch_tasks S0 = ch_tasks S" by (simp_all add: S0_def)
  have h: "client_handler M P D ev S0 = Inr (S', thrown)"
    using assms(1) cx by (simp add: client_run_def S0_def)
  have join: "may_join (task_id S0) t k'" if "t \<in> members k" for t
    using may_join_sub [OF member_may_join [OF okk that] od(3)] ids by (simp add: k'_def)
  have tasks: "\<exists>T. ch_tasks S0 t = Some T" if "t \<in> members k" for t
    using okk that ids(2) by (auto simp: conn_ok_def task_id_def)
  show ?thesis
  proof (cases ev)
    case (Resolved c' t e)
    then have eq: "c' = c" "x = ResolveOp t" using cx by simp_all
    then have "t \<in> members k" using k(2) by (simp add: members_def live_def)
    from handle_resolve_inv [OF _ inv od(2) join [OF this]] h Resolved eq show ?thesis
      by (auto simp: op_tasks_def)
  next
    case (Connected c' t e)
    then have eq: "c' = c" "x = ConnectOp t" using cx by simp_all
    then have m: "t \<in> members k" using k(2) by (simp add: members_def live_def)
    obtain T where "ch_tasks S0 t = Some T" using tasks [OF m] by auto
    from handle_connect_inv [OF _ inv od(2) join [OF m] this] h Connected eq show ?thesis
      by (auto simp: op_tasks_def)
  next
    case (WriteDone c' t bs e)
    then have "op_tasks x = {}" using cx by (auto simp: op_tasks_def)
    with handle_write_inv [OF _ inv] h WriteDone show ?thesis by auto
  next
    case (HeaderArrived c' bs e)
    then have "op_tasks x = {}" using cx by (auto simp: op_tasks_def)
    then have "chan_inv {} S0" using inv by simp
    moreover obtain S1 where "client_store c' 0 bs S0 = Inr S1"
      "client_read_header M D e c' S1 = Inr (S', thrown)"
      using h HeaderArrived by (auto simp: and_then_eq_Inr_iff)
    ultimately show ?thesis using client_store_inv client_read_header_inv by blast
  next
    case (PayloadArrived c' n bs e)
    then have "op_tasks x = {}" using cx by (auto simp: op_tasks_def)
    then have "chan_inv {} S0" using inv by simp
    moreover obtain S1 where "client_store c' off_data bs S0 = Inr S1"
      "client_read_payload M P D e (length bs) c' S1 = Inr (S', thrown)"
      using h PayloadArrived by (auto simp: and_then_eq_Inr_iff)
    ultimately show ?thesis using client_store_inv client_read_payload_inv by blast
  next
    case (TimerFired c' t e)
    then have eq: "c' = c" "x = TimerOp t" using cx by simp_all
    then have m: "t \<in> members k" using k(2) by (simp add: members_def)
    have inv0: "chan_inv {} S0" using inv eq by (simp add: op_tasks_def)
    have run: "handle_timeout M D e c t S0 = Inr (S', thrown)" using h TimerFired eq by simp
    have "may_join (task_id S0) t k2" if "ch_objs S0 c = Some k2" for k2
      using join [OF m] od(2) that by simp
    then show ?thesis by (rule handle_timeout_inv [OF run inv0])
  qed
qed

lemma chan_inv_new: "chan_inv {} (CarrotAsyncChannel_new ctls resps)"
  by (simp add: chan_inv_def CarrotAsyncChannel_new_def)

lemma channel_reachable_inv: "channel_reachable M P D S \<Longrightarrow> chan_inv {} S"
proof (induction rule: channel_reachable.induct)
  case (start ctls resps)
  show ?case by (rule chan_inv_new)
next
  case (call S md ctl request response done_cb S')
  from CallMethod_inv [OF call.hyps(3) call.IH call.hyps(2)] show ?case .
next
  case (user S a g)
  then show ?case by simp
next
  case (user_response S a m)
  have "task_id (store_response a m S) = task_id S" by (simp add: store_response_def task_id_def fun_eq_iff)
  with user_response.IH show ?case by (simp add: chan_inv_def) (simp add: store_response_def)
next
  case (event S ev S' thrown)
  from client_run_inv [OF event.hyps(3,2) event.IH] show ?case .
qed

end
