(* ===== verification/Async_Channel_Calls.thy ===== *)
theory Async_Channel_Calls
  imports Async_Channel_Inv Varint_Wire
begin

section \<open>What the asynchronous channel sends and how it ends a call\<close>

subsection \<open>The frame of a call\<close>

text \<open>
  A call that can be serialised, with memory available and at most \<open>2 ^ 31\<close> bytes, is handed
  to \<open>async_write\<close> as one frame: the lengths of its parts, the \<open>Request\<close> with the call's id
  and method identity, and the request message.
\<close>

lemma of_nat_size: "n < 4294967296 \<Longrightarrow> unat (of_nat n :: u32) = n"
  by (rule unat_of_nat_u32)

lemma expand_null_alloc:
  assumes "\<And>n. can_alloc M n" and "n \<le> 2147483648"
  obtains b blk where "expand_packet M null_buf (of_nat n) = Inr (0, b)" "buf_p b = Some blk"
    "n \<le> length blk" "wf_pbuf b"
proof -
  have n: "unat (of_nat n :: u32) = n" using assms(2) by (simp add: of_nat_size)
  obtain r b where e: "expand_packet M null_buf (of_nat n) = Inr (r, b)"
    using expand_packet_total [of "of_nat n" M null_buf] n assms(2) by auto
  with assms(1) have r: "r = 0"
    by (auto simp: expand_packet_def Let_def split: if_splits option.splits)
  from expand_packet_ok [OF wf_null_buf e [unfolded r]] obtain blk
    where "buf_p b = Some blk" "n \<le> length blk" using n by auto
  with e r show ?thesis using that expand_packet_preserves_wf [OF wf_null_buf e] by auto
qed

lemma start_call_sends:
  assumes "message_codec (cp_request P) gq" and "message_codec (md_request_api (t_method T)) gm"
    and "gq (make_request P T)" and "gm (t_request T)"
    and "ch_tasks S t = Some T" and "t_buf T = null_buf" and "ch_objs S c = Some k"
    and "\<And>n. can_alloc M n"
    and "12 + ByteSize (cp_request P) (make_request P T)
      + ByteSize (md_request_api (t_method T)) (t_request T) \<le> 2147483648"
  obtains bs1 bs2 b where
    "ParseFromArray (cp_request P) bs1 = Some (make_request P T)"
    "length bs1 = ByteSize (cp_request P) (make_request P T)"
    "ParseFromArray (md_request_api (t_method T)) bs2 = Some (t_request T)"
    "length bs2 = ByteSize (md_request_api (t_method T)) (t_request T)"
    "start_call M P D c t S = Inr (add_op c
       (WriteOp t (frame (of_nat (length bs1)) (of_nat (length bs2)) 0 (bs1 @ bs2)))
       (setup_task_timer c t
          (put_cconn c (k\<lparr>cc_outgoing := omap_insert (t_id T) t (cc_outgoing k)\<rparr>)
            (put_task t (T\<lparr>t_buf := b, t_state := STATE_WRITE_TO_SERVER\<rparr>) S))))"
proof -
  let ?q = "make_request P T" and ?api = "md_request_api (t_method T)"
  obtain bs1 where 1: "SerializeToArray (cp_request P) ?q (ByteSize (cp_request P) ?q + ByteSize ?api (t_request T)) = Some bs1"
    "length bs1 = ByteSize (cp_request P) ?q" "ParseFromArray (cp_request P) bs1 = Some ?q"
    using message_codec.good_bytes [OF assms(1,3), of "ByteSize (cp_request P) ?q + ByteSize ?api (t_request T)"]
    by (metis le_add1)
  obtain bs2 where 2: "SerializeToArray ?api (t_request T) (ByteSize ?api (t_request T)) = Some bs2"
    "length bs2 = ByteSize ?api (t_request T)" "ParseFromArray ?api bs2 = Some (t_request T)"
    using message_codec.good_bytes [OF assms(2,4) order_refl] by metis
  have sz: "12 + length bs1 + length bs2 \<le> 2147483648" using assms(9) 1(2) 2(2) by simp
  then have u: "unat (of_nat (length bs1) :: u32) = length bs1"
    "unat (of_nat (length bs2) :: u32) = length bs2"
    "unat ((of_nat (length bs1) :: u32) + of_nat (length bs2)) = length bs1 + length bs2"
    by (simp_all add: of_nat_size of_nat_add [symmetric] del: of_nat_add)
  obtain b blk where e: "expand_packet M null_buf (of_nat (12 + length bs1 + length bs2)) = Inr (0, b)"
    and blk: "buf_p b = Some blk" "12 + length bs1 + length bs2 \<le> length blk"
    using expand_null_alloc [OF assms(8) sz] by metis
  obtain x y z where h: "blk = host_header M x y z @ drop 12 blk"
    using block_host_header [of blk M] blk(2) by auto
  define rest where "rest = drop 12 blk"
  have lr: "length bs1 + length bs2 \<le> length rest" using blk(2) by (simp add: rest_def)
  have s1: "store_at 12 bs1 blk = Inr (host_header M x y z @ bs1 @ drop (length bs1) rest)"
    using store_after_header [of bs1 rest M x y z] lr h by (simp add: rest_def)
  have s2: "store_at (12 + length bs1) bs2 (host_header M x y z @ bs1 @ drop (length bs1) rest) =
      Inr (host_header M x y z @ bs1 @ bs2 @ drop (length bs2) (drop (length bs1) rest))"
    by (rule store_after_prefix) (use lr in auto)
  define blk4 where "blk4 = wire_header (of_nat (length bs1)) (of_nat (length bs2)) 0 @
    (bs1 @ bs2) @ drop (length bs2) (drop (length bs1) rest)"
  have l: "load_at 0 (12 + length bs1 + length bs2) blk4 =
      Inr (frame (of_nat (length bs1)) (of_nat (length bs2)) 0 (bs1 @ bs2))"
    unfolding blk4_def by (rule load_frame) simp
  have twice: "put_task t T2 (put_task t T1 S) = put_task t T2 S" for T1 T2
    by (simp add: put_task_def)
  have "start_call M P D c t S = Inr (add_op c
       (WriteOp t (frame (of_nat (length bs1)) (of_nat (length bs2)) 0 (bs1 @ bs2)))
       (setup_task_timer c t
          (put_cconn c (k\<lparr>cc_outgoing := omap_insert (t_id T) t (cc_outgoing k)\<rparr>)
            (put_task t (T\<lparr>t_buf := b\<lparr>buf_p := Some blk4\<rparr>, t_state := STATE_WRITE_TO_SERVER\<rparr>) S))))"
    using assms(5-7) 1(1) 2(1) e blk(1) s1 s2 l u
    by (simp add: start_call_def Let_def 1(2) [symmetric] 2(2) [symmetric] store_header_over
        convert_to_network blk4_def [symmetric] twice)
      (simp add: blk4_def)
  then show ?thesis by (rule that [OF 1(3,2) 2(3,2)])
qed

subsection \<open>A response that arrives\<close>

lemma unat_sum3:
  assumes "a + b + c < 4294967296"
  shows "unat ((of_nat a + of_nat b + of_nat c) :: u32) = a + b + c"
proof -
  have "(of_nat a + of_nat b + of_nat c :: u32) = of_nat (a + b + c)" by simp
  then show ?thesis using assms by (simp del: of_nat_add)
qed

text \<open>The header, from a connection whose buffer has room for one.\<close>

lemma client_header_step:
  assumes "ch_objs S c = Some k" and "buf_p (cc_buf k) = Some blk" and "12 \<le> length blk"
    and "wf_pbuf (cc_buf k)" and "\<And>n. can_alloc M n" and "12 + a + b \<le> 2147483648"
  obtains b' rest where
    "client_run M P D (HeaderArrived c (wire_header (of_nat a) 0 (of_nat b)) None) S =
      Inr (put_cconn c (k\<lparr>cc_n := of_nat (a + b), cc_buf := b',
             cc_ops := ReadPayloadOp (of_nat (a + b)) # remove1 ReadHeaderOp (cc_ops k)\<rparr>) S, None)"
    and "buf_p b' = Some (host_header M (of_nat a) 0 (of_nat b) @ rest)" and "a + b \<le> length rest"
    and "wf_pbuf b'"
proof -
  let ?h = "wire_header (of_nat a) 0 (of_nat b)" and ?hh = "host_header M (of_nat a) 0 (of_nat b)"
  define b1 where "b1 = (cc_buf k)\<lparr>buf_p := Some (?hh @ drop 12 blk)\<rparr>"
  have wf1: "wf_pbuf b1" unfolding b1_def
    by (rule wf_pbuf_put [OF assms(4,2)]) (use assms(3) in simp)
  have n: "(of_nat a + 0 + of_nat b :: u32) = of_nat (a + b)" by simp
  have un: "unat (of_nat (a + b) + 12 :: u32) = 12 + a + b"
  proof -
    have "(of_nat (a + b) + 12 :: u32) = of_nat (12 + a + b)" by simp
    then show ?thesis using assms(6) by (simp del: of_nat_add)
  qed
  obtain r b' where e: "expand_packet M b1 (of_nat (a + b) + 12) = Inr (r, b')"
    using expand_packet_total [of "of_nat (a + b) + 12" M b1] un assms(6) by auto
  have r0: "r = 0" using e assms(5)
    by (auto simp: expand_packet_def Let_def split: if_splits option.splits)
  have "buf_p b1 = Some (?hh @ drop 12 blk)" by (simp add: b1_def)
  from expand_packet_keeps_header [OF wf1 this e [unfolded r0]] obtain rest where
    rest: "buf_p b' = Some (?hh @ rest)" "12 + a + b \<le> 12 + length rest" using un by auto
  have st: "store_at 0 ?h blk = Inr (?h @ drop 12 blk)"
    using assms(3) by (simp add: store_at_def)
  have run: "client_run M P D (HeaderArrived c ?h None) S =
      Inr (put_cconn c (k\<lparr>cc_n := of_nat (a + b), cc_buf := b',
             cc_ops := ReadPayloadOp (of_nat (a + b)) # remove1 ReadHeaderOp (cc_ops k)\<rparr>) S, None)"
    using assms(1,2) st e r0 n
    by (simp add: client_run_def client_store_def op_done_def client_read_header_def
        convert_to_host Let_def b1_def add_op_def)
  show ?thesis
    by (rule that [OF run rest(1) _ expand_packet_preserves_wf [OF wf1 e]]) (use rest(2) in simp)
qed

text \<open>Reading the next header needs no more room than the buffer has.\<close>

lemma start_read_again:
  assumes "ch_objs S c = Some k" and "buf_p (cc_buf k) = Some blk" and "12 \<le> length blk"
    and "wf_pbuf (cc_buf k)"
  shows "start_read M D c S = Inr (put_cconn c (k\<lparr>cc_ops := ReadHeaderOp # cc_ops k\<rparr>) S, None)"
proof -
  have "expand_packet M (cc_buf k) 12 = Inr (0, cc_buf k)"
    using assms(2-4) by (auto simp: expand_packet_def wf_pbuf_def word_less_nat_alt)
  with assms(1) show ?thesis by (simp add: start_read_def Let_def add_op_def)
qed

text \<open>The controller of a call as a response leaves it, before \<open>done\<close> runs.\<close>

lemma deliver_ctl:
  "ch_ctls (deliver_response st msg (Some m) T S) (t_controller T) =
     apply_status st msg (ch_ctls S (t_controller T))"
  "ch_resps (deliver_response st msg (Some m) T S) (t_response T) = m"
  "ch_ctls (deliver_response st msg None T S) (t_controller T) =
     SetFailed_ec ''failed to read response parameter from server'' EC_SERIALIZATION_ERROR
       (apply_status st msg (ch_ctls S (t_controller T)))"
  by (simp_all add: deliver_response_def store_response_def set_ctl_def)

lemma client_payload_step:
  assumes "ch_objs S c = Some k"
    and "buf_p (cc_buf k) = Some (host_header M (of_nat (length meta)) 0 (of_nat (length param)) @ rest)"
    and "length meta + length param \<le> length rest" and "wf_pbuf (cc_buf k)"
    and "12 + length meta + length param \<le> 2147483648"
    and "ParseFromArray (cp_response P) meta = Some rr"
    and "map_of (cc_outgoing k) (rs_id rr) = Some t" and "ch_tasks S t = Some T"
    and "\<not> t_called T" and "D (t_done T) t = None"
  defines "k1 \<equiv> k\<lparr>cc_buf := (cc_buf k)\<lparr>buf_p := Some
        (host_header M (of_nat (length meta)) 0 (of_nat (length param)) @ (meta @ param) @
         drop (length meta + length param) rest)\<rparr>,
        cc_ops := ReadHeaderOp # remove1 (ReadPayloadOp (of_nat (length meta + length param))) (cc_ops k),
        cc_outgoing := omap_erase (rs_id rr) (cc_outgoing k)\<rparr>"
  shows "client_run M P D (PayloadArrived c (of_nat (length meta + length param)) (meta @ param) None) S =
    Inr (put_task t (T\<lparr>t_state := STATE_DONE, t_called := True, t_runs := Suc (t_runs T)\<rparr>)
          (put_cconn c k1
            (deliver_response (Response_status rr) (rs_message rr)
              (ParseFromArray (md_response_api (t_method T)) param) T S)), None)"
proof -
  let ?hh = "host_header M (of_nat (length meta)) 0 (of_nat (length param))"
  let ?x = "ReadPayloadOp (of_nat (length meta + length param))"
  define blk where "blk = ?hh @ (meta @ param) @ drop (length meta + length param) rest"
  define k0 where "k0 = k\<lparr>cc_ops := remove1 ?x (cc_ops k), cc_buf := (cc_buf k)\<lparr>buf_p := Some blk\<rparr>\<rparr>"
  define S0 where "S0 = put_cconn c k0 S"
  let ?T = "T\<lparr>t_state := STATE_DONE\<rparr>"
  let ?parsed = "ParseFromArray (md_response_api (t_method T)) param"
  let ?S1 = "deliver_response (Response_status rr) (rs_message rr) ?parsed T (put_task t ?T S0)"
  have u: "unat (of_nat (length meta) :: u32) = length meta"
    "unat (of_nat (length param) :: u32) = length param" using assms(5) by (simp_all add: of_nat_size)
  have st: "store_at 12 (meta @ param) (?hh @ rest) = Inr blk"
    using store_after_header [of "meta @ param" rest] assms(3) by (simp add: blk_def)
  have cs: "client_store c off_data (meta @ param) (op_done c ?x S) = Inr S0"
    using assms(1,2) st by (simp add: client_store_def op_done_def S0_def k0_def)
  have len: "length blk = length (?hh @ rest)" using assms(3) by (simp add: blk_def)
  have wf: "wf_pbuf (cc_buf k0)" using wf_pbuf_put [OF assms(4,2) len] by (simp add: k0_def)
  have lds: "load_u32 M 0 blk = Inr (of_nat (length meta))" "load_u32 M 8 blk = Inr (of_nat (length param))"
    "load_at 12 (length meta) blk = Inr meta" "load_at (12 + length meta) (length param) blk = Inr param"
    by (simp_all add: blk_def load_at_def)
  have o1: "ch_objs ?S1 c = Some k0" by (simp add: S0_def)
  have sr: "start_read M D c ?S1 = Inr (put_cconn c (k0\<lparr>cc_ops := ReadHeaderOp # cc_ops k0\<rparr>) ?S1, None)"
    by (rule start_read_again [OF o1, of blk]) (use wf in \<open>simp_all add: k0_def blk_def\<close>)
  have "match_response M D blk (of_nat (length meta)) rr c k0 S0 =
      Inr (finish_task D t (erase_task c (rs_id rr)
        (put_cconn c (k0\<lparr>cc_ops := ReadHeaderOp # cc_ops k0\<rparr>) ?S1)), None)"
    using assms(7,8) lds sr u by (simp add: match_response_def k0_def S0_def Let_def)
  then have run: "client_run M P D (PayloadArrived c (of_nat (length meta + length param)) (meta @ param) None) S =
      Inr (finish_task D t (erase_task c (rs_id rr)
        (put_cconn c (k0\<lparr>cc_ops := ReadHeaderOp # cc_ops k0\<rparr>) ?S1)), None)"
    using cs assms(6) lds u by (simp add: client_run_def client_read_payload_def S0_def k0_def)
  have twice: "put_cconn c k2 (put_cconn c k3 S') = put_cconn c k2 S'" for k2 k3 and S' :: "'b channel"
    by simp
  have "finish_task D t (erase_task c (rs_id rr)
        (put_cconn c (k0\<lparr>cc_ops := ReadHeaderOp # cc_ops k0\<rparr>) ?S1)) =
      put_task t (T\<lparr>t_state := STATE_DONE, t_called := True, t_runs := Suc (t_runs T)\<rparr>)
        (put_cconn c k1 (deliver_response (Response_status rr) (rs_message rr) ?parsed T S))"
    using assms(8-10)
    by (cases ?parsed)
      (simp_all add: finish_task_def erase_task_def complete_def run_done_def k1_def k0_def S0_def
        blk_def deliver_response_def store_response_def set_ctl_def put_task_def put_cconn_def Let_def)
  with run show ?thesis by simp
qed

subsection \<open>A concrete channel to evaluate\<close>

definition varint_client :: "byte list client_protocol" where
  "varint_client = \<lparr>cp_request = varint_request_api, cp_response = varint_response_api,
     cp_fresh_request = Request_New varint_lib\<rparr>"

definition echo_desc :: "byte list method_desc" where
  "echo_desc = \<lparr>md_service = ''Echo'', md_name = ''echo'', md_request_api = bytes_api,
     md_response_api = bytes_api\<rparr>"

definition quiet :: closures where "quiet d t = None"

definition demo_start :: "byte list channel" where
  "demo_start = CarrotAsyncChannel_new
     (\<lambda>a. CarrotController_addr None ''h'' ''80'' TIMEOUT_NEVER) (\<lambda>a. [])"

text \<open>The state after one call has been issued, and after its host has been resolved.\<close>

definition demo_called :: "byte list channel" where
  "demo_called =
     (case CallMethod little_host varint_client quiet echo_desc 0 [1, 2] 0 0 demo_start of
        Inr S \<Rightarrow> S | Inl _ \<Rightarrow> demo_start)"

definition demo_resolved :: "byte list channel" where
  "demo_resolved =
     (case client_run little_host varint_client quiet (Resolved 0 0 None) demo_called of
        Inr (S, _) \<Rightarrow> S | Inl _ \<Rightarrow> demo_start)"

definition demo_task :: "byte list call_task" where
  "demo_task = \<lparr>t_method = echo_desc, t_controller = 0, t_request = [1, 2], t_response = 0,
     t_done = 0, t_buf = null_buf, t_id = 1, t_called = False, t_state = 0, t_runs = 0\<rparr>"

lemma demo_call_step:
  "CallMethod little_host varint_client quiet echo_desc 0 [1, 2] 0 0 demo_start = Inr demo_called"
  by (simp add: demo_called_def demo_start_def CallMethod_def issue_def setup_task_timer_def Let_def
      CarrotAsyncChannel_new_def RpcClientConnection_new_def CarrotController_addr_def
      split: option.splits)

lemma demo_called_state:
  "ch_tasks demo_called = [0 \<mapsto> demo_task]"
  "ch_conns demo_called = [''h:80'' \<mapsto> 0]"
  "ch_objs demo_called = [0 \<mapsto> (RpcClientConnection_new ''h'' ''80'')
     \<lparr>cc_id := 1, cc_ops := [ResolveOp 0], cc_connecting := True\<rparr>]"
  "ch_ctls demo_called = (\<lambda>a. CarrotController_addr None ''h'' ''80'' TIMEOUT_NEVER)"
  "ch_next_task demo_called = 1"
  by (simp_all add: demo_called_def demo_start_def CallMethod_def issue_def setup_task_timer_def Let_def
      CarrotAsyncChannel_new_def RpcClientConnection_new_def CarrotController_addr_def
      put_cconn_def put_task_def client_map_insert_def demo_task_def STATE_CONNECT_TO_SERVER_def)

lemma demo_resolved_step:
  "client_run little_host varint_client quiet (Resolved 0 0 None) demo_called = Inr (demo_resolved, None)"
  by (simp add: demo_resolved_def client_run_def handle_resolve_def op_done_def demo_called_state)

lemma demo_resolved_state:
  "ch_tasks demo_resolved = [0 \<mapsto> demo_task]"
  "ch_conns demo_resolved = [''h:80'' \<mapsto> 0]"
  "ch_objs demo_resolved = [0 \<mapsto> (RpcClientConnection_new ''h'' ''80'')
     \<lparr>cc_id := 1, cc_ops := [ConnectOp 0], cc_connecting := True, cc_open := True\<rparr>]"
  "ch_ctls demo_resolved = (\<lambda>a. CarrotController_addr None ''h'' ''80'' TIMEOUT_NEVER)"
  "ch_next_task demo_resolved = 1"
  by (simp_all add: demo_resolved_def client_run_def handle_resolve_def op_done_def demo_called_state
      RpcClientConnection_new_def close_socket_def connecting_def)

lemma demo_reachable:
  "channel_reachable little_host varint_client quiet demo_called"
  "channel_reachable little_host varint_client quiet demo_resolved"
proof -
  have ids: "ids_left demo_start" by (simp add: ids_left_def demo_start_def CarrotAsyncChannel_new_def)
  show called: "channel_reachable little_host varint_client quiet demo_called"
    by (rule channel_reachable.call [OF _ ids demo_call_step])
      (simp add: demo_start_def channel_reachable.start)
  show "channel_reachable little_host varint_client quiet demo_resolved"
    by (rule channel_reachable.event [OF called _ demo_resolved_step])
      (simp add: client_enabled_def demo_called_state)
qed

subsection \<open>Properties\<close>

lemma complete_none: "ch_tasks S t = None \<Longrightarrow> ch_tasks (complete D g u S) t = None"
  by (cases "u = t") (auto simp: complete_tasks split: option.splits)

lemma destroy_effect:
  assumes "ch_objs S c = Some k"
  shows "ch_objs (client_destroy M D e c S) c = Some ((close_socket k)\<lparr>cc_outgoing := []\<rparr>)"
    and "ch_conns (client_destroy M D e c S) = ch_conns S"
    and "(i, t) \<in> set (cc_outgoing k) \<Longrightarrow> ch_tasks (client_destroy M D e c S) t = Some T \<Longrightarrow> t_called T"
proof -
  have called: "t_called T" if "(i, t) \<in> set xs" "ch_tasks (fold (\<lambda>(i, t). complete D g t) xs S0) t = Some T"
    for xs g T i t and S0 :: "'a channel"
    using that
  proof (induction xs arbitrary: S0)
    case (Cons x xs)
    have mono: "t_called T" if "ch_tasks S1 t = Some T1" "t_called T1"
        "ch_tasks (fold (\<lambda>(i, t). complete D g t) ys S1) t = Some T" for ys S1 T1
      using that
    proof (induction ys arbitrary: S1 T1)
      case (Cons y ys)
      obtain j u where y: "y = (j, u)" by (cases y)
      have "\<exists>T2. ch_tasks (complete D g u S1) t = Some T2 \<and> t_called T2"
        using Cons.prems(1,2) by (auto simp: complete_tasks split: option.splits)
      with Cons.IH Cons.prems(3) y show ?case by auto
    qed auto
    obtain j u where x: "x = (j, u)" by (cases x)
    show ?case
    proof (cases "u = t")
      case True
      show ?thesis
      proof (cases "ch_tasks S0 t")
        case None
        then have "ch_tasks (fold (\<lambda>(i, t). complete D g t) xs S0) t = None"
          by (induction xs arbitrary: S0) (auto simp: complete_none)
        moreover have "complete D g t S0 = S0" using None by (simp add: complete_def)
        ultimately show ?thesis using Cons.prems(2) x True by simp
      next
        case (Some T0)
        then have "\<exists>T2. ch_tasks (complete D g t S0) t = Some T2 \<and> t_called T2"
          by (auto simp: complete_tasks)
        with mono Cons.prems(2) x True show ?thesis by auto
      qed
    next
      case False
      with Cons x show ?thesis by auto
    qed
  qed simp
  show "ch_objs (client_destroy M D e c S) c = Some ((close_socket k)\<lparr>cc_outgoing := []\<rparr>)"
    by (simp add: client_destroy_as [OF assms])
  show "ch_conns (client_destroy M D e c S) = ch_conns S" by simp
  show "t_called T" if "(i, t) \<in> set (cc_outgoing k)" "ch_tasks (client_destroy M D e c S) t = Some T"
    using called [OF that(1)] that(2) by (simp add: client_destroy_as [OF assms])
qed

text \<open>The books of a call, also used for the calls of the example client.\<close>

lemma call_accounted_for:
  assumes "channel_reachable M P D S" and "ch_tasks S t = Some T"
  shows "t_runs T = (if t_called T then 1 else 0) \<and>
    (t_called T \<or> (\<exists>c k. ch_objs S c = Some k \<and>
       ((t_id T, t) \<in> set (cc_outgoing k) \<or> ResolveOp t \<in> set (cc_ops k) \<or>
        ConnectOp t \<in> set (cc_ops k))))"
proof -
  note inv = channel_reachable_inv [OF assms(1)]
  have "t_runs T = (if t_called T then 1 else 0)"
    using chan_invD(2) [OF inv assms(2)] by (simp add: task_ok_def)
  moreover have "\<exists>c k. ch_objs S c = Some k \<and> ((t_id T, t) \<in> set (cc_outgoing k) \<or>
      ResolveOp t \<in> set (cc_ops k) \<or> ConnectOp t \<in> set (cc_ops k))" if nc: "\<not> t_called T"
  proof -
    obtain c k where k: "ch_objs S c = Some k" "t \<in> live k"
      using chan_invD(5) [OF inv assms(2) nc] by auto
    have "i = t_id T" if "(i, t) \<in> set (cc_outgoing k)" for i
      using chan_invD(4) [OF inv k(1)] that assms(2) by (fastforce simp: conn_ok_def task_id_def)
    with k show ?thesis by (force simp: live_def)
  qed
  ultimately show ?thesis by blast
qed

text \<open>
  C2. No call is lost and none ends twice: in every reachable state of a channel, whatever
  the order in which operations complete, fail or time out, \<open>done\<close> has been run for a call
  exactly once when the call is marked as ended and never before; and a call that has not
  ended is still waited for by some connection, as an outgoing call or by the resolution or
  connection it started.
\<close>

theorem calls_end_once:
  assumes "channel_reachable M P D S" and "ch_tasks S t = Some T"
  shows "t_runs T = (if t_called T then 1 else 0) \<and>
    (t_called T \<or> (\<exists>c k. ch_objs S c = Some k \<and>
       ((t_id T, t) \<in> set (cc_outgoing k) \<or> ResolveOp t \<in> set (cc_ops k) \<or>
        ConnectOp t \<in> set (cc_ops k))))"
  by (rule call_accounted_for [OF assms])

theorem calls_end_once_witness:
  "t_runs demo_task = 0 \<and> (\<exists>c k. ch_objs demo_called c = Some k \<and> ResolveOp 0 \<in> set (cc_ops k))"
proof -
  have "ch_tasks demo_called 0 = Some demo_task" by (simp add: demo_called_state)
  from calls_end_once [OF demo_reachable(1) this]
  show ?thesis
    by (auto simp: demo_task_def demo_called_state RpcClientConnection_new_def split: if_splits)
qed

lemma map_of_omap_insert:
  "i \<notin> fst ` set xs \<Longrightarrow> map_of (omap_insert i t xs) i = Some t"
  by (induction xs) auto

lemma setup_task_timer_conn:
  assumes "ch_objs S c = Some k"
  shows "\<exists>ops. ch_objs (setup_task_timer c t S) c = Some (k\<lparr>cc_ops := ops\<rparr>) \<and> set (cc_ops k) \<subseteq> set ops"
proof -
  have "k = k\<lparr>cc_ops := cc_ops k\<rparr>" by simp
  then have "\<exists>ops. k = k\<lparr>cc_ops := ops\<rparr> \<and> set (cc_ops k) \<subseteq> set ops" by blast
  with assms show ?thesis
    by (auto simp: setup_task_timer_def add_op_def split: option.split)
qed

text \<open>A call on an open connection, in detail: what is written and how the task is recorded.\<close>

lemma call_on_open:
  assumes "channel_reachable M P D S" and "ids_left S"
    and "ch_conns S (ctl_host (ch_ctls S ctl) @ '':'' @ ctl_service (ch_ctls S ctl)) = Some c"
    and "ch_objs S c = Some k" and "cc_open k" and "\<And>n. can_alloc M n"
    and "message_codec (cp_request P) gq" and "message_codec (md_request_api md) gm"
    and "rq = Request_set_method_identity (identity_of (md_service md) (md_name md))
           (Request_set_id (cc_id k + 1) (cp_fresh_request P))"
    and "gq rq" and "gm request"
    and "12 + ByteSize (cp_request P) rq + ByteSize (md_request_api md) request \<le> 2147483648"
  obtains S' k' T bs1 bs2 where "CallMethod M P D md ctl request resp done_cb S = Inr S'"
    and "ch_objs S' c = Some k'" and "cc_buf k' = cc_buf k"
    and "WriteOp (ch_next_task S) (frame (of_nat (length bs1)) (of_nat (length bs2)) 0 (bs1 @ bs2)) \<in> set (cc_ops k')"
    and "map_of (cc_outgoing k') (rq_id rq) = Some (ch_next_task S)"
    and "ParseFromArray (cp_request P) bs1 = Some rq" and "length bs1 = ByteSize (cp_request P) rq"
    and "ParseFromArray (md_request_api md) bs2 = Some request"
    and "length bs2 = ByteSize (md_request_api md) request"
    and "ch_tasks S' (ch_next_task S) = Some T" and "\<not> t_called T" and "t_runs T = 0"
    and "t_controller T = ctl" and "t_response T = resp" and "t_done T = done_cb" and "t_method T = md"
    and "t_id T = cc_id k + 1" and "t_request T = request"
    and "ch_ctls S' = ch_ctls S" and "set (cc_ops k) \<subseteq> set (cc_ops k')"
proof -
  note inv = channel_reachable_inv [OF assms(1)]
  define t where "t = ch_next_task S"
  define T where "T = \<lparr>t_method = md, t_controller = ctl, t_request = request, t_response = resp,
      t_done = done_cb, t_buf = null_buf, t_id = cc_id k + 1, t_called = False,
      t_state = STATE_CONNECT_TO_SERVER, t_runs = 0\<rparr>"
  define k1 where "k1 = k\<lparr>cc_id := cc_id k + 1\<rparr>"
  define S1 where "S1 = put_cconn c k1 (put_task t T (S\<lparr>ch_next_task := Suc t\<rparr>))"
  have rq: "make_request P T = rq" by (simp add: make_request_def T_def assms(9))
  have call: "CallMethod M P D md ctl request resp done_cb S = start_call M P D c t S1"
    using assms(3-5) by (simp add: CallMethod_def issue_def Let_def t_def T_def k1_def S1_def)
  have S1: "ch_tasks S1 t = Some T" "ch_objs S1 c = Some k1" "t_buf T = null_buf" "t_method T = md"
    "t_request T = request" "t_id T = cc_id k + 1" "ch_ctls S1 = ch_ctls S"
    by (simp_all add: S1_def T_def) (simp add: put_cconn_def put_task_def)?
  obtain bs1 bs2 b where p: "ParseFromArray (cp_request P) bs1 = Some rq" "length bs1 = ByteSize (cp_request P) rq"
      "ParseFromArray (md_request_api md) bs2 = Some request"
      "length bs2 = ByteSize (md_request_api md) request"
    and sc: "start_call M P D c t S1 = Inr (add_op c
       (WriteOp t (frame (of_nat (length bs1)) (of_nat (length bs2)) 0 (bs1 @ bs2)))
       (setup_task_timer c t
          (put_cconn c (k1\<lparr>cc_outgoing := omap_insert (t_id T) t (cc_outgoing k1)\<rparr>)
            (put_task t (T\<lparr>t_buf := b, t_state := STATE_WRITE_TO_SERVER\<rparr>) S1))))"
    using start_call_sends [of P gq T gm S1 t c k1 M D] assms(6-8,10-12) S1 rq by metis
  have fresh: "cc_id k + 1 \<notin> fst ` set (cc_outgoing k)"
  proof
    assume "cc_id k + 1 \<in> fst ` set (cc_outgoing k)"
    then obtain u where u: "(cc_id k + 1, u) \<in> set (cc_outgoing k)" by auto
    have "1 + cc_id k \<noteq> 0" using assms(2,4) by (simp add: ids_left_def add_eq_0_iff)
    from unatSuc [OF this] have "unat (cc_id k) < unat (cc_id k + 1)" by (simp add: add.commute)
    moreover have "u \<in> members k" using u by (force simp: members_def live_def)
    ultimately show False
      using chan_invD(4) [OF inv assms(4)] u by (fastforce simp: conn_ok_def)
  qed
  let ?w = "WriteOp t (frame (of_nat (length bs1)) (of_nat (length bs2)) 0 (bs1 @ bs2))"
  let ?T' = "T\<lparr>t_buf := b, t_state := STATE_WRITE_TO_SERVER\<rparr>"
  let ?S2 = "put_cconn c (k1\<lparr>cc_outgoing := omap_insert (t_id T) t (cc_outgoing k1)\<rparr>) (put_task t ?T' S1)"
  let ?S' = "add_op c ?w (setup_task_timer c t ?S2)"
  have o2: "ch_objs ?S2 c = Some (k1\<lparr>cc_outgoing := omap_insert (t_id T) t (cc_outgoing k1)\<rparr>)" by simp
  obtain ops where o3: "ch_objs (setup_task_timer c t ?S2) c =
      Some (k1\<lparr>cc_outgoing := omap_insert (t_id T) t (cc_outgoing k1), cc_ops := ops\<rparr>)"
    and ops: "set (cc_ops k1) \<subseteq> set ops"
    using setup_task_timer_conn [OF o2, of t] by auto
  have ctls: "ch_ctls ?S' = ch_ctls S" using S1(7) by (simp add: setup_task_timer_def)
  show ?thesis
  proof (rule that [where T = ?T'])
    show "CallMethod M P D md ctl request resp done_cb S = Inr ?S'" using call sc by simp
    show "ch_objs ?S' c = Some (k1\<lparr>cc_outgoing := omap_insert (t_id T) t (cc_outgoing k1),
        cc_ops := ?w # ops\<rparr>)"
      using o3 by (simp add: add_op_def)
    show "map_of (cc_outgoing (k1\<lparr>cc_outgoing := omap_insert (t_id T) t (cc_outgoing k1),
        cc_ops := ?w # ops\<rparr>)) (rq_id rq) = Some (ch_next_task S)"
      using map_of_omap_insert [OF fresh, of t] by (simp add: S1(6) assms(9) t_def k1_def)
    show "ch_tasks ?S' (ch_next_task S) = Some ?T'" by (simp add: t_def)
  qed (use p ctls ops in \<open>auto simp: k1_def t_def T_def\<close>)
qed

text \<open>
  A call on an open connection is written at once as one frame: the two lengths and a
  zero, then a \<open>Request\<close> with a fresh id and the identity of the method, then the request
  message; both parts parse back, and the call is entered into \<open>outgoing_tasks\<close> under that
  id. (This is also what happens between the resolution of the host and the connection, when
  the socket is open but not connected.)
\<close>

theorem call_sent:
  assumes "channel_reachable M P D S" and "ids_left S"
    and "ch_conns S (ctl_host (ch_ctls S ctl) @ '':'' @ ctl_service (ch_ctls S ctl)) = Some c"
    and "ch_objs S c = Some k" and "cc_open k" and "\<And>n. can_alloc M n"
    and "message_codec (cp_request P) gq" and "message_codec (md_request_api md) gm"
    and "rq = Request_set_method_identity (identity_of (md_service md) (md_name md))
           (Request_set_id (cc_id k + 1) (cp_fresh_request P))"
    and "gq rq" and "gm request"
    and "12 + ByteSize (cp_request P) rq + ByteSize (md_request_api md) request \<le> 2147483648"
  shows "\<exists>S' k' bs1 bs2. CallMethod M P D md ctl request resp done_cb S = Inr S' \<and>
    ch_objs S' c = Some k' \<and>
    WriteOp (ch_next_task S) (frame (of_nat (length bs1)) (of_nat (length bs2)) 0 (bs1 @ bs2)) \<in> set (cc_ops k') \<and>
    map_of (cc_outgoing k') (rq_id rq) = Some (ch_next_task S) \<and>
    ParseFromArray (cp_request P) bs1 = Some rq \<and>
    ParseFromArray (md_request_api md) bs2 = Some request"
  by (rule call_on_open [OF assms]) blast

theorem call_sent_witness:
  "\<exists>S' k' bs1 bs2. CallMethod little_host varint_client quiet echo_desc 0 [7] 0 0 demo_resolved = Inr S' \<and>
    ch_objs S' 0 = Some k' \<and>
    WriteOp (ch_next_task demo_resolved)
      (frame (of_nat (length bs1)) (of_nat (length bs2)) 0 (bs1 @ bs2)) \<in> set (cc_ops k') \<and>
    ParseFromArray bytes_api bs2 = Some [7]"
proof -
  define k where "k = (RpcClientConnection_new ''h'' ''80'')
     \<lparr>cc_id := 1, cc_ops := [ConnectOp 0], cc_connecting := True, cc_open := True\<rparr>"
  define rq where "rq = Request_set_method_identity (identity_of (md_service echo_desc) (md_name echo_desc))
           (Request_set_id (cc_id k + 1) (cp_fresh_request varint_client))"
  have ids: "ids_left demo_resolved"
    by (simp add: ids_left_def demo_resolved_state RpcClientConnection_new_def)
  have key: "ch_conns demo_resolved (ctl_host (ch_ctls demo_resolved 0) @ '':'' @
      ctl_service (ch_ctls demo_resolved 0)) = Some 0"
    by (simp add: demo_resolved_state CarrotController_addr_def)
  have conn: "ch_objs demo_resolved 0 = Some k" "cc_open k" by (simp_all add: demo_resolved_state k_def)
  have codec: "message_codec (cp_request varint_client) (Request_good varint_lib varint_str_ok)"
    using varint_request.request.message_codec_axioms by (simp add: varint_client_def)
  have api: "md_request_api echo_desc = bytes_api" by (simp add: echo_desc_def)
  have codec': "message_codec (md_request_api echo_desc) (\<lambda>_. True)"
    unfolding api by (rule bytes_codec.message_codec_axioms)
  have good: "Request_good varint_lib varint_str_ok rq"
    by (simp add: rq_def echo_desc_def varint_client_def identity_of_def varint_str_ok_def)
  have size: "12 + ByteSize (cp_request varint_client) rq + ByteSize (md_request_api echo_desc) [7] \<le> 2147483648"
  proof -
    have "ByteSize (cp_request varint_client) rq = 13" unfolding rq_def k_def by code_simp
    then show ?thesis by (simp add: api bytes_api_def)
  qed
  from call_sent [OF demo_reachable(2) ids key conn example_hosts(3) codec codec' rq_def good TrueI size,
      where resp = 0 and done_cb = 0]
  show ?thesis unfolding api by blast
qed

text \<open>The arrival of a response, shared by the properties about it.\<close>

lemma response_arrives:
  assumes "ch_objs S c = Some k" and "buf_p (cc_buf k) = Some blk" and "12 \<le> length blk"
    and "wf_pbuf (cc_buf k)" and "\<And>n. can_alloc M n"
    and "12 + length meta + length param \<le> 2147483648"
    and "ParseFromArray (cp_response P) meta = Some rr"
    and "map_of (cc_outgoing k) (rs_id rr) = Some t" and "ch_tasks S t = Some T"
    and "\<not> t_called T" and "D (t_done T) t = None"
  shows "\<exists>S1 S2 T' k'.
    client_run M P D (HeaderArrived c (wire_header (of_nat (length meta)) 0 (of_nat (length param))) None) S
      = Inr (S1, None) \<and>
    client_run M P D (PayloadArrived c (of_nat (length meta + length param)) (meta @ param) None) S1
      = Inr (S2, None) \<and>
    ch_tasks S2 t = Some T' \<and> t_called T' \<and> t_runs T' = Suc (t_runs T) \<and>
    (case ParseFromArray (md_response_api (t_method T)) param of
       Some m \<Rightarrow> ch_resps S2 (t_response T) = m \<and>
         ch_ctls S2 (t_controller T) =
           apply_status (Response_status rr) (rs_message rr) (ch_ctls S (t_controller T))
     | None \<Rightarrow> ErrorCode (ch_ctls S2 (t_controller T)) = EC_SERIALIZATION_ERROR) \<and>
    ch_objs S2 c = Some k' \<and> rs_id rr \<notin> fst ` set (cc_outgoing k') \<and> ReadHeaderOp \<in> set (cc_ops k')"
proof -
  obtain b' rest where h: "client_run M P D (HeaderArrived c
        (wire_header (of_nat (length meta)) 0 (of_nat (length param))) None) S =
      Inr (put_cconn c (k\<lparr>cc_n := of_nat (length meta + length param), cc_buf := b',
             cc_ops := ReadPayloadOp (of_nat (length meta + length param)) # remove1 ReadHeaderOp (cc_ops k)\<rparr>) S, None)"
    and b: "buf_p b' = Some (host_header M (of_nat (length meta)) 0 (of_nat (length param)) @ rest)"
      "length meta + length param \<le> length rest" "wf_pbuf b'"
    using client_header_step [OF assms(1-6)] by metis
  define k2 where "k2 = k\<lparr>cc_n := of_nat (length meta + length param), cc_buf := b',
             cc_ops := ReadPayloadOp (of_nat (length meta + length param)) # remove1 ReadHeaderOp (cc_ops k)\<rparr>"
  define S1 where "S1 = put_cconn c k2 S"
  have o: "ch_objs S1 c = Some k2" "ch_tasks S1 t = Some T" "map_of (cc_outgoing k2) (rs_id rr) = Some t"
    "buf_p (cc_buf k2) = Some (host_header M (of_nat (length meta)) 0 (of_nat (length param)) @ rest)"
    "wf_pbuf (cc_buf k2)" "ch_ctls S1 = ch_ctls S"
    using assms(8,9) b by (simp_all add: S1_def k2_def)
  note step = client_payload_step [where D = D, OF o(1,4) b(2) o(5) assms(6,7) o(3,2) assms(10,11)]
  show ?thesis
    by (intro exI conjI, rule h [folded k2_def S1_def], rule step)
      (auto simp: deliver_ctl o(6) split: option.split)
qed

text \<open>
  C7. A response ends the call it names: after its header and payload have arrived, the
  call's \<open>done\<close> has run once more, its id is gone from \<open>outgoing_tasks\<close>, and the next header
  is being read. If the response message parses, the user's message holds it and the
  controller reports what the status says; if it does not parse, the error code is
  \<open>EC_SERIALIZATION_ERROR\<close> whatever the status was, so a server's \<open>NOT_FOUND\<close> or \<open>FAILED\<close>
  (which carries no parameter) is lost when the message type has required fields.
\<close>

theorem response_ends_call:
  assumes "ch_objs S c = Some k" and "buf_p (cc_buf k) = Some blk" and "12 \<le> length blk"
    and "wf_pbuf (cc_buf k)" and "\<And>n. can_alloc M n"
    and "12 + length meta + length param \<le> 2147483648"
    and "ParseFromArray (cp_response P) meta = Some rr"
    and "map_of (cc_outgoing k) (rs_id rr) = Some t" and "ch_tasks S t = Some T"
    and "\<not> t_called T" and "D (t_done T) t = None"
  shows "\<exists>S1 S2 T' k'.
    client_run M P D (HeaderArrived c (wire_header (of_nat (length meta)) 0 (of_nat (length param))) None) S
      = Inr (S1, None) \<and>
    client_run M P D (PayloadArrived c (of_nat (length meta + length param)) (meta @ param) None) S1
      = Inr (S2, None) \<and>
    ch_tasks S2 t = Some T' \<and> t_called T' \<and> t_runs T' = Suc (t_runs T) \<and>
    (case ParseFromArray (md_response_api (t_method T)) param of
       Some m \<Rightarrow> ch_resps S2 (t_response T) = m \<and>
         ch_ctls S2 (t_controller T) =
           apply_status (Response_status rr) (rs_message rr) (ch_ctls S (t_controller T))
     | None \<Rightarrow> ErrorCode (ch_ctls S2 (t_controller T)) = EC_SERIALIZATION_ERROR) \<and>
    ch_objs S2 c = Some k' \<and> rs_id rr \<notin> fst ` set (cc_outgoing k') \<and> ReadHeaderOp \<in> set (cc_ops k')"
  by (rule response_arrives [where D = D, OF assms])

definition demo_waiting :: "byte list channel" where
  "demo_waiting = demo_resolved\<lparr>ch_objs := [0 \<mapsto> (RpcClientConnection_new ''h'' ''80'')
     \<lparr>cc_id := 1, cc_ops := [ReadHeaderOp], cc_open := True, cc_outgoing := [(1, 0)],
      cc_buf := \<lparr>buf_p = Some (replicate 16 0), buf_size = 16\<rparr>\<rparr>]\<rparr>"

definition demo_response :: "byte list Response" where
  "demo_response = Response_set_status FAILED (Response_set_id 1 (Response_New varint_lib))"

definition demo_meta :: "byte list" where
  "demo_meta = Response_SerializeWithCachedSizesToArray varint_lib demo_response"

theorem response_ends_call_witness:
  "\<exists>S1 S2 T'.
    client_run little_host varint_client quiet (HeaderArrived 0 (wire_header 4 0 2) None) demo_waiting
      = Inr (S1, None) \<and>
    client_run little_host varint_client quiet (PayloadArrived 0 6 (demo_meta @ [8, 9]) None) S1
      = Inr (S2, None) \<and>
    ch_tasks S2 0 = Some T' \<and> t_runs T' = 1 \<and> ch_resps S2 0 = [8, 9] \<and>
    ErrorCode (ch_ctls S2 0) = EC_FAILED"
proof -
  define k where "k = (RpcClientConnection_new ''h'' ''80'')
     \<lparr>cc_id := 1, cc_ops := [ReadHeaderOp], cc_open := True, cc_outgoing := [(1, 0)],
      cc_buf := \<lparr>buf_p = Some (replicate 16 0), buf_size = 16\<rparr>\<rparr>"
  have good: "Response_good varint_lib varint_str_ok demo_response"
    by (simp add: demo_response_def varint_str_ok_def)
  have "SerializeToArray varint_response_api demo_response (Response_ByteSize varint_lib demo_response)
      = Some demo_meta"
    by (simp add: varint_response_api_def demo_meta_def)
  then have parse: "ParseFromArray (cp_response varint_client) demo_meta = Some demo_response"
    using varint_response.response.roundtrip [OF good] by (simp add: varint_client_def)
  have len: "length demo_meta = 4" by code_simp
  have st: "ch_objs demo_waiting 0 = Some k" "ch_tasks demo_waiting 0 = Some demo_task"
    by (simp_all add: demo_waiting_def k_def demo_resolved_state)
  have k: "buf_p (cc_buf k) = Some (replicate 16 0)" "map_of (cc_outgoing k) (rs_id demo_response) = Some 0"
    by (simp_all add: k_def demo_response_def)
  have wf: "wf_pbuf (cc_buf k)"
    by (auto simp: k_def wf_pbuf_def pow2_size_def intro: exI [of _ 4])
  have sz: "12 + length demo_meta + length [8, 9 :: byte] \<le> 2147483648" by (simp add: len)
  have T: "\<not> t_called demo_task" "t_controller demo_task = 0" "t_response demo_task = 0"
    "t_runs demo_task = 0" "ParseFromArray (md_response_api (t_method demo_task)) [8, 9] = Some [8, 9]"
    by (simp_all add: demo_task_def echo_desc_def bytes_api_def)
  have "12 \<le> length (replicate 16 (0 :: byte))" by simp
  from response_ends_call [OF st(1) k(1) this wf example_hosts(3) sz parse k(2) st(2) T(1),
      where D = quiet]
  show ?thesis
    by (fastforce simp: quiet_def len T demo_response_def apply_status_def)
qed

text \<open>A call that has ended stays as it is when others end.\<close>

lemma fold_complete_called:
  "ch_tasks S t = Some T \<Longrightarrow> t_called T \<Longrightarrow>
   ch_tasks (fold (\<lambda>(i, u). complete D g u) xs S) t = Some T"
proof (induction xs arbitrary: S)
  case (Cons x xs)
  obtain i u where x: "x = (i, u)" by (cases x)
  have "ch_tasks (complete D g u S) t = Some T"
    using Cons.prems by (auto simp: complete_tasks split: option.split)
  with Cons.IH Cons.prems(2) x show ?case by simp
qed simp

lemma complete_controller:
  "ch_tasks S u = Some U \<Longrightarrow> \<exists>U'. ch_tasks (complete D g t S) u = Some U' \<and> t_controller U' = t_controller U"
  by (auto simp: complete_tasks split: option.split)

lemma fold_complete_ctl:
  assumes "\<And>i u U. (i, u) \<in> set xs \<Longrightarrow> ch_tasks S u = Some U \<Longrightarrow> t_controller U \<noteq> a"
  shows "ch_ctls (fold (\<lambda>(i, t). complete D g t) xs S) a = ch_ctls S a"
  using assms
proof (induction xs arbitrary: S)
  case (Cons x xs)
  obtain i u where x: "x = (i, u)" by (cases x)
  have "t_controller U \<noteq> a" if v: "(j, v) \<in> set xs" "ch_tasks (complete D g u S) v = Some U" for j v U
  proof -
    obtain V where V: "ch_tasks S v = Some V"
      using v(2) by (auto simp: complete_tasks split: option.splits if_splits)
    from complete_controller [OF this, of D g u] v(2) Cons.prems [of j v V] v(1) V show ?thesis by auto
  qed
  note IH = Cons.IH [OF this]
  have "ch_ctls (complete D g u S) a = ch_ctls S a"
    using Cons.prems [of i u] x
    by (auto simp: complete_def run_done_def set_ctl_def put_task_def split: option.split)
  with IH x show ?case by simp
qed simp

text \<open>
  C8. A timer that fires ends its call and takes it out of \<open>outgoing_tasks\<close>, so that a later response
  for it is discarded; no other connection is touched. The call reports \<open>EC_RPC_TIMEOUT\<close> and the name
  of the state it was in. On an established connection no other call is touched either. While
  the connection is being established (\<open>connecting_\<close>) the timeout of one call destroys it: the
  socket is closed and every outgoing call on it has ended too (only when one of these has the
  same controller is the report overwritten).
\<close>

theorem timeout_ends_call:
  assumes "channel_reachable M P D S" and "ch_objs S c = Some k" and "TimerOp t \<in> set (cc_ops k)"
    and "ch_tasks S t = Some T" and "\<not> t_called T" and "D (t_done T) t = None"
  shows "\<exists>S' k'. client_run M P D (TimerFired c t None) S = Inr (S', None) \<and>
    ch_objs S' = (ch_objs S)(c \<mapsto> k') \<and> t \<notin> snd ` set (cc_outgoing k') \<and> t_id T \<notin> fst ` set (cc_outgoing k') \<and>
    ch_tasks S' t = Some (T\<lparr>t_called := True, t_runs := Suc (t_runs T)\<rparr>) \<and> t_state T < length state_strs \<and>
    ((\<forall>i u U. cc_connecting k \<longrightarrow> (i, u) \<in> set (cc_outgoing k) \<longrightarrow> u \<noteq> t \<longrightarrow> ch_tasks S u = Some U \<longrightarrow>
        t_controller U \<noteq> t_controller T) \<longrightarrow>
      ch_ctls S' (t_controller T) = SetFailed_ec
         (''rpc timed out at state '' @ state_strs ! t_state T) EC_RPC_TIMEOUT (ch_ctls S (t_controller T))) \<and>
    (if cc_connecting k
     then \<not> cc_open k' \<and> cc_outgoing k' = [] \<and>
       (\<forall>i u U. (i, u) \<in> set (cc_outgoing k) \<longrightarrow> ch_tasks S' u = Some U \<longrightarrow> t_called U)
     else ch_tasks S' = (ch_tasks S)(t \<mapsto> T\<lparr>t_called := True, t_runs := Suc (t_runs T)\<rparr>) \<and>
       set (cc_outgoing k') = {(i, u) \<in> set (cc_outgoing k). u \<noteq> t})"
proof -
  note inv = channel_reachable_inv [OF assms(1)]
  let ?k0 = "k\<lparr>cc_ops := remove1 (TimerOp t) (cc_ops k)\<rparr>"
  let ?k' = "?k0\<lparr>cc_outgoing := omap_erase (t_id T) (cc_outgoing k)\<rparr>"
  let ?T = "T\<lparr>t_called := True, t_runs := Suc (t_runs T)\<rparr>"
  define S2 where "S2 = complete D (SetFailed_ec
      (''rpc timed out at state '' @ state_strs ! t_state T) EC_RPC_TIMEOUT) t (put_cconn c ?k' S)"
  have state: "t_state T < length state_strs" using chan_invD(2) [OF inv assms(4)] by (simp add: task_ok_def)
  have id: "i = t_id T \<longleftrightarrow> u = t" if iu: "(i, u) \<in> set (cc_outgoing k)" for i u
  proof -
    have okk: "conn_ok (task_id S) k" by (rule chan_invD(4) [OF inv assms(2)])
    have t: "t \<in> members k" using assms(3) by (simp add: members_def)
    have i: "task_id S u = Some i" using okk iu by (fastforce simp: conn_ok_def)
    have u: "u \<in> members k" using iu by (force simp: members_def live_def)
    have "task_id S t = Some (t_id T)" using assms(4) by (simp add: task_id_def)
    with i show ?thesis using okk t u by (auto simp: conn_ok_def inj_on_def)
  qed
  then have out: "set (cc_outgoing ?k') = {(i, u) \<in> set (cc_outgoing k). u \<noteq> t}" by auto
  have gone: "t \<notin> snd ` set (cc_outgoing ?k')" "t_id T \<notin> fst ` set (cc_outgoing ?k')" by (auto dest: id)
  have s2: "ch_tasks S2 = (ch_tasks S)(t \<mapsto> ?T)" "ch_objs S2 = (ch_objs S)(c \<mapsto> ?k')"
    "ch_ctls S2 (t_controller T) = SetFailed_ec
      (''rpc timed out at state '' @ state_strs ! t_state T) EC_RPC_TIMEOUT (ch_ctls S (t_controller T))"
    using assms(4-6) by (simp_all add: S2_def complete_def run_done_def set_ctl_def put_task_def put_cconn_def)
  have run: "client_run M P D (TimerFired c t None) S =
      Inr (if cc_connecting k then client_destroy M D timed_out c S2 else S2, None)"
    using assms(2,4) by (simp add: client_run_def op_done_def handle_timeout_def Let_def S2_def)
  show ?thesis
  proof (cases "cc_connecting k")
    case True
    let ?S' = "client_destroy M D timed_out c S2"
    have o: "ch_objs S2 c = Some ?k'" by (simp add: s2(2))
    have "ch_objs ?S' = (ch_objs S)(c \<mapsto> (close_socket ?k')\<lparr>cc_outgoing := []\<rparr>)"
      by (simp add: client_destroy_as [OF o] s2(2))
    moreover have "ch_tasks ?S' t = Some ?T"
      unfolding client_destroy_as [OF o] put_cconn_simps by (rule fold_complete_called) (simp_all add: s2(1))
    moreover have "t_called U" if "(i, u) \<in> set (cc_outgoing k)" "ch_tasks ?S' u = Some U" for i u U
      using that out destroy_effect(3) [OF o, of i u M D timed_out U] \<open>ch_tasks ?S' t = Some ?T\<close>
      by (cases "u = t") auto
    moreover have "ch_ctls ?S' (t_controller T) = ch_ctls S2 (t_controller T)"
      if other: "\<forall>i u U. cc_connecting k \<longrightarrow> (i, u) \<in> set (cc_outgoing k) \<longrightarrow> u \<noteq> t \<longrightarrow> ch_tasks S u = Some U \<longrightarrow>
        t_controller U \<noteq> t_controller T"
      unfolding client_destroy_as [OF o] put_cconn_simps
    proof (rule trans [OF fold_complete_ctl])
      fix i u U
      assume "(i, u) \<in> set (cc_outgoing ?k')" "ch_tasks (put_cconn c (close_socket ?k') S2) u = Some U"
      with other out True show "t_controller U \<noteq> t_controller T" by (fastforce simp: s2(1))
    qed simp
    ultimately show ?thesis using True run state s2(3)
      by (intro exI [of _ ?S'] exI [of _ "(close_socket ?k')\<lparr>cc_outgoing := []\<rparr>"]) simp
  next
    case False
    then show ?thesis
      using run s2 state
      by (intro exI [of _ S2] exI [of _ ?k'] conjI gone impI) (simp_all only: out if_False simp_thms fun_upd_same)
  qed
qed

text \<open>A connected channel with a timer running, for the example.\<close>

lemma demo_connected:
  obtains S :: "byte list channel" and k T
  where "channel_reachable little_host varint_client quiet S"
    and "ch_objs S 0 = Some k" and "TimerOp 0 \<in> set (cc_ops k)" and "ch_tasks S 0 = Some T"
    and "\<not> t_called T" and "\<not> cc_connecting k" and "t_controller T = 0" and "t_state T = 2"
    and "cc_open k" and "ids_left S" and "ch_conns S = [''h:80'' \<mapsto> 0]" and "cc_id k = 1"
    and "ch_next_task S = 1" and "ch_ctls S 0 = CarrotController_addr None ''h'' ''80'' 5"
    and "\<exists>blk. buf_p (cc_buf k) = Some blk \<and> 12 \<le> length blk"
proof -
  define S0 where "S0 = set_ctl 0 (\<lambda>_. CarrotController_addr None ''h'' ''80'' 5) demo_resolved"
  define k0 where "k0 = (RpcClientConnection_new ''h'' ''80'')\<lparr>cc_id := 1, cc_open := True\<rparr>"
  define S1 where "S1 = put_cconn 0 k0 S0"
  have reach: "channel_reachable little_host varint_client quiet S0"
    unfolding S0_def by (rule channel_reachable.user [OF demo_reachable(2)])
  have st: "ch_tasks S1 0 = Some demo_task" "ch_objs S1 0 = Some k0"
    "ctl_timeout (ch_ctls S1 0) = 5"
    by (simp_all add: S1_def S0_def demo_resolved_state) (simp add: set_ctl_def CarrotController_addr_def)
  have codec: "message_codec (cp_request varint_client) (Request_good varint_lib varint_str_ok)"
    using varint_request.request.message_codec_axioms by (simp add: varint_client_def)
  have api: "md_request_api (t_method demo_task) = bytes_api" by (simp add: demo_task_def echo_desc_def)
  have codec': "message_codec (md_request_api (t_method demo_task)) (\<lambda>_. True)"
    unfolding api by (rule bytes_codec.message_codec_axioms)
  have good: "Request_good varint_lib varint_str_ok (make_request varint_client demo_task)"
    by (simp add: make_request_def demo_task_def echo_desc_def varint_client_def identity_of_def
        varint_str_ok_def)
  have "ByteSize (cp_request varint_client) (make_request varint_client demo_task) = 13" by code_simp
  then have size: "12 + ByteSize (cp_request varint_client) (make_request varint_client demo_task)
      + ByteSize (md_request_api (t_method demo_task)) (t_request demo_task) \<le> 2147483648"
    unfolding api by (simp add: bytes_api_def) (simp add: demo_task_def)
  have nb: "t_buf demo_task = null_buf" by (simp add: demo_task_def)
  obtain out b where sc: "start_call little_host varint_client quiet 0 0 S1 = Inr (add_op 0 (WriteOp 0 out)
       (setup_task_timer 0 0
          (put_cconn 0 (k0\<lparr>cc_outgoing := omap_insert (t_id demo_task) 0 (cc_outgoing k0)\<rparr>)
            (put_task 0 (demo_task\<lparr>t_buf := b, t_state := STATE_WRITE_TO_SERVER\<rparr>) S1))))"
    by (rule start_call_sends [OF codec codec' good TrueI st(1) nb st(2) example_hosts(3) size,
          where D = quiet]) metis
  define k2 where "k2 = k0\<lparr>cc_outgoing := [(1, 0)], cc_ops := [WriteOp 0 out, TimerOp 0]\<rparr>"
  define S2 where "S2 = put_cconn 0 k2 (put_task 0 (demo_task\<lparr>t_buf := b, t_state := STATE_WRITE_TO_SERVER\<rparr>) S1)"
  have tc: "t_controller demo_task = 0" "t_id demo_task = 1" by (simp_all add: demo_task_def)
  have sc2: "start_call little_host varint_client quiet 0 0 S1 = Inr S2"
    using sc st(3) by (simp add: setup_task_timer_def add_op_def tc TIMEOUT_NEVER_def)
      (simp add: S2_def k2_def k0_def RpcClientConnection_new_def)
  obtain b' blk where e: "expand_packet little_host null_buf 12 = Inr (0, b')"
    and blk: "buf_p b' = Some blk" "12 \<le> length blk"
    by (rule expand_null_alloc [of little_host 12]) (auto simp: example_hosts)
  define S3 where "S3 = put_cconn 0 (k2\<lparr>cc_buf := b', cc_ops := ReadHeaderOp # cc_ops k2\<rparr>) S2"
  have sr: "start_read little_host quiet 0 S2 = Inr (S3, None)"
    using e by (simp add: start_read_def S2_def Let_def S3_def)
      (simp add: add_op_def k2_def k0_def RpcClientConnection_new_def)
  have "op_done 0 (ConnectOp 0) S0 = put_cconn 0 (k0\<lparr>cc_connecting := True\<rparr>) S0"
    by (simp add: op_done_def S0_def demo_resolved_state k0_def RpcClientConnection_new_def)
  moreover have "put_cconn 0 (k0\<lparr>cc_connecting := False\<rparr>) S0 = S1"
    by (simp add: S1_def k0_def RpcClientConnection_new_def)
  ultimately have run: "client_run little_host varint_client quiet (Connected 0 0 None) S0 = Inr (S3, None)"
    using sc2 sr by (simp add: client_run_def handle_connect_def)
  have "client_enabled (Connected 0 0 None) S0"
    by (simp add: client_enabled_def S0_def demo_resolved_state)
  from channel_reachable.event [OF reach this run] show ?thesis
    by (rule that [where k = "k2\<lparr>cc_buf := b', cc_ops := ReadHeaderOp # cc_ops k2\<rparr>"
          and T = "demo_task\<lparr>t_buf := b, t_state := STATE_WRITE_TO_SERVER\<rparr>"])
      (simp_all add: S3_def S2_def k2_def k0_def RpcClientConnection_new_def demo_task_def
        STATE_WRITE_TO_SERVER_def S1_def S0_def ids_left_def demo_resolved_state blk set_ctl_def)
qed

theorem timeout_ends_call_witness:
  "\<exists>(S :: byte list channel) S'. client_run little_host varint_client quiet (TimerFired 0 0 None) S = Inr (S', None) \<and>
     ErrorText (ch_ctls S' 0) = ''rpc timed out at state STATE_WRITE_TO_SERVER''"
proof -
  obtain S :: "byte list channel" and k T where S: "channel_reachable little_host varint_client quiet S"
    "ch_objs S 0 = Some k" "TimerOp 0 \<in> set (cc_ops k)" "ch_tasks S 0 = Some T"
    "\<not> t_called T" "\<not> cc_connecting k" "t_controller T = 0" "t_state T = 2"
    by (rule demo_connected) blast
  have "quiet (t_done T) 0 = None" by (simp add: quiet_def)
  from timeout_ends_call [where D = quiet, OF S(1-5) this] S(6) obtain S'
    where "client_run little_host varint_client quiet (TimerFired 0 0 None) S = Inr (S', None)"
      "ErrorText (ch_ctls S' 0) = ''rpc timed out at state STATE_WRITE_TO_SERVER''"
    by (auto simp: S(7,8) state_strs_def)
  then show ?thesis by blast
qed

text \<open>
  C14. When a connection fails (here: reading the next header), all its outgoing calls end,
  its socket is closed and the error is thrown; but the channel keeps the connection in its
  table, because the entry is erased from a copy of that table.
\<close>

theorem failed_connection_kept:
  assumes "ch_objs S c = Some k" and "buf_p (cc_buf k) = Some blk"
  shows "\<exists>S' k'. client_run M P D (HeaderArrived c [] (Some e)) S = Inr (S', Some (ClientSystemError e)) \<and>
    ch_objs S' c = Some k' \<and> \<not> cc_open k' \<and> cc_outgoing k' = [] \<and> ch_conns S' = ch_conns S \<and>
    (\<forall>i t T. (i, t) \<in> set (cc_outgoing k) \<longrightarrow> ch_tasks S' t = Some T \<longrightarrow> t_called T)"
proof -
  define k0 where "k0 = k\<lparr>cc_ops := remove1 ReadHeaderOp (cc_ops k), cc_buf := (cc_buf k)\<lparr>buf_p := Some blk\<rparr>\<rparr>"
  define S0 where "S0 = put_cconn c k0 S"
  have o: "ch_objs S0 c = Some k0" by (simp add: S0_def)
  have run: "client_run M P D (HeaderArrived c [] (Some e)) S =
      Inr (client_destroy M D e c S0, Some (ClientSystemError e))"
    using assms by (simp add: client_run_def op_done_def client_store_def store_at_def
        client_read_header_def S0_def k0_def)
  have "cc_outgoing k0 = cc_outgoing k" "ch_conns S0 = ch_conns S" by (simp_all add: k0_def S0_def)
  with run destroy_effect [OF o, where M = M and D = D and e = e] show ?thesis by auto
qed

theorem failed_connection_kept_witness:
  "\<exists>S'. client_run little_host varint_client quiet (HeaderArrived 0 [] (Some Eof)) demo_waiting
     = Inr (S', Some (ClientSystemError Eof)) \<and> ch_conns S' = [''h:80'' \<mapsto> 0]"
proof -
  have c: "ch_conns demo_waiting = [''h:80'' \<mapsto> 0]" by (simp add: demo_waiting_def demo_resolved_state)
  show ?thesis
    using failed_connection_kept [of demo_waiting 0 _ "replicate 16 0" little_host varint_client quiet Eof]
    by (auto simp: c) (simp add: demo_waiting_def, blast)
qed

end
