(* ===== verification/End_To_End.thy ===== *)
theory End_To_End
  imports Async_Server_Replies Async_Channel_Calls
begin

text \<open>
  The asynchronous channel and the asynchronous server together: the bytes one writes are the
  bytes the other reads. The two run on machines of their own (\<open>M1\<close> and \<open>M2\<close>, of any byte
  order) and share the generated messages.
\<close>

section \<open>One remote call\<close>

text \<open>The controller of a call after the response of a method whose own controller is \<open>ctl\<close>.\<close>

definition reported :: "controller \<Rightarrow> controller \<Rightarrow> controller" where
  "reported server_ctl ctl =
     (if Failed server_ctl
      then SetFailed_ec (''Failed to call rpc: '' @ ErrorText server_ctl) EC_FAILED ctl else ctl)"

lemma response_for_fields [simp]:
  "rs_id (response_for ctl rq P) = rq_id rq"
  "Response_status (response_for ctl rq P) = (if Failed ctl then FAILED else SUCCESS)"
  "Failed ctl \<Longrightarrow> rs_message (response_for ctl rq P) = ErrorText ctl"
  by (simp_all add: response_for_def)

lemma apply_status_reported:
  "apply_status (Response_status (response_for sctl rq P)) (rs_message (response_for sctl rq P)) ctl =
   reported sctl ctl"
  by (auto simp: apply_status_def reported_def)

lemma write_done_step:
  assumes "ch_objs S c = Some k" and "ch_tasks S t = Some T"
  shows "client_run M P D (WriteDone c t out None) S =
    Inr (put_task t (T\<lparr>t_state := STATE_READ_DATA\<rparr>)
          (put_cconn c (k\<lparr>cc_ops := remove1 (WriteOp t out) (cc_ops k)\<rparr>) S), None)"
  using assms by (simp add: client_run_def op_done_def handle_write_def)

text \<open>A frame that carries a call, and what makes a call one that can be sent.\<close>

definition carries :: "'u client_protocol \<Rightarrow> 'm call_task \<Rightarrow> byte list \<Rightarrow> bool" where
  "carries P T out \<longleftrightarrow> (\<exists>bs1 bs2. out = frame (of_nat (length bs1)) (of_nat (length bs2)) 0 (bs1 @ bs2) \<and>
     ParseFromArray (cp_request P) bs1 = Some (make_request P T) \<and>
     ParseFromArray (md_request_api (t_method T)) bs2 = Some (t_request T) \<and>
     length bs1 = ByteSize (cp_request P) (make_request P T) \<and>
     length bs2 = ByteSize (md_request_api (t_method T)) (t_request T))"

definition call_size :: "'u client_protocol \<Rightarrow> 'm call_task \<Rightarrow> nat" where
  "call_size P T = 12 + ByteSize (cp_request P) (make_request P T) + ByteSize (md_request_api (t_method T)) (t_request T)"

definition can_send :: "'u client_protocol \<Rightarrow> 'm call_task \<Rightarrow> bool" where
  "can_send P T \<longleftrightarrow> (\<exists>gq gm. message_codec (cp_request P) gq \<and> message_codec (md_request_api (t_method T)) gm \<and>
     gq (make_request P T) \<and> gm (t_request T)) \<and> call_size P T \<le> 2147483648"

text \<open>The client's end, from the reply on the wire.\<close>

lemma reply_ends_call:
  assumes "ch_objs S c = Some k" and "buf_p (cc_buf k) = Some blk" and "12 \<le> length blk"
    and "wf_pbuf (cc_buf k)" and "\<And>n. can_alloc M n" and "12 + length rs1 + length rs2 \<le> 2147483648"
    and "reply = frame (of_nat (length rs1)) 0 (of_nat (length rs2)) (rs1 @ rs2)"
    and "ParseFromArray (cp_response P) rs1 = Some (response_for sctl rq Q)"
    and "map_of (cc_outgoing k) (rq_id rq) = Some t"
    and "ch_tasks S t = Some T" and "\<not> t_called T" and "D (t_done T) t = None"
    and "ParseFromArray (md_response_api (t_method T)) rs2 = Some response"
  shows "\<exists>S1 S2 T'.
    client_run M P D (HeaderArrived c (take 12 reply) None) S = Inr (S1, None) \<and>
    client_run M P D (PayloadArrived c (of_nat (length reply - 12)) (drop 12 reply) None) S1 = Inr (S2, None) \<and>
    ch_tasks S2 t = Some T' \<and> t_called T' \<and> t_runs T' = Suc (t_runs T) \<and>
    ch_resps S2 (t_response T) = response \<and>
    ch_ctls S2 (t_controller T) = reported sctl (ch_ctls S (t_controller T))"
proof -
  have reply: "take 12 reply = wire_header (of_nat (length rs1)) 0 (of_nat (length rs2))"
    "drop 12 reply = rs1 @ rs2" "length reply - 12 = length rs1 + length rs2"
    by (simp_all add: assms(7) frame_def)
  have id: "map_of (cc_outgoing k) (rs_id (response_for sctl rq Q)) = Some t" using assms(9) by simp
  show ?thesis
    using response_arrives [where D = D, OF assms(1-6,8) id assms(10-12)]
    unfolding reply assms(13) option.case apply_status_reported by auto
qed

text \<open>
  \<open>exchange\<close>: from a call whose frame \<open>out\<close> is being written, every event it causes, without an
  exception, in the order of the two sides: the end of the write, the two reads of the server
  with what was written, and the two reads of the client with the reply the server then has
  pending. \<open>remote_exchange\<close>: the same with the call itself.
\<close>

definition exchange ::
  "machine \<Rightarrow> 'u client_protocol \<Rightarrow> closures \<Rightarrow> machine \<Rightarrow> 'v protocol \<Rightarrow> nat \<Rightarrow> nat \<Rightarrow> nat \<Rightarrow> byte list \<Rightarrow>
   'm channel \<Rightarrow> 'm aserver \<Rightarrow> 'm channel \<Rightarrow> 'm aserver \<Rightarrow> bool" where
  "exchange M1 P1 D M2 P2 c d t out S Z S' Z' \<longleftrightarrow>
    (\<exists>S1 Z1 l reply S2.
      client_run M1 P1 D (WriteDone c t out None) S = Inr (S1, None) \<and>
      run_event M2 P2 (HeaderRead d (take 12 out)) Z = Inr (Z1, None) \<and>
      run_event M2 P2 (PayloadRead d (drop 12 out)) Z1 = Inr (Z', None) \<and>
      as_objs Z' d = Some l \<and> rc_pending l = WriteResponse reply \<and>
      client_run M1 P1 D (HeaderArrived c (take 12 reply) None) S1 = Inr (S2, None) \<and>
      client_run M1 P1 D (PayloadArrived c (of_nat (length reply - 12)) (drop 12 reply) None) S2
        = Inr (S', None))"

definition remote_exchange ::
  "machine \<Rightarrow> 'u client_protocol \<Rightarrow> closures \<Rightarrow> machine \<Rightarrow> 'v protocol \<Rightarrow> nat \<Rightarrow> nat \<Rightarrow> 'm method_desc \<Rightarrow>
   nat \<Rightarrow> 'm \<Rightarrow> nat \<Rightarrow> nat \<Rightarrow> 'm channel \<Rightarrow> 'm aserver \<Rightarrow> 'm channel \<Rightarrow> 'm aserver \<Rightarrow> bool" where
  "remote_exchange M1 P1 D M2 P2 c d desc ctl request resp done_cb S Z S' Z' \<longleftrightarrow>
    (\<exists>S1 out. CallMethod M1 P1 D desc ctl request resp done_cb S = Inr S1 \<and>
      exchange M1 P1 D M2 P2 c d (ch_next_task S) out S1 Z S' Z')"

lemma exchange_completes:
  assumes client: "ch_objs S c = Some k" "ch_tasks S t = Some T" "\<not> t_called T" "t_runs T = 0"
      "map_of (cc_outgoing k) (t_id T) = Some t" "buf_p (cc_buf k) = Some blk" "12 \<le> length blk" "wf_pbuf (cc_buf k)"
    and memory: "\<And>n. can_alloc M1 n" "\<And>n. can_alloc M2 n"
    and server: "server_reachable M2 P2 Z" "as_objs Z d = Some l" "rc_pending l = ReadHeader"
    and messages: "cp_request P1 = proto_request P2" "cp_response P1 = proto_response P2"
      "md_request_api (t_method T) = request_api md" "md_response_api (t_method T) = response_api md"
      "message_codec (proto_response P2) gr" "message_codec (response_api md) g2"
    and frame: "carries P1 T out" "rq = make_request P1 T"
    and offered: "dispatch_to (as_services Z) (rq_method_identity rq) = Target cs md"
      "run_service M2 md (t_request T) = (sctl, response)"
    and good: "gr (response_for sctl rq P2)" "g2 response"
    and sizes: "call_size P1 T \<le> 2147483648"
      "12 + ByteSize (proto_response P2) (response_for sctl rq P2) + ByteSize (response_api md) response
        \<le> call_size P1 T"
    and callback: "D (t_done T) t = None"
  shows "\<exists>S' Z' T'. exchange M1 P1 D M2 P2 c d t out S Z S' Z' \<and>
    ch_tasks S' t = Some T' \<and> t_called T' \<and> t_runs T' = 1 \<and>
    ch_resps S' (t_response T) = response \<and> ch_ctls S' (t_controller T) = reported sctl (ch_ctls S (t_controller T))"
proof -
  let ?rr = "response_for sctl rq P2" and ?T = "T\<lparr>t_state := STATE_READ_DATA\<rparr>"
  let ?k = "k\<lparr>cc_ops := remove1 (WriteOp t out) (cc_ops k)\<rparr>"
  let ?S1 = "put_task t ?T (put_cconn c ?k S)"
  obtain bs1 bs2 where out: "out = frame (of_nat (length bs1)) (of_nat (length bs2)) 0 (bs1 @ bs2)"
    and parts: "ParseFromArray (proto_request P2) bs1 = Some rq" "length bs1 = ByteSize (cp_request P1) rq"
      "ParseFromArray (request_api md) bs2 = Some (t_request T)"
      "length bs2 = ByteSize (request_api md) (t_request T)"
    using frame messages(1,3) unfolding carries_def by auto
  have wire: "take 12 out = wire_header (of_nat (length bs1)) (of_nat (length bs2)) 0" "drop 12 out = bs1 @ bs2"
    by (simp_all add: out frame_def)
  have le: "12 + length bs1 + length bs2 \<le> 2147483648"
    and fits: "12 + ByteSize (proto_response P2) ?rr + ByteSize (response_api md) response
      \<le> max (12 + length bs1 + length bs2) (unat (buf_size (rc_buf l)))"
    using sizes parts(2,4) frame(2) messages(3) by (simp_all add: call_size_def)
  obtain Z1 Z2 l2 rs1 rs2 where served: "run_event M2 P2 (HeaderRead d (take 12 out)) Z = Inr (Z1, None)"
      "run_event M2 P2 (PayloadRead d (drop 12 out)) Z1 = Inr (Z2, None)"
    and l2: "as_objs Z2 d = Some l2"
      "rc_pending l2 = WriteResponse (frame (of_nat (length rs1)) 0 (of_nat (length rs2)) (rs1 @ rs2))"
    and answer: "ParseFromArray (proto_response P2) rs1 = Some ?rr" "length rs1 = ByteSize (proto_response P2) ?rr"
      "ParseFromArray (response_api md) rs2 = Some response" "length rs2 = ByteSize (response_api md) response"
    using request_gets_reply [OF server memory(2) le parts(1) offered(1) parts(3) offered(2)
        messages(5,6) good fits] unfolding wire reply_pending_def by blast
  have st: "ch_objs ?S1 c = Some ?k" "buf_p (cc_buf ?k) = Some blk" "wf_pbuf (cc_buf ?k)"
    "map_of (cc_outgoing ?k) (rq_id rq) = Some t" "ch_tasks ?S1 t = Some ?T" "\<not> t_called ?T" "D (t_done ?T) t = None"
    using client callback frame(2) by (simp_all add: make_request_def)
  have le2: "12 + length rs1 + length rs2 \<le> 2147483648" using sizes answer(2,4) by simp
  have parse: "ParseFromArray (cp_response P1) rs1 = Some ?rr"
    "ParseFromArray (md_response_api (t_method ?T)) rs2 = Some response"
    using answer(1,3) messages(2,4) by simp_all
  define reply where "reply = frame (of_nat (length rs1)) 0 (of_nat (length rs2)) (rs1 @ rs2)"
  from reply_ends_call [where D = D, OF st(1,2) client(7) st(3) memory(1) le2 reply_def parse(1) st(4-7) parse(2)]
    client(4)
  show ?thesis
    using write_done_step [OF client(1,2), of M1 P1 D out] served l2 [folded reply_def] unfolding exchange_def by fastforce
qed

text \<open>
  C1. One remote call, end to end: on an open connection of the channel to a server that waits
  for a request and offers the method, the client's call, its write, the server's two reads and
  the client's two reads leave the call ended exactly once, the method's result in the
  user's response message, and the user's controller untouched, unless the method failed, when
  it reports \<open>EC_FAILED\<close> with the method's own text. Provided that there is memory on both sides,
  the messages can be encoded, the request frame has at most \<open>2 ^ 31\<close> bytes and the reply frame no more
  than the request frame (a larger one the server may write past the end of its buffer), the
  connection has call numbers left, and the callback does not throw.
\<close>

theorem remote_call_completes:
  assumes client: "channel_reachable M1 P1 D S" "ids_left S"
      "ch_conns S (ctl_host (ch_ctls S ctl) @ '':'' @ ctl_service (ch_ctls S ctl)) = Some c"
      "ch_objs S c = Some k" "cc_open k" "buf_p (cc_buf k) = Some blk" "12 \<le> length blk"
    and memory: "\<And>n. can_alloc M1 n" "\<And>n. can_alloc M2 n"
    and server: "server_reachable M2 P2 Z" "as_objs Z d = Some l" "rc_pending l = ReadHeader"
    and messages: "cp_request P1 = proto_request P2" "cp_response P1 = proto_response P2"
      "md_request_api desc = request_api md" "md_response_api desc = response_api md"
      "message_codec (proto_request P2) gq" "message_codec (proto_response P2) gr"
      "message_codec (request_api md) g1" "message_codec (response_api md) g2"
    and rq: "rq = Request_set_method_identity (identity_of (md_service desc) (md_name desc))
           (Request_set_id (cc_id k + 1) (cp_fresh_request P1))"
    and offered: "dispatch_to (as_services Z) (rq_method_identity rq) = Target cs md"
      "run_service M2 md request = (sctl, response)"
    and good: "gq rq" "g1 request" "gr (response_for sctl rq P2)" "g2 response"
    and sizes: "12 + ByteSize (proto_request P2) rq + ByteSize (request_api md) request \<le> 2147483648"
      "12 + ByteSize (proto_response P2) (response_for sctl rq P2) + ByteSize (response_api md) response
        \<le> 12 + ByteSize (proto_request P2) rq + ByteSize (request_api md) request"
    and callback: "D done_cb (ch_next_task S) = None"
  shows "\<exists>S' Z' T. remote_exchange M1 P1 D M2 P2 c d desc ctl request resp done_cb S Z S' Z' \<and>
    ch_tasks S' (ch_next_task S) = Some T \<and> t_called T \<and> t_runs T = 1 \<and>
    ch_resps S' resp = response \<and> ch_ctls S' ctl = reported sctl (ch_ctls S ctl)"
proof -
  let ?t = "ch_next_task S"
  obtain S1 k1 T bs1 bs2 where call: "CallMethod M1 P1 D desc ctl request resp done_cb S = Inr S1"
    and k1: "ch_objs S1 c = Some k1" "cc_buf k1 = cc_buf k" "map_of (cc_outgoing k1) (rq_id rq) = Some ?t"
    and parts: "ParseFromArray (proto_request P2) bs1 = Some rq" "length bs1 = ByteSize (proto_request P2) rq"
      "ParseFromArray (request_api md) bs2 = Some request" "length bs2 = ByteSize (request_api md) request"
    and T: "ch_tasks S1 ?t = Some T" "\<not> t_called T" "t_runs T = 0" "t_controller T = ctl" "t_response T = resp"
      "t_done T = done_cb" "t_method T = desc" "t_id T = cc_id k + 1" "t_request T = request" "ch_ctls S1 = ch_ctls S"
    by (rule call_on_open [OF client(1-5) memory(1) messages(5) [folded messages(1)]
          messages(7) [folded messages(3)] rq good(1,2) sizes(1) [folded messages(1,3)],
          where resp = resp and done_cb = done_cb]) (metis messages(1,3))
  have mk: "rq = make_request P1 T" by (simp add: make_request_def T rq)
  have fr: "carries P1 T (frame (of_nat (length bs1)) (of_nat (length bs2)) 0 (bs1 @ bs2))"
    unfolding carries_def using parts by (intro exI [of _ bs1] exI [of _ bs2]) (simp add: mk [symmetric] messages T)
  have size: "call_size P1 T = 12 + ByteSize (proto_request P2) rq + ByteSize (request_api md) request"
    by (simp add: call_size_def messages T mk [symmetric])
  have id: "map_of (cc_outgoing k1) (t_id T) = Some ?t" using k1(3) by (simp add: rq T)
  have buf: "buf_p (cc_buf k1) = Some blk" "wf_pbuf (cc_buf k1)"
    using k1(2) client(6) chan_invD(4) [OF channel_reachable_inv [OF client(1)] client(4)]
    by (simp_all add: conn_ok_def)
  have apis: "md_request_api (t_method T) = request_api md" "md_response_api (t_method T) = response_api md"
    "D (t_done T) ?t = None" using messages(3,4) callback T(6,7) by simp_all
  from exchange_completes [where D = D, OF k1(1) T(1-3) id buf(1) client(7) buf(2) memory server messages(1,2)
      apis(1,2) messages(6,8) fr mk offered(1) offered(2) [folded T(9)] good(3,4) sizes [folded size] apis(3)]
  show ?thesis unfolding T remote_exchange_def using call by blast
qed

definition call_2 :: "byte list Request" where
  "call_2 = Request_set_method_identity (identity_of (md_service echo_desc) (md_name echo_desc))
     (Request_set_id 2 (cp_fresh_request varint_client))"

lemma call_2_facts:
  "Request_good varint_lib varint_str_ok call_2"
  "ByteSize varint_request_api call_2 = 13"
  "dispatch_to (as_services echo_server) (rq_method_identity call_2) =
     Target \<lparr>cs_s = echo_service, cs_c = None\<rparr> echo_method"
  "Response_good varint_lib varint_str_ok
     (response_for (CarrotController_default None 0) call_2 varint_protocol)"
  "ByteSize varint_response_api (response_for (CarrotController_default None 0) call_2 varint_protocol) = 4"
proof -
  have rq: "rq_method_identity call_2 = rq_method_identity echo_request"
    by (simp add: call_2_def echo_request_def echo_desc_def identity_of_def varint_client_def)
  show "Request_good varint_lib varint_str_ok call_2"
    by (simp add: call_2_def echo_desc_def varint_client_def identity_of_def varint_str_ok_def)
  show "ByteSize varint_request_api call_2 = 13" by code_simp
  show "dispatch_to (as_services echo_server) (rq_method_identity call_2) =
     Target \<lparr>cs_s = echo_service, cs_c = None\<rparr> echo_method"
    unfolding rq by (rule echo_dispatch)
  show "Response_good varint_lib varint_str_ok
     (response_for (CarrotController_default None 0) call_2 varint_protocol)"
    by (simp add: response_for_def varint_protocol_def CarrotController_default_def Failed_def
      Response_set_commute varint_str_ok_def)
  show "ByteSize varint_response_api (response_for (CarrotController_default None 0) call_2 varint_protocol) = 4"
    by code_simp
qed

theorem remote_call_completes_witness:
  "\<exists>(S :: byte list channel) S1 S2 S3 S4 out Z1 Z2 l2 reply.
    CallMethod little_host varint_client quiet echo_desc 0 [1, 2, 3] 5 0 S = Inr S1 \<and>
    client_run little_host varint_client quiet (WriteDone 0 1 out None) S1 = Inr (S2, None) \<and>
    run_event little_host varint_protocol (HeaderRead 0 (take 12 out)) echo_server = Inr (Z1, None) \<and>
    run_event little_host varint_protocol (PayloadRead 0 (drop 12 out)) Z1 = Inr (Z2, None) \<and>
    as_objs Z2 0 = Some l2 \<and> rc_pending l2 = WriteResponse reply \<and>
    client_run little_host varint_client quiet (HeaderArrived 0 (take 12 reply) None) S2 = Inr (S3, None) \<and>
    client_run little_host varint_client quiet
      (PayloadArrived 0 (of_nat (length reply - 12)) (drop 12 reply) None) S3 = Inr (S4, None) \<and>
    ch_resps S4 5 = [1, 2, 3] \<and> ErrorCode (ch_ctls S4 0) = EC_SUCCESS"
proof -
  obtain S :: "byte list channel" and k where S: "channel_reachable little_host varint_client quiet S"
      "ids_left S" "ch_conns S = [''h:80'' \<mapsto> 0]" "ch_objs S 0 = Some k" "cc_open k"
      "ch_ctls S 0 = CarrotController_addr None ''h'' ''80'' 5" "cc_id k = 1" "ch_next_task S = 1"
      and buf: "\<exists>blk. buf_p (cc_buf k) = Some blk \<and> 12 \<le> length blk"
    by (rule demo_connected) blast
  obtain blk where blk: "buf_p (cc_buf k) = Some blk" "12 \<le> length blk" using buf by blast
  have key: "ch_conns S (ctl_host (ch_ctls S 0) @ '':'' @ ctl_service (ch_ctls S 0)) = Some 0"
    by (simp add: S(3,6) CarrotController_addr_def)
  have apis: "proto_request varint_protocol = varint_request_api"
    "proto_response varint_protocol = varint_response_api" "cp_request varint_client = varint_request_api"
    "cp_response varint_client = varint_response_api" by (simp_all add: varint_protocol_def varint_client_def)
  have ms: "md_request_api echo_desc = request_api echo_method" "md_response_api echo_desc = response_api echo_method"
    "request_api echo_method = bytes_api" "response_api echo_method = bytes_api"
    by (simp_all add: echo_desc_def echo_method_def)
  have rq: "call_2 = Request_set_method_identity (identity_of (md_service echo_desc) (md_name echo_desc))
      (Request_set_id (cc_id k + 1) (cp_fresh_request varint_client))" by (simp add: call_2_def S(7))
  have conn: "as_objs echo_server 0 = Some echo_conn" "rc_pending echo_conn = ReadHeader"
    by (simp_all add: echo_accept(2) echo_conn_def)
  have run: "run_service little_host echo_method [1, 2, 3] = (CarrotController_default None 0, [1, 2, 3])"
    by (simp add: echo_run little_host_def)
  have q: "quiet 0 (ch_next_task S) = None" by (simp add: quiet_def)
  have codecs: "message_codec varint_request_api (Request_good varint_lib varint_str_ok)"
    "message_codec varint_response_api (Response_good varint_lib varint_str_ok)"
    "message_codec bytes_api (\<lambda>_. True)"
    by (rule varint_request.request.message_codec_axioms varint_response.response.message_codec_axioms
        bytes_codec.message_codec_axioms)+
  have sizes: "12 + ByteSize varint_request_api call_2 + ByteSize bytes_api [1, 2, 3] \<le> 2147483648"
    "12 + ByteSize varint_response_api (response_for (CarrotController_default None 0) call_2 varint_protocol)
       + ByteSize bytes_api [1, 2, 3] \<le> 12 + ByteSize varint_request_api call_2 + ByteSize bytes_api [1, 2, 3]"
    by (simp_all add: call_2_facts bytes_api_def)
  have rep: "reported (CarrotController_default None 0) (ch_ctls S 0) = ch_ctls S 0"
    "ErrorCode (ch_ctls S 0) = EC_SUCCESS"
    by (simp_all add: reported_def Failed_def CarrotController_default_def S(6) ErrorCode_def
        CarrotController_addr_def)
  from remote_call_completes [where D = quiet and resp = 5 and done_cb = 0 and ?P1.0 = varint_client
      and ?P2.0 = varint_protocol and ctl = 0 and desc = echo_desc and ?M1.0 = little_host
      and ?M2.0 = little_host and md = echo_method, unfolded apis ms, OF S(1,2) key S(4,5) blk example_hosts(3) example_hosts(3)
      echo_reachable conn refl refl refl refl codecs(1,2,3) codecs(3) rq call_2_facts(3) run
      call_2_facts(1) TrueI call_2_facts(4) TrueI sizes q]
  show ?thesis unfolding S(8) rep(1) remote_exchange_def exchange_def using rep(2) by metis
qed

end
