(* ===== verification/Blocking_Channel.thy ===== *)
theory Blocking_Channel
  imports Threaded_Server End_To_End
begin

section \<open>The blocking channel: src/src/client/carrot_blocking_channel.h and .cpp\<close>

text \<open>
  A channel over one connected descriptor. A call builds its packet in a block of its own,
  writes it, and reads the reply into the same block, grown when the reply is longer. Every
  path ends at the label \<open>run_callback\<close>, so what \<open>CallMethod\<close> returns is how the controller,
  the response message and the descriptors are left when \<open>done\<close> is run, once.
\<close>

subsection \<open>State and construction\<close>

record bchannel =
  bc_sock :: int
  bc_os :: os

text \<open>\<open>connect_to\<close> with the kernel's answers, and the sockets behind the descriptors it opens.\<close>

definition CarrotBlockingChannel_new :: "addrinfo list option \<Rightarrow> os \<Rightarrow> string + bchannel" where
  "CarrotBlockingChannel_new addrs w =
     (let s = fst (connect_to addrs) in
      if s < 0 then Inl ''failed to connect to server'' else Inr \<lparr>bc_sock = s, bc_os = w\<rparr>)"

definition CarrotBlockingChannel_delete :: "bchannel \<Rightarrow> bchannel" where
  "CarrotBlockingChannel_delete C =
     (if 0 \<le> bc_sock C
      then \<lparr>bc_sock = -1, bc_os = snd (fd_close (nat (bc_sock C)) (bc_os C))\<rparr> else C)"

subsection \<open>CallMethod\<close>

text \<open>How a call ends: the controller, the response message, and the descriptors.\<close>

type_synonym 'm call_end = "controller \<times> 'm \<times> os"

definition give_up :: "string \<Rightarrow> error_code \<Rightarrow> controller \<Rightarrow> 'm \<Rightarrow> os \<Rightarrow> 'm call_end" where
  "give_up what ec ctl response w = (SetFailed_ec what ec ctl, response, w)"

definition transport_error :: "machine \<Rightarrow> string \<Rightarrow> controller \<Rightarrow> 'm \<Rightarrow> os \<Rightarrow> 'm call_end" where
  "transport_error M what ctl response w = give_up (what @ strerror M (os_errno w)) EC_TRANSPORT_ERROR ctl response w"

text \<open>The packet to send, in a fresh block; \<open>Inl\<close> the message and code of a failure.\<close>

definition blocking_request ::
  "machine \<Rightarrow> 'u client_protocol \<Rightarrow> 'm method_desc \<Rightarrow> 'm \<Rightarrow>
   ((string \<times> error_code) + nat \<times> block) res" where
  "blocking_request M P method request =
     (let rpc_req = Request_set_method_identity (identity_of (md_service method) (md_name method))
            (cp_fresh_request P);
          rpc_len = (of_nat (ByteSize (cp_request P) rpc_req) :: u32);
          req_len = (of_nat (ByteSize (md_request_api method) request) :: u32);
          n = sizeof_packet + unat rpc_len + unat req_len in
      case realloc M None n of
        None \<Rightarrow> Inr (Inl (''failed to malloc for outgoing packet'', EC_OOM))
      | Some blk \<Rightarrow>
          and_then (store_header M rpc_len req_len 0 blk) (\<lambda>blk.
          case SerializeToArray (cp_request P) rpc_req (unat (rpc_len + req_len)) of
            None \<Rightarrow> Inr (Inl (''failed to serialize Request metadata into byte array'', EC_SERIALIZATION_ERROR))
          | Some bs1 \<Rightarrow>
              and_then (store_at off_data bs1 blk) (\<lambda>blk.
              case SerializeToArray (md_request_api method) request (unat req_len) of
                None \<Rightarrow> Inr (Inl (''failed to serialize request paramerter into byte array'', EC_SERIALIZATION_ERROR))
              | Some bs2 \<Rightarrow>
                  and_then (store_at (off_data + unat rpc_len) bs2 blk) (\<lambda>blk.
                  and_then (CONVERT_TO_NETWORK_ORDER M blk) (\<lambda>blk. Inr (Inr (n, blk)))))))"

text \<open>What is done with a reply that has been read into \<open>blk\<close>.\<close>

definition blocking_reply ::
  "'u client_protocol \<Rightarrow> 'm method_desc \<Rightarrow> u32 \<Rightarrow> u32 \<Rightarrow> block \<Rightarrow> controller \<Rightarrow> 'm \<Rightarrow> os \<Rightarrow>
   'm call_end res" where
  "blocking_reply P method rpc_len resp_len blk ctl response w =
     and_then (load_at off_data (unat rpc_len) blk) (\<lambda>meta.
     case ParseFromArray (cp_response P) meta of
       None \<Rightarrow> Inr (give_up ''failed to read Response metadata from server'' EC_SERIALIZATION_ERROR ctl response w)
     | Some rpc_resp \<Rightarrow>
         (let ctl = apply_status (Response_status rpc_resp) (rs_message rpc_resp) ctl in
          and_then (load_at (off_data + unat rpc_len) (unat resp_len) blk) (\<lambda>param.
          case ParseFromArray (md_response_api method) param of
            None \<Rightarrow> Inr (give_up ''failed to read response parameter from server'' EC_SERIALIZATION_ERROR
                       ctl response w)
          | Some m \<Rightarrow> Inr (ctl, m, w))))"

text \<open>
  Reading the reply. The sum of the lengths is a \<open>uint32_t\<close>, compared with the \<open>size_t\<close> room
  behind the header of the request's block; a failing read of one of the three lengths has
  its own message, all with the same code.
\<close>

definition blocking_read_reply ::
  "machine \<Rightarrow> 'u client_protocol \<Rightarrow> 'm method_desc \<Rightarrow> nat \<Rightarrow> nat \<Rightarrow> block \<Rightarrow> controller \<Rightarrow> 'm \<Rightarrow> os \<Rightarrow>
   'm call_end res" where
  "blocking_read_reply M P method fd n blk ctl response w =
     and_then (fd_read_n fd 4 w) (\<lambda>(r, rpc, w).
     if r = -1 then Inr (transport_error M ''failed to read request metadata size from server:'' ctl response w) else
     and_then (fd_read_n fd 4 w) (\<lambda>(r, req, w).
     if r = -1 then Inr (transport_error M ''failed to read request parameter size from server:'' ctl response w) else
     and_then (fd_read_n fd 4 w) (\<lambda>(r, resp, w).
     if r = -1 then Inr (transport_error M ''failed to read response parameter size from server:'' ctl response w) else
     let rpc_len = ntohl M (host_word M rpc); req_len = ntohl M (host_word M req);
         resp_len = ntohl M (host_word M resp); total = rpc_len + req_len + resp_len in
     case (if n - sizeof_packet < unat total then realloc M (Some blk) (unat total + sizeof_packet) else Some blk) of
       None \<Rightarrow> Inr (give_up ''failed to malloc for incoming packet'' EC_OOM ctl response w)
     | Some blk \<Rightarrow>
         and_then (store_header M rpc_len req_len resp_len blk) (\<lambda>blk.
         and_then (fd_read_n fd (unat total) w) (\<lambda>(r, bs, w).
         and_then (store_at off_data bs blk) (\<lambda>blk.
         if r = -1 then Inr (transport_error M ''failed to read incoming packet from server:'' ctl response w)
         else blocking_reply P method rpc_len resp_len blk ctl response w))))))"

definition blocking_CallMethod ::
  "machine \<Rightarrow> 'u client_protocol \<Rightarrow> 'm method_desc \<Rightarrow> controller \<Rightarrow> 'm \<Rightarrow> 'm \<Rightarrow> nat \<Rightarrow> os \<Rightarrow>
   'm call_end res" where
  "blocking_CallMethod M P method ctl request response fd w =
     and_then (blocking_request M P method request) (\<lambda>built.
     case built of
       Inl (what, ec) \<Rightarrow> Inr (give_up what ec ctl response w)
     | Inr (n, blk) \<Rightarrow>
         and_then (load_at 0 n blk) (\<lambda>out.
         case fd_write_n fd out w of (r, w) \<Rightarrow>
           if r = -1 then Inr (transport_error M ''failed to send packet to server:'' ctl response w)
           else blocking_read_reply M P method fd n blk ctl response w))"

subsection \<open>The packet of a call\<close>

lemma blocking_request_built:
  assumes "\<And>n. can_alloc M n"
    and "rq = Request_set_method_identity (identity_of (md_service method) (md_name method)) (cp_fresh_request P)"
    and "ByteSize (cp_request P) rq = length q1" and "ByteSize (md_request_api method) request = length q2"
    and "SerializeToArray (cp_request P) rq (length q1 + length q2) = Some q1"
    and "SerializeToArray (md_request_api method) request (length q2) = Some q2"
    and "12 + length q1 + length q2 < 4294967296"
  shows "blocking_request M P method request =
    Inr (Inr (12 + length q1 + length q2, frame (of_nat (length q1)) (of_nat (length q2)) 0 (q1 @ q2)))"
proof -
  let ?a = "of_nat (length q1) :: u32" and ?b = "of_nat (length q2) :: u32"
  have un: "unat ?a = length q1" "unat ?b = length q2" "unat (?a + ?b) = length q1 + length q2"
  proof -
    have "unat (of_nat (length q1 + length q2) :: u32) = length q1 + length q2"
      using assms(7) by (simp add: unat_of_nat_u32 del: of_nat_add)
    then show "unat (?a + ?b) = length q1 + length q2" by simp
  qed (use assms(7) in \<open>simp_all add: unat_of_nat_u32\<close>)
  define n where "n = 12 + length q1 + length q2"
  obtain blk where blk: "realloc M None n = Some blk" using assms(1) by fastforce
  then have lb: "length blk = n" by (auto dest: realloc_eq_Some)
  have h: "store_header M ?a ?b 0 blk = Inr (host_header M ?a ?b 0 @ drop 12 blk)"
    using lb by (intro store_header_ok) (simp add: n_def)
  have s1: "store_at 12 q1 (host_header M ?a ?b 0 @ drop 12 blk) =
      Inr (host_header M ?a ?b 0 @ q1 @ drop (12 + length q1) blk)"
    using lb by (simp add: store_at_def n_def add.commute)
  have s2: "store_at (12 + length q1) q2 (host_header M ?a ?b 0 @ q1 @ drop (12 + length q1) blk) =
      Inr (host_header M ?a ?b 0 @ q1 @ q2)"
    using lb by (simp add: store_at_def n_def)
  have c: "CONVERT_TO_NETWORK_ORDER M (host_header M ?a ?b 0 @ q1 @ q2) = Inr (frame ?a ?b 0 (q1 @ q2))"
    by (simp add: convert_to_network frame_def)
  show ?thesis
    unfolding blocking_request_def Let_def assms(2) [symmetric] assms(3,4) un packet_layout n_def [symmetric] blk
    by (simp add: h assms(5,6) s1 s2 c)
qed

subsection \<open>The reply to it\<close>

lemma blocking_reply_read:
  assumes "os_fds w fd \<noteq> None" and "\<And>n. can_alloc M n" and "length blk = n" and "12 \<le> n"
    and "to_read fd w = frame (of_nat (length bs1)) 0 (of_nat (length bs2)) (bs1 @ bs2) @ later"
    and "12 + length bs1 + length bs2 < 4294967296"
    and "ParseFromArray (cp_response P) bs1 = Some rr"
  obtains w' where "advanced fd (frame (of_nat (length bs1)) 0 (of_nat (length bs2)) (bs1 @ bs2)) w w'"
    and "to_read fd w' = later"
    and "blocking_read_reply M P method fd n blk ctl response w =
      (let ctl1 = apply_status (Response_status rr) (rs_message rr) ctl in
       case ParseFromArray (md_response_api method) bs2 of
         None \<Rightarrow> Inr (give_up ''failed to read response parameter from server'' EC_SERIALIZATION_ERROR ctl1 response w')
       | Some m \<Rightarrow> Inr (ctl1, m, w'))"
proof -
  let ?a = "of_nat (length bs1) :: u32" and ?b = "of_nat (length bs2) :: u32"
  have un: "unat ?a = length bs1" "unat ?b = length bs2" "unat (?a + 0 + ?b) = length bs1 + length bs2"
  proof -
    have "unat (of_nat (length bs1 + length bs2) :: u32) = length bs1 + length bs2"
      using assms(6) by (simp add: unat_of_nat_u32 del: of_nat_add)
    then show "unat (?a + 0 + ?b) = length bs1 + length bs2" by simp
  qed (use assms(6) in \<open>simp_all add: unat_of_nat_u32\<close>)
  have four: "length (u32_be x) = 4" for x by simp
  have t0: "to_read fd w = u32_be ?a @ u32_be 0 @ u32_be ?b @ (bs1 @ bs2) @ later"
    using assms(5) by (simp add: frame_def wire_header_def)
  obtain w1 where 1: "fd_read_n fd 4 w = Inr (0, u32_be ?a, w1)" "to_read fd w1 = u32_be 0 @ u32_be ?b @ (bs1 @ bs2) @ later"
      "advanced fd (u32_be ?a) w w1" "os_fds w1 fd \<noteq> None"
    using fd_read_enough [OF t0 assms(1)] four by metis
  obtain w2 where 2: "fd_read_n fd 4 w1 = Inr (0, u32_be 0, w2)" "to_read fd w2 = u32_be ?b @ (bs1 @ bs2) @ later"
      "advanced fd (u32_be 0) w1 w2" "os_fds w2 fd \<noteq> None"
    using fd_read_enough [OF 1(2,4)] four by metis
  obtain w3 where 3: "fd_read_n fd 4 w2 = Inr (0, u32_be ?b, w3)" "to_read fd w3 = (bs1 @ bs2) @ later"
      "advanced fd (u32_be ?b) w2 w3" "os_fds w3 fd \<noteq> None"
    using fd_read_enough [OF 2(2,4)] four by metis
  obtain w4 where 4: "fd_read_n fd (length (bs1 @ bs2)) w3 = Inr (0, bs1 @ bs2, w4)" "to_read fd w4 = later"
      "advanced fd (bs1 @ bs2) w3 w4"
    by (rule fd_read_enough [OF 3(2,4)])
  obtain blk2 where blk2: "(if n - sizeof_packet < unat (?a + 0 + ?b)
        then realloc M (Some blk) (unat (?a + 0 + ?b) + sizeof_packet) else Some blk) = Some blk2"
    and lb: "12 + length bs1 + length bs2 \<le> length blk2"
  proof (cases "n - sizeof_packet < unat (?a + 0 + ?b)")
    case True
    then obtain b where "realloc M (Some blk) (unat (?a + 0 + ?b) + sizeof_packet) = Some b"
      using assms(2) by fastforce
    with True realloc_eq_Some [OF this] un(3) show ?thesis by (intro that [of b]) auto
  next
    case False
    with assms(3,4) un(3) show ?thesis by (intro that [of blk]) auto
  qed
  define h where "h = host_header M ?a 0 ?b"
  have sh: "store_header M ?a 0 ?b blk2 = Inr (h @ drop 12 blk2)"
    unfolding h_def using lb by (intro store_header_ok) simp
  have lh: "length h = 12" by (simp add: h_def)
  have st: "store_at off_data (bs1 @ bs2) (h @ drop 12 blk2) = Inr (h @ bs1 @ bs2 @ drop (12 + length bs1 + length bs2) blk2)"
    using lh lb by (simp add: store_at_def ac_simps)
  have ld: "load_at off_data (length bs1) (h @ bs1 @ rest) = Inr bs1"
    "load_at (off_data + length bs1) (length bs2) (h @ bs1 @ bs2 @ rest) = Inr bs2" for rest
    using lh by (simp_all add: load_at_def)
  have len: "length bs1 + length bs2 = length (bs1 @ bs2)" by simp
  have reply: "blocking_reply P method ?a ?b (h @ bs1 @ bs2 @ drop (12 + length bs1 + length bs2) blk2) ctl response w4 =
      (let ctl1 = apply_status (Response_status rr) (rs_message rr) ctl in
       case ParseFromArray (md_response_api method) bs2 of
         None \<Rightarrow> Inr (give_up ''failed to read response parameter from server'' EC_SERIALIZATION_ERROR ctl1 response w4)
       | Some m \<Rightarrow> Inr (ctl1, m, w4))"
    unfolding blocking_reply_def un ld and_then_simps assms(7) by (simp add: Let_def)
  show ?thesis
  proof (rule that [OF _ 4(2)])
    show "advanced fd (frame ?a 0 ?b (bs1 @ bs2)) w w4"
      using advanced_trans [OF 1(3) advanced_trans [OF 2(3) advanced_trans [OF 3(3) 4(3)]]]
      by (simp add: frame_def wire_header_def)
    show "blocking_read_reply M P method fd n blk ctl response w =
      (let ctl1 = apply_status (Response_status rr) (rs_message rr) ctl in
       case ParseFromArray (md_response_api method) bs2 of
         None \<Rightarrow> Inr (give_up ''failed to read response parameter from server'' EC_SERIALIZATION_ERROR ctl1 response w4)
       | Some m \<Rightarrow> Inr (ctl1, m, w4))"
      unfolding blocking_read_reply_def 1(1) 2(1) 3(1) and_then_simps prod.case ntohl_host_word Let_def un(3) len
        blk2 [unfolded un(3) len] option.case sh 4(1) st reply [unfolded Let_def]
      by simp
  qed
qed

text \<open>
  A reply that does not reach the end of its header: a transport error, or, when \<open>errno\<close> is
  \<open>EINTR\<close> at the end of the input, the call never returns.
\<close>

lemma blocking_reply_short:
  assumes "length (to_read fd w) < 12" and "os_fds w fd \<noteq> None"
  shows "stops fd (\<lambda>w' m. \<exists>what. m = Inr (transport_error M what ctl response w')) w
    (blocking_read_reply M P method fd n blk ctl response w)"
proof -
  let ?ends = "\<lambda>w' m. \<exists>what. m = Inr (transport_error M what ctl response w')"
  have last_read: "stops fd ?ends w2 (and_then (fd_read_n fd 4 w2) (\<lambda>(r, bs, w).
      if r = -1 then Inr (transport_error M what ctl response w) else g bs w))"
    if "length (to_read fd w2) < 4" "os_fds w2 fd \<noteq> None" for w2 what g
    by (rule short_read_stops [OF that(2), where P = False]) (use that(1) in auto)
  have second_read: "stops fd ?ends w1 (and_then (fd_read_n fd 4 w1) (\<lambda>(r, bs, w).
      if r = -1 then Inr (transport_error M what ctl response w) else
      and_then (fd_read_n fd 4 w) (\<lambda>(r, bs', w).
        if r = -1 then Inr (transport_error M what' ctl response w) else g bs bs' w)))"
    if "length (to_read fd w1) < 8" "os_fds w1 fd \<noteq> None" for w1 what what' g
    by (rule short_read_stops [OF that(2) TrueI]) (use that(1) in \<open>auto intro!: last_read\<close>)
  show ?thesis
    unfolding blocking_read_reply_def
    by (rule short_read_stops [OF assms(2) TrueI]) (use assms(1) in \<open>auto intro!: second_read\<close>)
qed

subsection \<open>Properties\<close>

text \<open>
  C34. A blocking call to a peer that answers is complete: exactly the request's frame is
  written, exactly the reply's frame is read, the response message holds the result, and the
  controller reports what the status says (and, if the result does not parse, a
  serialisation error with the response message as it was).
\<close>

theorem blocking_call_completes:
  assumes "os_fds w fd \<noteq> None" and "will_accept fd w" and "\<And>n. can_alloc M n"
    and "rq = Request_set_method_identity (identity_of (md_service method) (md_name method)) (cp_fresh_request P)"
    and "ByteSize (cp_request P) rq = length q1" and "ByteSize (md_request_api method) request = length q2"
    and "SerializeToArray (cp_request P) rq (length q1 + length q2) = Some q1"
    and "SerializeToArray (md_request_api method) request (length q2) = Some q2"
    and "12 + length q1 + length q2 < 4294967296"
    and "to_read fd w = frame (of_nat (length bs1)) 0 (of_nat (length bs2)) (bs1 @ bs2) @ later"
    and "12 + length bs1 + length bs2 < 4294967296"
    and "ParseFromArray (cp_response P) bs1 = Some rr"
  shows "\<exists>w'. sent_to fd w' = sent_to fd w @ frame (of_nat (length q1)) (of_nat (length q2)) 0 (q1 @ q2) \<and>
    to_read fd w' = later \<and>
    blocking_CallMethod M P method ctl request response fd w =
      (let ctl1 = apply_status (Response_status rr) (rs_message rr) ctl in
       case ParseFromArray (md_response_api method) bs2 of
         None \<Rightarrow> Inr (SetFailed_ec ''failed to read response parameter from server'' EC_SERIALIZATION_ERROR ctl1,
                      response, w')
       | Some m \<Rightarrow> Inr (ctl1, m, w'))"
proof -
  let ?f = "frame (of_nat (length q1)) (of_nat (length q2)) 0 (q1 @ q2)"
  note built = blocking_request_built [OF assms(3-9)]
  have ld: "load_at 0 (12 + length q1 + length q2) ?f = Inr ?f" by (simp add: load_at_def)
  obtain w1 where w1: "fd_write_n fd ?f w = (0, w1)" "touches fd w w1" "sent_to fd w1 = sent_to fd w @ ?f"
    "to_read fd w1 = to_read fd w"
    by (rule fd_write_all [OF assms(2)])
  have open1: "os_fds w1 fd \<noteq> None" using w1(2) assms(1) by (simp add: touches_def)
  have tr1: "to_read fd w1 = frame (of_nat (length bs1)) 0 (of_nat (length bs2)) (bs1 @ bs2) @ later"
    using w1(4) assms(10) by simp
  have len: "length ?f = 12 + length q1 + length q2" "12 \<le> 12 + length q1 + length q2" by simp_all
  obtain w2 where "advanced fd (frame (of_nat (length bs1)) 0 (of_nat (length bs2)) (bs1 @ bs2)) w1 w2"
    "to_read fd w2 = later"
    and "blocking_read_reply M P method fd (12 + length q1 + length q2) ?f ctl response w1 =
      (let ctl1 = apply_status (Response_status rr) (rs_message rr) ctl in
       case ParseFromArray (md_response_api method) bs2 of
         None \<Rightarrow> Inr (give_up ''failed to read response parameter from server'' EC_SERIALIZATION_ERROR ctl1 response w2)
       | Some m \<Rightarrow> Inr (ctl1, m, w2))"
    by (rule blocking_reply_read [OF open1 assms(3) len tr1 assms(11,12)])
  with w1 show ?thesis
    by (intro exI [of _ w2]) (simp add: blocking_CallMethod_def built ld advanced_def give_up_def Let_def split: option.split)
qed

definition call_without_id :: "byte list Request" where
  "call_without_id = Request_set_method_identity ''Echo.echo'' (Request_New varint_lib)"

definition call_bytes :: "byte list" where
  "call_bytes = Request_SerializeWithCachedSizesToArray varint_lib call_without_id"

lemma call_without_id_facts:
  "call_without_id = Request_set_method_identity (identity_of (md_service echo_desc) (md_name echo_desc))
     (cp_fresh_request varint_client)"
  "length call_bytes = 11" "ByteSize (cp_request varint_client) call_without_id = length call_bytes"
  "SerializeToArray (cp_request varint_client) call_without_id (length call_bytes + length [4, 5 :: byte]) = Some call_bytes"
proof -
  show "call_without_id = Request_set_method_identity (identity_of (md_service echo_desc) (md_name echo_desc))
     (cp_fresh_request varint_client)"
    by (simp add: call_without_id_def echo_desc_def varint_client_def identity_of_def)
  show l: "length call_bytes = 11" by code_simp
  have s: "ByteSize (cp_request varint_client) call_without_id = 11" by code_simp
  then show "ByteSize (cp_request varint_client) call_without_id = length call_bytes" using l by simp
  show "SerializeToArray (cp_request varint_client) call_without_id (length call_bytes + length [4, 5 :: byte]) = Some call_bytes"
    using s l by (simp add: varint_client_def varint_request_api_def call_bytes_def)
qed

theorem blocking_call_completes_witness:
  "\<exists>w'. sent_to 5 w' = frame 11 2 0 (call_bytes @ [4, 5]) \<and>
    blocking_CallMethod little_host varint_client echo_desc (CarrotController_addr None ''h'' ''80'' 5) [4, 5] [] 5
      (quiet_os\<lparr>os_fds := [5 \<mapsto> sock_with (frame 4 0 2 (demo_meta @ [8, 9]))]\<rparr>) =
    Inr (SetFailed_ec (''Failed to call rpc: '' @ '''') EC_FAILED (CarrotController_addr None ''h'' ''80'' 5), [8, 9], w')"
proof -
  let ?w = "quiet_os\<lparr>os_fds := [5 \<mapsto> sock_with (frame 4 0 2 (demo_meta @ [8, 9]))]\<rparr>"
  have parse: "ParseFromArray (cp_response varint_client) demo_meta = Some demo_response"
  proof -
    have "Response_good varint_lib varint_str_ok demo_response"
      by (simp add: demo_response_def varint_str_ok_def)
    moreover have "SerializeToArray varint_response_api demo_response (Response_ByteSize varint_lib demo_response)
        = Some demo_meta"
      by (simp add: varint_response_api_def demo_meta_def)
    ultimately show ?thesis using varint_response.response.roundtrip by (simp add: varint_client_def)
  qed
  have lm: "length demo_meta = 4" by code_simp
  have st: "os_fds ?w 5 \<noteq> None" "will_accept 5 ?w" "sent_to 5 ?w = []"
    by (simp_all add: will_accept_def write_answers_def accepting_def sent_to_def)
  have tr: "to_read 5 ?w = frame (of_nat (length demo_meta)) 0 (of_nat (length [8, 9 :: byte])) (demo_meta @ [8, 9]) @ []"
    by (simp add: to_read_def lm)
  have api: "ByteSize (md_request_api echo_desc) [4, 5] = length [4, 5 :: byte]"
    "SerializeToArray (md_request_api echo_desc) [4, 5] (length [4, 5 :: byte]) = Some [4, 5]"
    "ParseFromArray (md_response_api echo_desc) [8, 9] = Some [8, 9]"
    by (simp_all add: echo_desc_def bytes_api_def)
  have small: "12 + length call_bytes + length [4, 5 :: byte] < 4294967296"
    "12 + length demo_meta + length [8, 9 :: byte] < 4294967296"
    by (simp_all add: lm call_without_id_facts(2))
  from blocking_call_completes [OF st(1,2) example_hosts(3) call_without_id_facts(1,3) api(1)
      call_without_id_facts(4) api(2) small(1) tr small(2) parse]
  show ?thesis
    by (auto simp: st(3) api(3) Let_def call_without_id_facts(2) demo_response_def apply_status_def)
qed

text \<open>
  C36. The blocking channel never sets the \<open>id\<close> of its \<open>Request\<close>, which rpc.proto makes
  required: a simple server of this repository that receives such a call, whatever method it
  names, closes the connection without a reply.
\<close>

theorem blocking_call_refused:
  assumes "request_wire L open_stream rest consumed str_ok enc_u64 enc_enum enc_str (proto_request P2)"
    and "cp_fresh_request P1 = Request_New L"
    and "rq = Request_set_method_identity (identity_of (md_service method) (md_name method)) (cp_fresh_request P1)"
    and "str_ok (rq_method_identity rq)"
    and "SerializeToArray (proto_request P2) rq n = Some q1"
    and "simple_reachable M P2 w0 S" and "c \<in> set (ss_events S)" and "ss_objs S c = Some k"
    and "to_read (client_fd k) (ss_os S) = frame (of_nat (length q1)) (of_nat (length q2)) 0 (q1 @ q2) @ later"
    and "12 + length q1 + length q2 < 4294967296" and "\<And>n. can_alloc M n"
  shows "\<exists>S'. client_callback M P2 True c S = Inr (S', None) \<and> served S' = served S - {client_fd k} \<and>
    os_fds (ss_os S') (client_fd k) = None"
proof -
  have can: "Request_canonical L rq" by (simp add: assms(2,3) Request_canonical_def)
  have none: "ParseFromArray (proto_request P2) q1 = None"
    using request_wire.request_parse [OF assms(1) can assms(4,5)]
    by (simp add: assms(2,3) built_without_id)
  note inv = simple_reachable_inv [OF assms(6)]
  obtain b w tail where b: "exact_pbuf b" and adv: "advanced (client_fd k) (frame (of_nat (length q1)) (of_nat (length q2)) 0 (q1 @ q2)) (ss_os S) w"
    and run: "simple_handle_client M P2 c S =
      and_then (case ParseFromArray (proto_request P2) q1 of
          None \<Rightarrow> Inr Drop
        | Some rq \<Rightarrow> serve_request M P2 (ss_services S) (of_nat (length q1)) (of_nat (length q2))
            (host_header M (of_nat (length q1)) (of_nat (length q2)) 0 @ q1 @ q2 @ tail) rq)
       (simple_continue M P2 c (with_buffer c k b w S))"
    by (rule simple_packet_arrives [OF inv assms(7-11), where P = P2])
  have k: "ss_in_use S c = Some c" "alive k"
    using event_object [OF inv assms(7)] assms(8) by (metis option.inject)+
  let ?T = "with_buffer c k b w S"
  have T: "ss_in_use ?T c = Some c" "ss_objs ?T c = Some (k\<lparr>c_buf := b\<rparr>)" "alive (k\<lparr>c_buf := b\<rparr>)"
    using k by (simp_all add: with_buffer_def)
  have inv': "simple_inv ?T"
    by (rule simple_inv_with_buffer [OF inv assms(8) b]) (use adv in \<open>simp add: advanced_def\<close>)
  obtain S' where d: "destroy_rpc_connection c ?T = Inr S'" using destroy_result [OF T(2,3)] by blast
  have "client_callback M P2 True c S = Inr (S', None)"
    using run none d by (simp add: client_callback_def simple_continue_def)
  moreover have "served S' = served S - {client_fd k}"
    using served_destroy(1) [OF inv' T d] served_with_buffer [OF inv assms(8)] by simp
  moreover have "os_fds (ss_os S') (client_fd k) = None"
    using served_destroy(3) [OF inv' T d] by simp
  ultimately show ?thesis by blast
qed

theorem blocking_call_refused_witness:
  "\<exists>S'. client_callback little_host varint_protocol True 0 (simple_serving (frame 11 2 0 (call_bytes @ [4, 5])))
      = Inr (S', None) \<and> os_fds (ss_os S') 5 = None"
proof -
  let ?S = "simple_serving (frame 11 2 0 (call_bytes @ [4, 5]))"
  have wire: "request_wire varint_lib varint_open fst snd varint_str_ok enc_u64_value enc_enum_value
      enc_string (proto_request varint_protocol)"
    using varint_request.request_wire_axioms by (simp add: varint_protocol_def)
  have fresh: "cp_fresh_request varint_client = Request_New varint_lib" by (simp add: varint_client_def)
  have ok: "varint_str_ok (rq_method_identity call_without_id)"
    by (simp add: call_without_id_def varint_str_ok_def)
  have ser: "SerializeToArray (proto_request varint_protocol) call_without_id
      (length call_bytes + length [4, 5 :: byte]) = Some call_bytes"
    using call_without_id_facts(4) by (simp add: varint_protocol_def varint_client_def)
  have st: "0 \<in> set (ss_events ?S)" "ss_objs ?S 0 = Some simple_conn" by (simp_all add: simple_serving_def)
  have tr: "to_read (client_fd simple_conn) (ss_os ?S) =
      frame (of_nat (length call_bytes)) (of_nat (length [4, 5 :: byte])) 0 (call_bytes @ [4, 5]) @ []"
    by (simp add: simple_serving_def simple_conn_def to_read_def call_without_id_facts(2))
  have small: "12 + length call_bytes + length [4, 5 :: byte] < 4294967296"
    by (simp add: call_without_id_facts(2))
  from blocking_call_refused [OF wire fresh call_without_id_facts(1) ok ser simple_serving_reachable(2) st tr
      small example_hosts(3)]
  show ?thesis by (auto simp: simple_conn_def)
qed

text \<open>
  C35. A server that goes away before the header of its reply is complete is reported as a
  transport error with the response message as it was, after the whole request was written.
  Unless \<open>errno\<close> is \<open>EINTR\<close> at the end of the input, as after an interrupted write: then the
  call never returns.
\<close>

theorem blocking_server_leaves:
  assumes "os_fds w fd \<noteq> None" and "\<And>n. can_alloc M n"
    and "rq = Request_set_method_identity (identity_of (md_service method) (md_name method)) (cp_fresh_request P)"
    and "ByteSize (cp_request P) rq = length q1" and "ByteSize (md_request_api method) request = length q2"
    and "SerializeToArray (cp_request P) rq (length q1 + length q2) = Some q1"
    and "SerializeToArray (md_request_api method) request (length q2) = Some q2"
    and "12 + length q1 + length q2 < 4294967296"
    and "fd_write_n fd (frame (of_nat (length q1)) (of_nat (length q2)) 0 (q1 @ q2)) w = (0, w1)"
    and "length (to_read fd w) < 12"
  shows "if end_errno fd w1 = EINTR then blocking_CallMethod M P method ctl request response fd w = Inl Hang
    else \<exists>what w'. blocking_CallMethod M P method ctl request response fd w =
        Inr (SetFailed_ec (what @ strerror M (os_errno w')) EC_TRANSPORT_ERROR ctl, response, w') \<and>
      sent_to fd w' = sent_to fd w @ frame (of_nat (length q1)) (of_nat (length q2)) 0 (q1 @ q2)"
proof -
  let ?f = "frame (of_nat (length q1)) (of_nat (length q2)) 0 (q1 @ q2)"
  note built = blocking_request_built [OF assms(2-8)]
  have ld: "load_at 0 (12 + length q1 + length q2) ?f = Inr ?f" by (simp add: load_at_def)
  have run: "blocking_CallMethod M P method ctl request response fd w =
      blocking_read_reply M P method fd (12 + length q1 + length q2) ?f ctl response w1"
    by (simp add: blocking_CallMethod_def built ld assms(9))
  have "length (to_read fd w1) < 12" using fd_write_keeps_input [OF assms(9)] assms(10) by simp
  moreover have "os_fds w1 fd \<noteq> None"
    using fd_write_touches [OF assms(9)] assms(1) by (simp add: touches_def)
  moreover have "sent_to fd w1 = sent_to fd w @ ?f" by (rule fd_write_sends [OF assms(9)])
  ultimately show ?thesis
    unfolding run using blocking_reply_short [of fd w1 M ctl response P _ "12 + length q1 + length q2" ?f]
    by (fastforce simp: stops_def transport_error_def give_up_def)
qed

theorem blocking_server_leaves_witness:
  "\<exists>what w'. blocking_CallMethod little_host varint_client echo_desc (CarrotController_addr None ''h'' ''80'' 5) [4, 5] [] 5
      (quiet_os\<lparr>os_fds := [5 \<mapsto> sock_with []]\<rparr>) =
    Inr (SetFailed_ec (what @ strerror little_host (os_errno w')) EC_TRANSPORT_ERROR
      (CarrotController_addr None ''h'' ''80'' 5), [], w')"
proof -
  let ?w = "quiet_os\<lparr>os_fds := [5 \<mapsto> sock_with []]\<rparr>"
  let ?f = "frame (of_nat (length call_bytes)) (of_nat (length [4, 5 :: byte])) 0 (call_bytes @ [4, 5])"
  have "write_answers 5 ?w = Some []" by (simp add: write_answers_def)
  then obtain w1 where w1: "fd_write_n 5 ?f ?w = (0, w1)" "end_errno 5 w1 = end_errno 5 ?w"
    by (rule fd_write_at_once)
  have e: "end_errno 5 w1 \<noteq> EINTR" unfolding w1(2) by (simp add: end_errno_def quiet_os_def EINTR_def)
  have api: "ByteSize (md_request_api echo_desc) [4, 5] = length [4, 5 :: byte]"
    "SerializeToArray (md_request_api echo_desc) [4, 5] (length [4, 5 :: byte]) = Some [4, 5]"
    by (simp_all add: echo_desc_def bytes_api_def)
  have st: "os_fds ?w 5 \<noteq> None" "length (to_read 5 ?w) < 12" by (simp_all add: to_read_def)
  have small: "12 + length call_bytes + length [4, 5 :: byte] < 4294967296"
    by (simp add: call_without_id_facts(2))
  from blocking_server_leaves [OF st(1) example_hosts(3) call_without_id_facts(1,3) api(1)
      call_without_id_facts(4) api(2) small w1(1) st(2)] e
  show ?thesis by fastforce
qed

end
