(* ===== verification/Async_Server_Accepting.thy ===== *)
theory Async_Server_Accepting
  imports Async_Server_Replies
begin

section \<open>How long the asynchronous server accepts clients\<close>

text \<open>
  \<open>handle_accept\<close> of src/src/server/carrot_async_server.cpp serves the client it has accepted before
  it waits for the next one, and \<open>serve\<close> may throw.
\<close>

lemma put_conn_accepting [simp]: "as_accepting (put_conn c k S) = as_accepting S"
  by (simp add: put_conn_def)

lemma conn_destroy_accepting [simp]: "as_accepting (conn_destroy c k S) = as_accepting S"
  by (simp add: conn_destroy_def Let_def)

lemma serve_accepting:
  "serve M c k S = Inr (S', thrown) \<Longrightarrow> as_accepting S' = as_accepting S \<and> thrown \<in> {None, Some BadAlloc}"
  by (auto simp: serve_def res_simps Let_def split: if_splits)

lemma read_header_accepting:
  "handle_read_header M error c k S = Inr (S', thrown) \<Longrightarrow> as_accepting S' = as_accepting S"
  by (auto simp: handle_read_header_def res_simps Let_def split: if_splits option.splits)

lemma respond_accepting:
  "respond_to_client M P resp rpc_resp c k S = Inr (S', thrown) \<Longrightarrow> as_accepting S' = as_accepting S"
  by (auto simp: respond_to_client_def res_simps Let_def split: if_splits option.splits)

lemma answer_accepting:
  "answer_request M P blk rpc_len rq c k S = Inr (S', thrown) \<Longrightarrow> as_accepting S' = as_accepting S"
  by (auto simp: answer_request_def res_simps case_prod_beta split: if_splits option.splits dispatch.splits
      dest!: respond_accepting)

lemma read_payload_accepting:
  "handle_read_payload M P error c k S = Inr (S', thrown) \<Longrightarrow> as_accepting S' = as_accepting S"
  by (auto simp: handle_read_payload_def res_simps split: option.splits dest!: answer_accepting)

lemma write_response_accepting:
  "handle_write_response M error c k S = Inr (S', thrown) \<Longrightarrow> as_accepting S' = as_accepting S"
  by (auto simp: handle_write_response_def split: option.splits dest!: serve_accepting)

lemma start_accept_accepting: "as_accepting (start_accept M S) \<noteq> None"
  by (simp add: start_accept_def Let_def)

lemma accept_accepting:
  assumes "handle_accept M error c k S = Inr (S', thrown)" and "as_accepting S = None"
  shows "as_accepting S' = None \<longleftrightarrow> error = None \<and> thrown = Some BadAlloc"
proof (cases error)
  case (Some e)
  with assms start_accept_accepting show ?thesis by (auto simp: handle_accept_def)
next
  case None
  obtain S1 t where s: "serve M c k S = Inr (S1, t)"
    and S': "if t = None then S' = start_accept M S1 \<and> thrown = None else S' = S1 \<and> thrown = t"
    using assms(1) None by (auto simp: handle_accept_def and_then_eq_Inr_iff split: if_splits)
  from serve_accepting [OF s] S' None assms(2) start_accept_accepting show ?thesis
    by (auto split: if_splits)
qed

subsection \<open>Properties\<close>

text \<open>
  C18. The server goes on accepting clients, whatever happens to the clients it has, and whether an
  accept succeeds or fails; with one exception: when there is no memory for the header buffer of a
  client that has just been accepted, \<open>handle_accept\<close> is left by the exception before it calls
  \<open>start_accept\<close>, and although \<open>ios.run()\<close> is called again, no client is ever accepted any more.
\<close>

theorem accepting_lost_iff:
  assumes "run_event M P ev S = Inr (S', thrown)"
  shows "as_accepting S' = None \<longleftrightarrow> as_accepting S = None \<or> ev = Accepted \<and> thrown = Some BadAlloc"
proof (cases ev)
  case Accepted
  with assms show ?thesis
    by (auto simp: res_simps Let_def dest!: accept_accepting)
next
  case (AcceptFailed e)
  with assms show ?thesis by (auto simp: res_simps dest!: accept_accepting)
next
  case (ReadFailed c bs e)
  with assms show ?thesis
    by (auto simp: res_simps split: if_splits dest!: read_header_accepting read_payload_accepting)
qed (use assms in \<open>auto simp: res_simps dest!: read_header_accepting read_payload_accepting write_response_accepting\<close>)

definition full_host :: machine where
  "full_host = little_host\<lparr>can_alloc := (\<lambda>_. False)\<rparr>"

theorem accepting_lost_iff_witness:
  "\<exists>S'. run_event full_host varint_protocol Accepted (CarrotAsyncServer_new full_host :: byte list aserver)
      = Inr (S', Some BadAlloc) \<and> as_accepting S' = None"
proof -
  obtain S' where "run_event full_host varint_protocol Accepted (CarrotAsyncServer_new full_host :: byte list aserver)
      = Inr (S', Some BadAlloc)"
    by (simp add: CarrotAsyncServer_new_def start_accept_def put_conn_def RpcServerConnection_new_def handle_accept_def
        serve_def Let_def expand_packet_def null_buf_def realloc_def full_host_def)
  with accepting_lost_iff [OF this] show ?thesis by blast
qed

end
