(* ===== verification/Async_Server_Deleted.thy ===== *)
theory Async_Server_Deleted
  imports Async_Server_Replies
begin

section \<open>The connections of an asynchronous server that has been deleted\<close>

text \<open>
  A connection lives as long as an operation of it is pending, which can be longer than its server.
  So the destructor of \<open>CarrotAsyncServer\<close> sets the pointers back to it to null. Here the
  connections run on after that. The members of the deleted server are still fields of the state;
  that nothing reads or writes them any more is shown by putting others in their place (\<open>reuse\<close>).
  The pending accept is not among these events: its handler is a member function of the deleted
  server itself.
\<close>

subsection \<open>After the destructor\<close>

definition reuse :: "'m services \<Rightarrow> (nat \<Rightarrow> nat option) \<Rightarrow> 'm aserver \<Rightarrow> 'm aserver" where
  "reuse tab m S = S\<lparr>as_services := tab, as_conns := m\<rparr>"

definition orphaned :: "'m aserver \<Rightarrow> bool" where
  "orphaned S \<longleftrightarrow> (\<forall>c k. as_objs S c = Some k \<longrightarrow> rc_pending k \<noteq> NoOp \<longrightarrow> \<not> rc_server k)"

fun of_connection :: "event \<Rightarrow> bool" where
  "of_connection Accepted = False"
| "of_connection (AcceptFailed e) = False"
| "of_connection _ = True"

lemma delete_orphans:
  assumes "server_inv M S" shows "orphaned (CarrotAsyncServer_delete S)"
  using server_invD(3) [OF assms] by (auto simp: orphaned_def CarrotAsyncServer_delete_def split: option.splits if_splits)

abbreviation reuse_res :: "'m services \<Rightarrow> (nat \<Rightarrow> nat option) \<Rightarrow>
  ('m aserver \<times> 'r) res \<Rightarrow> ('m aserver \<times> 'r) res" where
  "reuse_res tab m \<equiv> map_sum id (map_prod (reuse tab m) id)"

lemma reuse_sels [simp]: "as_objs (reuse tab m S) = as_objs S" "as_services (reuse tab m S) = tab"
  by (simp_all add: reuse_def)

named_theorems reused \<open>operations of orphans commute with reuse\<close>

lemma reuse_put [reused]: "put_conn c k (reuse tab m S) = reuse tab m (put_conn c k S)"
  by (simp add: put_conn_def reuse_def)

lemma reuse_destroy [reused]:
  "\<not> rc_server k \<Longrightarrow> conn_destroy c k (reuse tab m S) = reuse tab m (conn_destroy c k S)"
  by (simp add: conn_destroy_def Let_def reused)

lemma reuse_serve [reused]: "serve M c k (reuse tab m S) = reuse_res tab m (serve M c k S)"
  by (auto simp: serve_def map_sum_and_then Let_def reused intro!: and_then_cong split: prod.split)

lemma reuse_read_header [reused]:
  "\<not> rc_server k \<Longrightarrow> handle_read_header M error c k (reuse tab m S) = reuse_res tab m (handle_read_header M error c k S)"
  by (auto simp: handle_read_header_def map_sum_and_then Let_def reused simp del: packet_layout
      intro!: and_then_cong split: prod.split option.split)

text \<open>
  An orphan faults on every request it can parse: the ones with a dot in the identity where the
  service is looked up, the others where the reply is logged.
\<close>

lemma orphan_answer:
  "\<not> rc_server k \<Longrightarrow> answer_request M P blk rpc_len rq c k S = Inl NullDeref"
  by (simp add: answer_request_def dispatch_to_def respond_to_client_def)

lemma reuse_read_payload [reused]:
  "\<not> rc_server k \<Longrightarrow> handle_read_payload M P error c k (reuse tab m S) =
   reuse_res tab m (handle_read_payload M P error c k S)"
  by (auto simp: handle_read_payload_def map_sum_and_then orphan_answer reused simp del: packet_layout
      intro!: and_then_cong split: option.split)


text \<open>Every handler puts its connection back, with the same pointer to the server.\<close>

definition puts_back :: "nat \<Rightarrow> bool \<Rightarrow> 'm aserver \<Rightarrow> 'm aserver \<Rightarrow> bool" where
  "puts_back c b S S' \<longleftrightarrow> (\<exists>k'. as_objs S' = (as_objs S)(c \<mapsto> k') \<and> rc_server k' = b)"

lemma puts_back_put [simp]: "puts_back c (rc_server k') S (put_conn c k' S)"
  by (auto simp: puts_back_def put_conn_def)

lemma puts_back_destroy [simp]: "puts_back c (rc_server k') S (conn_destroy c k' S)"
  by (auto simp: puts_back_def conn_destroy_def put_conn_def Let_def)

lemma puts_back_same [simp]:
  "rc_server k' = b \<Longrightarrow> puts_back c b S (put_conn c k' S)" "rc_server k' = b \<Longrightarrow> puts_back c b S (conn_destroy c k' S)"
  using puts_back_put [of c k' S] puts_back_destroy [of c k' S] by simp_all

lemma serve_puts_back: "serve M c k S = Inr (S', thrown) \<Longrightarrow> puts_back c (rc_server k) S S'"
  by (auto simp: serve_def res_simps Let_def split: if_splits)

lemma read_header_puts_back:
  "handle_read_header M error c k S = Inr (S', thrown) \<Longrightarrow> puts_back c (rc_server k) S S'"
  by (auto simp: handle_read_header_def res_simps Let_def simp del: packet_layout split: if_splits option.splits)

lemma read_payload_puts_back:
  "\<not> rc_server k \<Longrightarrow> handle_read_payload M P error c k S = Inr (S', thrown) \<Longrightarrow> puts_back c (rc_server k) S S'"
  by (auto simp: handle_read_payload_def orphan_answer res_simps simp del: packet_layout
      split: option.splits)

text \<open>One event: it does the same whatever has become of the server's members.\<close>

lemma asio_store_server: "asio_store off bs k = Inr k' \<Longrightarrow> rc_server k' = rc_server k"
  by (auto simp: asio_store_def res_simps)

lemma orphan_back:
  assumes "orphaned S" and "puts_back c b S S'" and "\<not> b"
  shows "orphaned S'"
  using assms by (auto simp: orphaned_def puts_back_def split: if_split_asm)

lemma orphan_connection:
  assumes "orphaned S" and "as_objs S c = Some k" and "rc_pending k \<noteq> NoOp"
  shows "\<not> rc_server k" "asio_store off bs k = Inr k' \<Longrightarrow> \<not> rc_server k'"
  using assms by (auto simp: orphaned_def dest: asio_store_server)

lemma orphan_event:
  assumes "orphaned S" and "enabled ev S" and "of_connection ev"
  shows "run_event M P ev (reuse tab m S) = reuse_res tab m (run_event M P ev S)"
    and "run_event M P ev S = Inr (S', thrown) \<Longrightarrow> orphaned S'"
proof -
  have "run_event M P ev (reuse tab m S) = reuse_res tab m (run_event M P ev S) \<and>
      (run_event M P ev S = Inr (S', thrown) \<longrightarrow> orphaned S')"
  proof (cases ev)
    case (HeaderRead c bs)
    then obtain k where k: "as_objs S c = Some k" "rc_pending k \<noteq> NoOp" using assms(2) by (auto split: option.splits)
    note o = orphan_connection [OF assms(1) k]
    show ?thesis
      using HeaderRead k(1) o
      by (cases "asio_store 0 bs k") (auto simp: reused intro: orphan_back [OF assms(1) read_header_puts_back])
  next
    case (PayloadRead c bs)
    then obtain k where k: "as_objs S c = Some k" "rc_pending k \<noteq> NoOp" using assms(2) by (auto split: option.splits)
    note o = orphan_connection [OF assms(1) k]
    show ?thesis
      using PayloadRead k(1) o
      by (cases "asio_store off_data bs k")
        (auto simp: reused simp del: packet_layout intro: orphan_back [OF assms(1) read_payload_puts_back])
  next
    case (ReadFailed c bs e)
    then obtain k where k: "as_objs S c = Some k" "rc_pending k \<noteq> NoOp"
      using assms(2) by (auto split: option.splits pending.splits)
    note o = orphan_connection [OF assms(1) k]
    show ?thesis
      using ReadFailed k(1) o
      by (cases "asio_store (read_offset (rc_pending k)) bs k")
        (auto simp: reused handle_read_header_def handle_read_payload_def intro: orphan_back [OF assms(1) puts_back_destroy])
  next
    case (Written c)
    then obtain k where k: "as_objs S c = Some k" "rc_pending k \<noteq> NoOp"
      using assms(2) by (auto split: option.splits pending.splits)
    note o = orphan_connection [OF assms(1) k]
    show ?thesis
      using Written k(1) o(1)
      by (auto simp: reused handle_write_response_def intro: orphan_back [OF assms(1) serve_puts_back])
  next
    case (WriteFailed c e)
    then obtain k where k: "as_objs S c = Some k" "rc_pending k \<noteq> NoOp"
      using assms(2) by (auto split: option.splits pending.splits)
    note o = orphan_connection [OF assms(1) k]
    show ?thesis
      using WriteFailed k(1) o(1)
      by (auto simp: reused handle_write_response_def intro: orphan_back [OF assms(1) puts_back_destroy])
  qed (use assms(3) in simp_all)
  then show "run_event M P ev (reuse tab m S) = reuse_res tab m (run_event M P ev S)"
    and "run_event M P ev S = Inr (S', thrown) \<Longrightarrow> orphaned S'" by blast+
qed

subsection \<open>The run after the deletion\<close>

fun run_connections ::
  "machine \<Rightarrow> 'u protocol \<Rightarrow> event list \<Rightarrow> 'm aserver \<Rightarrow> ('m aserver \<times> exn option list) res" where
  "run_connections M P [] S = Inr (S, [])"
| "run_connections M P (ev # evs) S =
     and_then (run_event M P ev S) (\<lambda>(S1, thrown).
     and_then (run_connections M P evs S1) (\<lambda>(S2, more). Inr (S2, thrown # more)))"

fun can_happen :: "machine \<Rightarrow> 'u protocol \<Rightarrow> event list \<Rightarrow> 'm aserver \<Rightarrow> bool" where
  "can_happen M P [] S = True"
| "can_happen M P (ev # evs) S =
     (of_connection ev \<and> enabled ev S \<and>
      (case run_event M P ev S of Inl f \<Rightarrow> True | Inr (S1, thrown) \<Rightarrow> can_happen M P evs S1))"

lemma reuse_enabled [simp]: "of_connection ev \<Longrightarrow> enabled ev (reuse tab m S) = enabled ev S"
  by (cases ev) (auto split: option.splits pending.splits)

lemma orphans_run:
  "orphaned S \<Longrightarrow> can_happen M P evs S \<Longrightarrow>
   can_happen M P evs (reuse tab m S) \<and>
   run_connections M P evs (reuse tab m S) = reuse_res tab m (run_connections M P evs S)"
proof (induction evs arbitrary: S)
  case (Cons ev evs)
  then have e: "of_connection ev" "enabled ev S" by simp_all
  note step = orphan_event [OF Cons.prems(1) e(2,1), of M P]
  show ?case
  proof (cases "run_event M P ev S")
    case (Inr r)
    obtain S1 thrown where r: "r = (S1, thrown)" by (cases r)
    have "orphaned S1" using step(2) Inr r by simp
    from Cons.IH [OF this] Cons.prems(2) Inr r e step(1) show ?thesis
      by (cases "run_connections M P evs S1") auto
  qed (use e step(1) in simp)
qed simp

text \<open>The same request as in \<open>request_gets_reply\<close>, at a connection that has lost its server.\<close>

lemma deleted_conn:
  assumes "server_reachable M P S" and "as_objs S c = Some k" and "rc_pending k \<noteq> NoOp"
  shows "as_objs (CarrotAsyncServer_delete S) c = Some (k\<lparr>rc_server := False\<rparr>)"
  using server_invD(3) [OF reachable_inv [OF assms(1)] assms(2,3)] assms(2)
  by (simp add: CarrotAsyncServer_delete_def)

lemma orphan_payload:
  assumes "as_objs S c = Some k" and "\<not> rc_server k" and "wf_pbuf (rc_buf k)" and "arrived M k meta param []"
    and "ParseFromArray (proto_request P) meta = Some rq"
  shows "run_event M P (PayloadRead c (meta @ param)) S = Inl NullDeref"
proof -
  obtain k1 blk rpc_len where "run_event M P (PayloadRead c (meta @ param @ [])) S =
      answer_request M P blk rpc_len rq c k1 S" "rc_server k1 = rc_server k"
    by (rule handle_read_payload_dispatched [OF assms(4,5,1,3)])
  then show ?thesis using assms(2) orphan_answer by fastforce
qed

subsection \<open>Properties\<close>

text \<open>
  C21. After the destructor of the server its connections run on without it: whatever has become
  of the service table and the connection table it held, the same completions can happen, and
  they have the same outcomes, exceptions and faults; neither table is changed. So no handler of
  a connection uses the deleted server, in any reachable state and after any completions.
\<close>

theorem deleted_server_unused:
  assumes "server_reachable M P S" and "can_happen M P evs (CarrotAsyncServer_delete S)"
  shows "can_happen M P evs (reuse tab m (CarrotAsyncServer_delete S)) \<and>
    run_connections M P evs (reuse tab m (CarrotAsyncServer_delete S)) =
      map_sum id (map_prod (reuse tab m) id) (run_connections M P evs (CarrotAsyncServer_delete S))"
  by (rule orphans_run [OF delete_orphans [OF reachable_inv [OF assms(1)]] assms(2)])

text \<open>
  C22. The price is the null pointer the destructor leaves behind: the next request that a client
  of the deleted server sends is read, and if its metadata parses the handler dereferences null,
  whichever service and method it names, and also when it names none.
\<close>

theorem request_after_deletion_faults:
  assumes "server_reachable M P S" and "as_objs S c = Some k" and "rc_pending k = ReadHeader"
    and "\<And>n. can_alloc M n" and "12 + length meta + length param \<le> 2147483648"
    and "ParseFromArray (proto_request P) meta = Some rq"
  shows "run_connections M P
     [HeaderRead c (wire_header (of_nat (length meta)) (of_nat (length param)) 0), PayloadRead c (meta @ param)]
     (CarrotAsyncServer_delete S) = Inl NullDeref"
proof -
  let ?D = "CarrotAsyncServer_delete S" and ?k = "k\<lparr>rc_server := False\<rparr>"
  have ci: "conn_inv M k" by (rule server_invD(1) [OF reachable_inv [OF assms(1)] assms(2)])
  then obtain blk where blk: "buf_p (rc_buf ?k) = Some blk" "12 \<le> length blk"
    using assms(3) by (auto simp: conn_inv_def)
  have k: "as_objs ?D c = Some ?k" using deleted_conn [OF assms(1,2)] assms(3) by simp
  have wf: "wf_pbuf (rc_buf ?k)" using conn_inv_basic(1) [OF ci] by simp
  obtain k2 rest where h: "run_event M P (HeaderRead c
      (wire_header (of_nat (length meta)) (of_nat (length param)) 0)) ?D = Inr (put_conn c k2 ?D, None)"
    and k2: "rc_server k2 = rc_server ?k" "wf_pbuf (rc_buf k2)"
    and b: "buf_p (rc_buf k2) = Some (host_header M (of_nat (length meta)) (of_nat (length param)) 0 @ rest)"
      "length meta + length param \<le> length rest"
    by (rule header_read_stored [OF k wf blk assms(4,5), where P = P])
  have "arrived M k2 meta param []"
    by (rule arrivedI [OF b(1)]) (use assms(5) b(2) in simp_all)
  from orphan_payload [OF _ _ _ this assms(6), of "put_conn c k2 ?D" c] h k2
  show ?thesis by (simp add: put_conn_def del: run_event.simps)
qed

text \<open>The echo server is deleted while its client is connected.\<close>

definition demo_requests :: "event list" where
  "demo_requests = [HeaderRead 0 (wire_header 13 3 0), PayloadRead 0 (echo_meta @ [1, 2, 3])]"

theorem request_after_deletion_faults_witness:
  "run_connections little_host varint_protocol demo_requests (CarrotAsyncServer_delete echo_server) = Inl NullDeref"
  using request_after_deletion_faults [OF echo_reachable echo_accept(2), of echo_meta "[1, 2, 3]" echo_request]
    echo_meta_parses by (simp add: demo_requests_def echo_conn_def echo_meta_length)

definition demo_hangup :: "event list" where
  "demo_hangup = [ReadFailed 0 [] 104]"

lemma demo_deleted: "as_objs (CarrotAsyncServer_delete echo_server) 0 = Some (echo_conn\<lparr>rc_server := False\<rparr>)"
  by (rule deleted_conn [OF echo_reachable echo_accept(2)]) (simp add: echo_conn_def)

theorem deleted_server_unused_witness:
  "run_connections little_host varint_protocol demo_hangup
     (reuse (\<lambda>_. None) (\<lambda>_. None) (CarrotAsyncServer_delete echo_server)) =
   map_sum id (map_prod (reuse (\<lambda>_. None) (\<lambda>_. None)) id)
     (run_connections little_host varint_protocol demo_hangup (CarrotAsyncServer_delete echo_server)) \<and>
   (\<exists>S1. run_connections little_host varint_protocol demo_hangup (CarrotAsyncServer_delete echo_server) =
     Inr (S1, [Some (SystemError 104)]))"
proof -
  let ?D = "CarrotAsyncServer_delete echo_server"
  have run: "run_event little_host varint_protocol (ReadFailed 0 [] 104) ?D =
      Inr (conn_destroy 0 (echo_conn\<lparr>rc_server := False, rc_pending := NoOp\<rparr>) ?D, Some (SystemError 104))"
    using demo_deleted by (simp add: asio_store_def store_at_def echo_conn_def handle_read_header_def read_offset_def)
  have "can_happen little_host varint_protocol demo_hangup ?D"
    using demo_deleted run by (simp add: demo_hangup_def echo_conn_def)
  from deleted_server_unused [OF echo_reachable this, of "\<lambda>_. None" "\<lambda>_. None"] run show ?thesis
    by (simp add: demo_hangup_def)
qed

end
