(* ===== verification/Async_Channel_Connect.thy ===== *)
theory Async_Channel_Connect
  imports End_To_End
begin

section \<open>How the asynchronous channel connects\<close>

text \<open>
  The events between the first call to a server and the first write. \<open>issue\<close> asks whether the
  socket is open, which it is not until a resolution has succeeded, so each call that comes
  before starts a resolution and a connection of its own on the one socket.
\<close>

subsection \<open>The steps\<close>

definition timer_ops :: "'m channel \<Rightarrow> 'm call_task \<Rightarrow> nat \<Rightarrow> client_op list" where
  "timer_ops S T t = (if ctl_timeout (ch_ctls S (t_controller T)) \<noteq> TIMEOUT_NEVER then [TimerOp t] else [])"

lemma setup_task_timer_as:
  "ch_tasks S t = Some T \<Longrightarrow> ch_objs S c = Some k \<Longrightarrow>
   setup_task_timer c t S = put_cconn c (k\<lparr>cc_ops := timer_ops S T t @ cc_ops k\<rparr>) S"
  by (auto simp: setup_task_timer_def timer_ops_def add_op_def put_cconn_def fun_upd_idem)

text \<open>A call that finds no connection, or one that is not open.\<close>

definition new_task :: "'m method_desc \<Rightarrow> nat \<Rightarrow> 'm \<Rightarrow> nat \<Rightarrow> nat \<Rightarrow> u64 \<Rightarrow> 'm call_task" where
  "new_task desc ctl request resp done_cb i = \<lparr>t_method = desc, t_controller = ctl, t_request = request,
     t_response = resp, t_done = done_cb, t_buf = null_buf, t_id = i, t_called = False,
     t_state = STATE_CONNECT_TO_SERVER, t_runs = 0\<rparr>"

lemma new_task_sels [simp]:
  "t_method (new_task desc ctl request resp done_cb i) = desc"
  "t_controller (new_task desc ctl request resp done_cb i) = ctl"
  "t_request (new_task desc ctl request resp done_cb i) = request"
  "t_response (new_task desc ctl request resp done_cb i) = resp"
  "t_done (new_task desc ctl request resp done_cb i) = done_cb"
  "t_buf (new_task desc ctl request resp done_cb i) = null_buf"
  "t_id (new_task desc ctl request resp done_cb i) = i"
  "\<not> t_called (new_task desc ctl request resp done_cb i)"
  "t_runs (new_task desc ctl request resp done_cb i) = 0"
  by (simp_all add: new_task_def)

abbreviation server_key :: "'m channel \<Rightarrow> nat \<Rightarrow> string" where
  "server_key S ctl \<equiv> ctl_host (ch_ctls S ctl) @ '':'' @ ctl_service (ch_ctls S ctl)"

text \<open>What such a call does: \<open>k\<close> is the connection before, a new one or the one in the table.\<close>

definition starts_resolving :: "nat \<Rightarrow> cconn \<Rightarrow> 'm call_task \<Rightarrow> 'm channel \<Rightarrow> 'm channel \<Rightarrow> bool" where
  "starts_resolving c k T S S' \<longleftrightarrow>
     (let t = ch_next_task S in
      ch_objs S' = (ch_objs S)(c \<mapsto> k\<lparr>cc_id := cc_id k + 1, cc_connecting := True,
        cc_ops := timer_ops S T t @ ResolveOp t # cc_ops k\<rparr>) \<and>
      ch_tasks S' = (ch_tasks S)(t \<mapsto> T) \<and> ch_next_task S' = Suc t \<and>
      ch_ctls S' = ch_ctls S \<and> ch_resps S' = ch_resps S)"

lemma issue_unconnected:
  assumes "ch_objs S c = Some k" and "\<not> cc_open k" and "T = new_task desc ctl request resp done_cb (cc_id k + 1)"
  shows "\<exists>S'. issue M P D c desc ctl request resp done_cb S = Inr S' \<and> starts_resolving c k T S S' \<and>
    ch_conns S' = ch_conns S \<and> ch_next_conn S' = ch_next_conn S"
  using assms
  by (auto simp: issue_def Let_def setup_task_timer_def timer_ops_def new_task_def add_op_def put_cconn_def
      put_task_def starts_resolving_def)

lemma call_unconnected:
  assumes "ch_conns S (server_key S ctl) = Some c" and "ch_objs S c = Some k" and "\<not> cc_open k"
    and "T = new_task desc ctl request resp done_cb (cc_id k + 1)"
  shows "\<exists>S'. CallMethod M P D desc ctl request resp done_cb S = Inr S' \<and> starts_resolving c k T S S' \<and>
    ch_conns S' = ch_conns S \<and> ch_next_conn S' = ch_next_conn S"
  using issue_unconnected [OF assms(2-4)] assms(1) by (simp add: CallMethod_def Let_def)

lemma call_first:
  fixes S :: "'m channel"
  assumes "ch_conns S (server_key S ctl) = None" and "T = new_task desc ctl request resp done_cb 1"
    and "k = RpcClientConnection_new (ctl_host (ch_ctls S ctl)) (ctl_service (ch_ctls S ctl))"
  shows "\<exists>S'. CallMethod M P D desc ctl request resp done_cb S = Inr S' \<and>
    starts_resolving (ch_next_conn S) k T S S' \<and>
    ch_conns S' = (ch_conns S)(server_key S ctl \<mapsto> ch_next_conn S) \<and> ch_next_conn S' = Suc (ch_next_conn S)"
proof -
  let ?S = "(put_cconn (ch_next_conn S) k (S\<lparr>ch_next_conn := Suc (ch_next_conn S)\<rparr>))
      \<lparr>ch_conns := (ch_conns S)(server_key S ctl \<mapsto> ch_next_conn S)\<rparr>"
  have k: "ch_objs ?S (ch_next_conn S) = Some k" "\<not> cc_open k" "T = new_task desc ctl request resp done_cb (cc_id k + 1)"
    by (simp_all add: put_cconn_def RpcClientConnection_new_def assms(2,3))
  have "CallMethod M P D desc ctl request resp done_cb S =
      issue M P D (ch_next_conn S) desc ctl request resp done_cb ?S"
    using assms(1,3) by (simp add: CallMethod_def Let_def client_map_insert_def put_cconn_def)
  with issue_unconnected [OF k, of M P D] show ?thesis
    by (simp add: put_cconn_def timer_ops_def starts_resolving_def Let_def)
qed

lemma resolved_step:
  assumes "ch_objs S c = Some k"
  shows "client_run M P D (Resolved c t None) S =
    Inr (put_cconn c (k\<lparr>cc_aborted := connecting k, cc_open := True,
      cc_ops := ConnectOp t # remove1 (ResolveOp t) (cc_ops k)\<rparr>) S, None)"
  using assms by (simp add: client_run_def handle_resolve_def op_done_def close_socket_def connecting_remove)

lemma start_read_reads:
  assumes "ch_objs S c = Some k" and "wf_pbuf (cc_buf k)" and "\<And>n. can_alloc M n"
  obtains b blk where "start_read M D c S =
      Inr (put_cconn c (k\<lparr>cc_buf := b, cc_ops := ReadHeaderOp # cc_ops k\<rparr>) S, None)"
    and "wf_pbuf b" and "buf_p b = Some blk" and "12 \<le> length blk"
proof -
  have "unat (12 :: u32) \<le> 2147483648" by simp
  from expand_packet_alloc [OF assms(3) this, of "cc_buf k"]
  obtain b where e: "expand_packet M (cc_buf k) 12 = Inr (0, b)" by metis
  obtain blk where "buf_p b = Some blk" "12 \<le> length blk"
    using expand_packet_ok [OF assms(2) e] by auto
  with e assms(1) that expand_packet_preserves_wf [OF assms(2) e] show ?thesis
    by (simp add: start_read_def Let_def add_op_def)
qed

text \<open>A connection that is established writes the call and reads.\<close>

lemma connected_step:
  assumes "ch_objs S c = Some k" and "ch_tasks S t = Some T" and "t_buf T = null_buf" and "can_send P T"
    and "wf_pbuf (cc_buf k)" and "\<And>n. can_alloc M n"
  obtains S' k' b out blk where "client_run M P D (Connected c t None) S = Inr (S', None)"
    and "ch_objs S' = (ch_objs S)(c \<mapsto> k')" and "carries P T out"
    and "cc_ops k' = ReadHeaderOp # WriteOp t out # timer_ops S T t @ remove1 (ConnectOp t) (cc_ops k)"
    and "cc_outgoing k' = omap_insert (t_id T) t (cc_outgoing k)" and "\<not> cc_connecting k'"
    and "cc_open k' = cc_open k" and "cc_id k' = cc_id k"
    and "wf_pbuf (cc_buf k')" and "buf_p (cc_buf k') = Some blk" and "12 \<le> length blk"
    and "ch_tasks S' = (ch_tasks S)(t \<mapsto> T\<lparr>t_buf := b, t_state := STATE_WRITE_TO_SERVER\<rparr>)"
    and "ch_conns S' = ch_conns S" and "ch_next_task S' = ch_next_task S" and "ch_ctls S' = ch_ctls S"
proof -
  obtain gq gm where send: "message_codec (cp_request P) gq" "message_codec (md_request_api (t_method T)) gm"
    "gq (make_request P T)" "gm (t_request T)"
    "12 + ByteSize (cp_request P) (make_request P T) + ByteSize (md_request_api (t_method T)) (t_request T) \<le> 2147483648"
    using assms(4) by (auto simp: can_send_def call_size_def)
  define k0 where "k0 = k\<lparr>cc_ops := remove1 (ConnectOp t) (cc_ops k), cc_connecting := False\<rparr>"
  define S0 where "S0 = put_cconn c k0 S"
  have st: "ch_tasks S0 t = Some T" "ch_objs S0 c = Some k0" using assms(2) by (simp_all add: S0_def)
  obtain bs1 bs2 b where p: "ParseFromArray (cp_request P) bs1 = Some (make_request P T)"
      "ParseFromArray (md_request_api (t_method T)) bs2 = Some (t_request T)"
      "length bs1 = ByteSize (cp_request P) (make_request P T)"
      "length bs2 = ByteSize (md_request_api (t_method T)) (t_request T)"
    and sc: "start_call M P D c t S0 = Inr (add_op c (WriteOp t (frame (of_nat (length bs1)) (of_nat (length bs2)) 0 (bs1 @ bs2)))
       (setup_task_timer c t
          (put_cconn c (k0\<lparr>cc_outgoing := omap_insert (t_id T) t (cc_outgoing k0)\<rparr>)
            (put_task t (T\<lparr>t_buf := b, t_state := STATE_WRITE_TO_SERVER\<rparr>) S0))))"
    by (rule start_call_sends [OF send(1-4) st(1) assms(3) st(2) assms(6) send(5), where D = D])
      metis
  define out where "out = frame (of_nat (length bs1)) (of_nat (length bs2)) 0 (bs1 @ bs2)"
  note sc = sc [folded out_def]
  let ?T = "T\<lparr>t_buf := b, t_state := STATE_WRITE_TO_SERVER\<rparr>"
  define k1 where "k1 = k0\<lparr>cc_outgoing := omap_insert (t_id T) t (cc_outgoing k0),
      cc_ops := WriteOp t out # timer_ops S T t @ cc_ops k0\<rparr>"
  have sc': "start_call M P D c t S0 = Inr (put_cconn c k1 (put_task t ?T S0))"
    unfolding sc
    by (subst setup_task_timer_as [where T = ?T])
      (simp_all add: add_op_def k1_def timer_ops_def S0_def, cases k0, simp)
  have k1: "ch_objs (put_cconn c k1 (put_task t ?T S0)) c = Some k1" "wf_pbuf (cc_buf k1)"
    using assms(5) by (simp_all add: k1_def k0_def)
  obtain b' blk where sr: "start_read M D c (put_cconn c k1 (put_task t ?T S0)) =
      Inr (put_cconn c (k1\<lparr>cc_buf := b', cc_ops := ReadHeaderOp # cc_ops k1\<rparr>)
        (put_cconn c k1 (put_task t ?T S0)), None)"
    and b': "wf_pbuf b'" "buf_p b' = Some blk" "12 \<le> length blk"
    by (rule start_read_reads [OF k1 assms(6)])
  have run: "client_run M P D (Connected c t None) S = Inr (put_cconn c
      (k1\<lparr>cc_buf := b', cc_ops := ReadHeaderOp # cc_ops k1\<rparr>) (put_cconn c k1 (put_task t ?T S0)), None)"
    using assms(1) sc' sr by (simp add: client_run_def handle_connect_def op_done_def S0_def k0_def)
  have c: "carries P T out" unfolding carries_def using p out_def by blast
  show ?thesis
    by (rule that [OF run _ c, where k' = "k1\<lparr>cc_buf := b', cc_ops := ReadHeaderOp # cc_ops k1\<rparr>"]) (use b' in \<open>auto simp: put_cconn_def put_task_def S0_def k1_def k0_def\<close>)
qed

lemma enabled_op:
  "ch_objs S c = Some k \<Longrightarrow> completes ev = (c, x) \<Longrightarrow> x \<in> set (cc_ops k) \<Longrightarrow> transfer_ok ev \<Longrightarrow> client_enabled ev S"
  by (simp add: client_enabled_def)

text \<open>The two events that establish the connection, for a call that waits for them.\<close>

lemma first_call_written:
  assumes "ch_conns S (server_key S ctl) = None" and "T = new_task desc ctl request resp done_cb 1"
    and "can_send P T" and "\<And>n. can_alloc M n"
  obtains S1 S2 S3 k b out blk where "CallMethod M P D desc ctl request resp done_cb S = Inr S1"
    and "client_run M P D (Resolved (ch_next_conn S) (ch_next_task S) None) S1 = Inr (S2, None)"
    and "client_run M P D (Connected (ch_next_conn S) (ch_next_task S) None) S2 = Inr (S3, None)"
    and "ch_objs S3 (ch_next_conn S) = Some k" and "cc_open k" and "\<not> cc_connecting k" and "cc_id k = 1"
    and "carries P T out" and "{ReadHeaderOp, WriteOp (ch_next_task S) out} \<subseteq> set (cc_ops k)"
    and "cc_outgoing k = [(1, ch_next_task S)]"
    and "wf_pbuf (cc_buf k)" and "buf_p (cc_buf k) = Some blk" and "12 \<le> length blk"
    and "ch_tasks S3 (ch_next_task S) = Some (T\<lparr>t_buf := b, t_state := STATE_WRITE_TO_SERVER\<rparr>)"
    and "ch_conns S3 = (ch_conns S)(server_key S ctl \<mapsto> ch_next_conn S)"
    and "ch_next_task S3 = Suc (ch_next_task S)" and "ch_ctls S3 = ch_ctls S"
proof -
  let ?c = "ch_next_conn S" and ?t = "ch_next_task S"
  let ?k = "RpcClientConnection_new (ctl_host (ch_ctls S ctl)) (ctl_service (ch_ctls S ctl))"
  obtain S1 where S1: "CallMethod M P D desc ctl request resp done_cb S = Inr S1"
    "starts_resolving ?c ?k T S S1" "ch_conns S1 = (ch_conns S)(server_key S ctl \<mapsto> ?c)"
    using call_first [OF assms(1,2) refl] by blast
  obtain k1 where k1: "ch_objs S1 ?c = Some k1" "cc_id k1 = 1" "cc_outgoing k1 = []" "wf_pbuf (cc_buf k1)"
      "cc_buf k1 = null_buf"
    and T: "ch_tasks S1 ?t = Some T" "t_buf T = null_buf" "t_id T = 1" "ch_next_task S1 = Suc ?t" "ch_ctls S1 = ch_ctls S"
    using S1(2) by (simp add: starts_resolving_def Let_def RpcClientConnection_new_def assms(2))
  let ?k2 = "k1\<lparr>cc_aborted := connecting k1, cc_open := True,
      cc_ops := ConnectOp ?t # remove1 (ResolveOp ?t) (cc_ops k1)\<rparr>"
  let ?S2 = "put_cconn ?c ?k2 S1"
  have S2: "client_run M P D (Resolved ?c ?t None) S1 = Inr (?S2, None)" by (rule resolved_step [OF k1(1)])
  have st: "ch_objs ?S2 ?c = Some ?k2" "ch_tasks ?S2 ?t = Some T" "wf_pbuf (cc_buf ?k2)" using k1 T by simp_all
  show ?thesis
    by (rule connected_step [OF st(1,2) T(2) assms(3) st(3) assms(4), where D = D],
        rule that [OF S1(1) S2], assumption)
      (use k1 T S1(3) in auto)
qed

text \<open>
  The first call to a server, end to end, from nothing: the channel makes a connection for
  the address, resolves the host, connects, writes the call and reads, and the call ends as
  \<open>remote_call_completes\<close> says of a later one; the connection is then in the channel's table
  for the next call.
\<close>

lemma first_call_exchange:
  assumes client: "ch_conns S (server_key S ctl) = None"
      "T = new_task desc ctl request resp done_cb 1" "can_send P1 T"
    and memory: "\<And>n. can_alloc M1 n" "\<And>n. can_alloc M2 n"
    and server: "server_reachable M2 P2 Z" "as_objs Z d = Some l" "rc_pending l = ReadHeader"
    and messages: "cp_request P1 = proto_request P2" "cp_response P1 = proto_response P2"
      "md_request_api desc = request_api md" "md_response_api desc = response_api md"
      "message_codec (proto_response P2) gr" "message_codec (response_api md) g2"
    and offered: "dispatch_to (as_services Z) (identity_of (md_service desc) (md_name desc)) = Target cs md"
      "run_service M2 md request = (sctl, response)"
    and good: "gr (response_for sctl (make_request P1 T) P2)" "g2 response"
    and sizes: "12 + ByteSize (proto_response P2) (response_for sctl (make_request P1 T) P2)
        + ByteSize (response_api md) response \<le> call_size P1 T"
    and callback: "D done_cb (ch_next_task S) = None"
  shows "\<exists>S1 S2 S3 k out S' Z' T'. CallMethod M1 P1 D desc ctl request resp done_cb S = Inr S1 \<and>
    client_run M1 P1 D (Resolved (ch_next_conn S) (ch_next_task S) None) S1 = Inr (S2, None) \<and>
    client_run M1 P1 D (Connected (ch_next_conn S) (ch_next_task S) None) S2 = Inr (S3, None) \<and>
    ch_conns S3 (server_key S ctl) = Some (ch_next_conn S) \<and> ch_objs S3 (ch_next_conn S) = Some k \<and> cc_open k \<and>
    exchange M1 P1 D M2 P2 (ch_next_conn S) d (ch_next_task S) out S3 Z S' Z' \<and>
    ch_tasks S' (ch_next_task S) = Some T' \<and> t_called T' \<and> t_runs T' = 1 \<and>
    ch_resps S' resp = response \<and> ch_ctls S' ctl = reported sctl (ch_ctls S ctl)"
proof -
  let ?t = "ch_next_task S" and ?c = "ch_next_conn S"
  obtain S1 S2 S3 k b out blk where run: "CallMethod M1 P1 D desc ctl request resp done_cb S = Inr S1"
      "client_run M1 P1 D (Resolved ?c ?t None) S1 = Inr (S2, None)"
      "client_run M1 P1 D (Connected ?c ?t None) S2 = Inr (S3, None)"
    and k: "ch_objs S3 ?c = Some k" "cc_open k" "cc_outgoing k = [(1, ?t)]" "carries P1 T out"
      "wf_pbuf (cc_buf k)" "buf_p (cc_buf k) = Some blk" "12 \<le> length blk"
    and S3: "ch_tasks S3 ?t = Some (T\<lparr>t_buf := b, t_state := STATE_WRITE_TO_SERVER\<rparr>)"
      "ch_conns S3 = (ch_conns S)(server_key S ctl \<mapsto> ?c)" "ch_ctls S3 = ch_ctls S"
    by (rule first_call_written [OF client memory(1), where D = D])
  let ?T = "T\<lparr>t_buf := b, t_state := STATE_WRITE_TO_SERVER\<rparr>"
  have mk: "make_request P1 ?T = make_request P1 T" by (simp add: make_request_def)
  then have same: "carries P1 ?T out" "call_size P1 ?T = call_size P1 T"
    using k(4) by (simp_all add: carries_def call_size_def)
  have T: "\<not> t_called ?T" "t_runs ?T = 0" "map_of (cc_outgoing k) (t_id ?T) = Some ?t" "D (t_done ?T) ?t = None"
    "md_request_api (t_method ?T) = request_api md" "md_response_api (t_method ?T) = response_api md"
    "run_service M2 md (t_request ?T) = (sctl, response)" "call_size P1 ?T \<le> 2147483648"
    "dispatch_to (as_services Z) (rq_method_identity (make_request P1 T)) = Target cs md"
    using client(2,3) k(3) callback messages offered same(2) by (simp_all add: can_send_def make_request_def)
  from exchange_completes [where D = D, OF k(1) S3(1) T(1-3) k(6,7,5) memory server messages(1,2) T(5,6) messages(5,6)
      same(1) mk [symmetric] T(9,7) good T(8) sizes [folded same(2)] T(4)]
  show ?thesis using run k(1,2) S3(2,3) client(2) by auto
qed

subsection \<open>Properties\<close>

definition first_echo :: "byte list call_task" where
  "first_echo = new_task echo_desc 0 [1, 2, 3] 5 0 1"

lemma first_echo_facts:
  "Request_good varint_lib varint_str_ok (make_request varint_client first_echo)"
  "call_size varint_client first_echo = 28"
  "Response_good varint_lib varint_str_ok
     (response_for (CarrotController_default None 0) (make_request varint_client first_echo) varint_protocol)"
  "ByteSize (proto_response varint_protocol)
     (response_for (CarrotController_default None 0) (make_request varint_client first_echo) varint_protocol) = 4"
  "dispatch_to (as_services echo_server) (identity_of (md_service echo_desc) (md_name echo_desc)) =
     Target \<lparr>cs_s = echo_service, cs_c = None\<rparr> echo_method"
proof -
  show "Request_good varint_lib varint_str_ok (make_request varint_client first_echo)"
    by (simp add: first_echo_def make_request_def echo_desc_def varint_client_def identity_of_def varint_str_ok_def)
  show "call_size varint_client first_echo = 28"
    by code_simp
  show "Response_good varint_lib varint_str_ok
     (response_for (CarrotController_default None 0) (make_request varint_client first_echo) varint_protocol)"
    by (simp add: response_for_def varint_protocol_def CarrotController_default_def Failed_def
      Response_set_commute varint_str_ok_def)
  show "ByteSize (proto_response varint_protocol)
     (response_for (CarrotController_default None 0) (make_request varint_client first_echo) varint_protocol) = 4"
    by code_simp
  have "identity_of (md_service echo_desc) (md_name echo_desc) = rq_method_identity echo_request"
    by (simp add: echo_request_def echo_desc_def identity_of_def)
  then show "dispatch_to (as_services echo_server) (identity_of (md_service echo_desc) (md_name echo_desc)) =
     Target \<lparr>cs_s = echo_service, cs_c = None\<rparr> echo_method"
    by (simp only: echo_dispatch)
qed

lemma varint_codecs:
  "message_codec (cp_request varint_client) (Request_good varint_lib varint_str_ok)"
  "message_codec (proto_response varint_protocol) (Response_good varint_lib varint_str_ok)"
  "cp_request varint_client = proto_request varint_protocol" "cp_response varint_client = proto_response varint_protocol"
  using varint_request.request.message_codec_axioms varint_response.response.message_codec_axioms
  by (simp_all add: varint_client_def varint_protocol_def)

lemma echo_desc_apis:
  "md_request_api echo_desc = bytes_api" "md_response_api echo_desc = bytes_api"
  "request_api echo_method = bytes_api" "response_api echo_method = bytes_api"
  by (simp_all add: echo_desc_def echo_method_def)

lemma first_echo_sends: "can_send varint_client first_echo"
proof -
  have "t_method first_echo = echo_desc" by (simp add: first_echo_def)
  then show ?thesis
    using varint_codecs(1) bytes_codec.message_codec_axioms first_echo_facts(1,2)
    by (auto simp: can_send_def echo_desc_apis)
qed

lemma first_call_example:
  "\<exists>S1 S2 S3 out S' Z'. CallMethod little_host varint_client quiet echo_desc 0 [1, 2, 3] 5 0 demo_start = Inr S1 \<and>
    client_run little_host varint_client quiet (Resolved 0 0 None) S1 = Inr (S2, None) \<and>
    client_run little_host varint_client quiet (Connected 0 0 None) S2 = Inr (S3, None) \<and>
    exchange little_host varint_client quiet little_host varint_protocol 0 0 0 out S3 echo_server S' Z' \<and>
    ch_resps S' 5 = [1, 2, 3] \<and> ErrorCode (ch_ctls S' 0) = EC_SUCCESS"
proof -
  have S: "ch_conns demo_start (server_key demo_start 0) = None" "ch_next_conn demo_start = 0" "ch_next_task demo_start = 0"
    "ch_ctls demo_start 0 = CarrotController_addr None ''h'' ''80'' TIMEOUT_NEVER"
    by (simp_all add: demo_start_def CarrotAsyncChannel_new_def)
  have conn: "as_objs echo_server 0 = Some echo_conn" "rc_pending echo_conn = ReadHeader"
    by (simp_all add: echo_accept(2) echo_conn_def)
  have apis: "md_request_api echo_desc = request_api echo_method" "md_response_api echo_desc = response_api echo_method"
    "message_codec (response_api echo_method) (\<lambda>_. True)"
    using bytes_codec.message_codec_axioms by (simp_all add: echo_desc_apis)
  have run: "run_service little_host echo_method [1, 2, 3] = (CarrotController_default None 0, [1, 2, 3])"
    by (simp add: echo_run little_host_def)
  have size: "12 + ByteSize (proto_response varint_protocol)
      (response_for (CarrotController_default None 0) (make_request varint_client first_echo) varint_protocol)
      + ByteSize (response_api echo_method) [1, 2, 3] \<le> call_size varint_client first_echo"
    by (simp add: first_echo_facts(2,4) echo_desc_apis) (simp add: bytes_api_def)
  have rep: "reported (CarrotController_default None 0) (ch_ctls demo_start 0) = ch_ctls demo_start 0"
    "ErrorCode (ch_ctls demo_start 0) = EC_SUCCESS"
    by (simp_all add: reported_def Failed_def CarrotController_default_def S(4) ErrorCode_def CarrotController_addr_def)
  have "quiet 0 (ch_next_task demo_start) = None" by (simp add: quiet_def)
  from first_call_exchange [where D = quiet, OF S(1) first_echo_def first_echo_sends example_hosts(3) example_hosts(3)
      echo_reachable conn varint_codecs(3,4) apis(1,2) varint_codecs(2) apis(3) first_echo_facts(5) run
      first_echo_facts(3) TrueI size this]
  show ?thesis unfolding S(2,3) rep(1) using rep(2) by metis
qed

text \<open>Two calls that find the connection not established, and what their resolutions and connections do.\<close>

lemma early_calls_issued:
  assumes "channel_reachable M P D S" and "ids_left S" and "ch_conns S (server_key S ctl) = None"
    and "server_key S ctl2 = server_key S ctl"
    and "T = new_task desc ctl request resp done_cb 1" and "T2 = new_task desc2 ctl2 request2 resp2 done_cb2 2"
    and "c = ch_next_conn S" and "t = ch_next_task S" and "t2 = Suc t"
  obtains S1 S2 k where "CallMethod M P D desc ctl request resp done_cb S = Inr S1"
    and "CallMethod M P D desc2 ctl2 request2 resp2 done_cb2 S1 = Inr S2" and "channel_reachable M P D S2"
    and "ch_objs S2 c = Some k" and "cc_buf k = null_buf" and "{ResolveOp t, ResolveOp t2} \<subseteq> set (cc_ops k)"
    and "cc_outgoing k = []" and "set (cc_ops k) \<subseteq> {ResolveOp t, ResolveOp t2, TimerOp t, TimerOp t2}"
    and "ch_tasks S2 t = Some T" and "ch_tasks S2 t2 = Some T2"
proof -
  let ?k = "RpcClientConnection_new (ctl_host (ch_ctls S ctl)) (ctl_service (ch_ctls S ctl))"
  obtain S1 where S1: "CallMethod M P D desc ctl request resp done_cb S = Inr S1" "starts_resolving c ?k T S S1"
    "ch_conns S1 = (ch_conns S)(server_key S ctl \<mapsto> c)"
    unfolding assms(7) using call_first [OF assms(3,5) refl] by blast
  define k1 where "k1 = ?k\<lparr>cc_id := cc_id ?k + 1, cc_connecting := True, cc_ops := timer_ops S T t @ ResolveOp t # cc_ops ?k\<rparr>"
  have k1: "ch_objs S1 = (ch_objs S)(c \<mapsto> k1)" "cc_id k1 = 1" "\<not> cc_open k1" "cc_buf k1 = null_buf"
      "ResolveOp t \<in> set (cc_ops k1)" "cc_outgoing k1 = []" "set (cc_ops k1) \<subseteq> {ResolveOp t, TimerOp t}"
    and s1: "ch_tasks S1 t = Some T" "ch_next_task S1 = t2" "ch_ctls S1 = ch_ctls S"
    using S1(2) by (auto simp: starts_resolving_def Let_def RpcClientConnection_new_def timer_ops_def k1_def assms(8,9))
  have key: "ch_conns S1 (server_key S1 ctl2) = Some c" using S1(3) assms(4) s1(3) by simp
  have o1: "ch_objs S1 c = Some k1" "T2 = new_task desc2 ctl2 request2 resp2 done_cb2 (cc_id k1 + 1)"
    using k1 assms(6) by simp_all
  obtain S2 where S2: "CallMethod M P D desc2 ctl2 request2 resp2 done_cb2 S1 = Inr S2" "starts_resolving c k1 T2 S1 S2"
    using call_unconnected [OF key o1(1) k1(3) o1(2)] by blast
  have ids: "ids_left S1" using assms(2) k1(1,2) by (simp add: ids_left_def)
  note reach = channel_reachable.call [OF channel_reachable.call [OF assms(1,2) S1(1)] ids S2(1)]
  obtain k2 where "ch_objs S2 c = Some k2" "cc_buf k2 = null_buf" "{ResolveOp t, ResolveOp t2} \<subseteq> set (cc_ops k2)"
      "cc_outgoing k2 = []" "set (cc_ops k2) \<subseteq> {ResolveOp t, ResolveOp t2, TimerOp t, TimerOp t2}"
    using S2(2) k1 s1 assms(9) by (auto simp: starts_resolving_def Let_def timer_ops_def)
  then show ?thesis
    by (rule that [OF S1(1) S2(1) reach]) (use S2(2) s1 assms(9) in \<open>simp_all add: starts_resolving_def Let_def\<close>)
qed

lemma both_resolved:
  assumes "ch_objs S c = Some k" and "{ResolveOp u, ResolveOp v} \<subseteq> set (cc_ops k)" and "u \<noteq> v"
    and "channel_reachable M P D S"
  obtains S1 S2 k2 where "client_run M P D (Resolved c u None) S = Inr (S1, None)"
    and "client_run M P D (Resolved c v None) S1 = Inr (S2, None)"
    and "ch_objs S2 c = Some k2" and "cc_outgoing k2 = cc_outgoing k" and "u \<in> set (cc_aborted k2)"
    and "cc_ops k2 = ConnectOp v # ConnectOp u # remove1 (ResolveOp v) (remove1 (ResolveOp u) (cc_ops k))"
    and "ch_tasks S2 = ch_tasks S" and "ch_ctls S2 = ch_ctls S" and "channel_reachable M P D S2"
proof -
  define k1 where "k1 = k\<lparr>cc_aborted := connecting k, cc_open := True,
      cc_ops := ConnectOp u # remove1 (ResolveOp u) (cc_ops k)\<rparr>"
  define S1 where "S1 = put_cconn c k1 S"
  define k2 where "k2 = k1\<lparr>cc_aborted := connecting k1, cc_open := True,
      cc_ops := ConnectOp v # remove1 (ResolveOp v) (cc_ops k1)\<rparr>"
  have o1: "ch_objs S1 c = Some k1" by (simp add: S1_def)
  have r1: "client_run M P D (Resolved c u None) S = Inr (S1, None)"
    unfolding S1_def k1_def by (rule resolved_step [OF assms(1)])
  have r2: "client_run M P D (Resolved c v None) S1 = Inr (put_cconn c k2 S1, None)"
    unfolding k2_def by (rule resolved_step [OF o1])
  have e: "client_enabled (Resolved c u None) S" "client_enabled (Resolved c v None) S1"
    using assms(1-3) o1 by (auto intro!: enabled_op simp: k1_def)
  have reach: "channel_reachable M P D (put_cconn c k2 S1)"
    by (rule channel_reachable.event [OF channel_reachable.event [OF assms(4) e(1) r1] e(2) r2])
  have "u \<in> set (cc_aborted k2)" by (simp add: k2_def connecting_set) (simp add: k1_def)
  then show ?thesis
    by (intro that [OF r1 r2 _ _ _ _ _ _ reach, where ?k2.0 = k2]) (auto simp: k1_def k2_def S1_def)
qed

text \<open>A connection that cannot be made, on a connection object without outgoing calls.\<close>

lemma failed_connect_step:
  assumes "ch_objs S c = Some k" and "ConnectOp t \<in> set (cc_ops k)" and "cc_outgoing k = []"
    and "ch_tasks S t = Some T" and "\<not> t_called T" and "D (t_done T) t = None" and "channel_reachable M P D S"
  obtains S' k' where "client_run M P D (Connected c t (Some e)) S = Inr (S', Some (ClientSystemError e))"
    and "ch_objs S' c = Some k'" and "\<not> cc_open k'" and "cc_outgoing k' = []"
    and "cc_ops k' = remove1 (ConnectOp t) (cc_ops k)" and "cc_aborted k' = connecting k'"
    and "ch_tasks S' = (ch_tasks S)(t \<mapsto> T\<lparr>t_called := True, t_runs := Suc (t_runs T)\<rparr>)"
    and "ch_ctls S' = (ch_ctls S)(t_controller T := SetFailed_ec (''failed to connect, '' @ error_message M e)
      EC_CONNECTION_FAILED (ch_ctls S (t_controller T)))"
    and "channel_reachable M P D S'"
proof -
  let ?k = "k\<lparr>cc_ops := remove1 (ConnectOp t) (cc_ops k)\<rparr>"
  define g where "g = SetFailed_ec (''failed to connect, '' @ error_message M e) EC_CONNECTION_FAILED"
  let ?S = "complete D g t (put_cconn c ?k S)"
  let ?S' = "put_cconn c ((close_socket ?k)\<lparr>cc_outgoing := []\<rparr>) ?S"
  have o: "ch_objs ?S c = Some ?k" by (simp add: complete_def run_done_def set_ctl_def put_task_def put_cconn_def assms(4-6))
  have h: "handle_connect M P D (Some e) c t S0 = Inr (client_destroy M D e c (complete D g t S0), Some (ClientSystemError e))" for S0
    by (simp only: handle_connect_def option.case g_def)
  have run: "client_run M P D (Connected c t (Some e)) S = Inr (?S', Some (ClientSystemError e))"
    using assms(1,3) by (simp add: client_run_def op_done_def h client_destroy_as [OF o])
  have en: "client_enabled (Connected c t (Some e)) S" using assms(1,2) by (simp add: client_enabled_def)
  show ?thesis
    by (rule that [OF run _ _ _ _ _ _ _ channel_reachable.event [OF assms(7) en run],
          where k' = "(close_socket ?k)\<lparr>cc_outgoing := []\<rparr>"])
      (use assms(4-6) in \<open>simp_all add: complete_def run_done_def set_ctl_def put_task_def put_cconn_def connecting_def g_def\<close>)
qed



end
