(* ===== verification/Threaded_Interleaving.thy ===== *)
theory Threaded_Interleaving
  imports Threaded_Server
begin

section \<open>The threads of the threaded server, interleaved\<close>

text \<open>
  What a thread of src/src/server/carrot_threaded_server.cpp does depends on nothing but its own
  descriptor, its buffer, its \<open>errno\<close>, the table of services and \<open>stopped\<close>. So any run of the
  server, with other threads stepping and the main thread accepting in between, projects to the
  run of one thread alone, and what is proved of a thread alone holds of it among the others;
  provided that the kernel does not give the thread's descriptor to a new client, which the second
  \<open>close\<close> of \<open>handle_client\<close> would then take away.
\<close>

subsection \<open>Operations on one descriptor commute with forgetting the others\<close>

definition only :: "nat \<Rightarrow> os \<Rightarrow> os" where
  "only fd w = w\<lparr>os_fds := (\<lambda>x. if x = fd then os_fds w x else None)\<rparr>"

named_theorems local_op \<open>operations that commute with forgetting the other descriptors\<close>

lemma only_sels [simp]: "os_fds (only fd w) fd = os_fds w fd" "os_errno (only fd w) = os_errno w"
  by (simp_all add: only_def)

lemma only_views [simp]:
  "to_read fd (only fd w) = to_read fd w" "sent_to fd (only fd w) = sent_to fd w"
  "write_answers fd (only fd w) = write_answers fd w" "end_errno fd (only fd w) = end_errno fd w"
  by (simp_all add: to_read_def sent_to_def write_answers_def end_errno_def split: option.split)

lemma only_twice [simp]: "only fd (only fd w) = only fd w"
  by (simp add: only_def fun_eq_iff)

lemma only_read_eq:
  "fd_read_n fd n (only fd w) = map_sum id (map_prod id (map_prod id (only fd))) (fd_read_n fd n w)"
  by (auto simp: fd_read_n_def map_sum_and_then only_def fun_eq_iff split: option.split
      intro!: and_then_cong)

lemma only_read [local_op]:
  "and_then (fd_read_n fd n (only fd w)) k = and_then (fd_read_n fd n w) (\<lambda>(r, bs, w'). k (r, bs, only fd w'))"
  by (cases "fd_read_n fd n w") (auto simp: only_read_eq)

lemma only_write [local_op]:
  "fd_write_n fd bs (only fd w) = map_prod id (only fd) (fd_write_n fd bs w)"
  by (auto simp: fd_write_n_def only_def fun_eq_iff split: option.split prod.split)

lemma only_destroy [local_op]: "destroy_connection fd (only fd w) = only fd (destroy_connection fd w)"
  by (auto simp: destroy_connection_def fd_close_def only_def fun_eq_iff split: option.split)

lemma only_lengths_eq:
  "read_lengths M fd (only fd w) = map_sum id (map_prod id (only fd)) (read_lengths M fd w)"
  by (auto simp: read_lengths_def local_op map_sum_and_then split: prod.split intro!: and_then_cong)

lemma only_lengths [local_op]:
  "and_then (read_lengths M fd (only fd w)) k = and_then (read_lengths M fd w) (\<lambda>(ls, w'). k (ls, only fd w'))"
  by (cases "read_lengths M fd w") (auto simp: only_lengths_eq)

lemma only_receive_eq:
  "receive_packet expand M fd b (only fd w) =
   map_sum id (map_prod id (map_prod id (only fd))) (receive_packet expand M fd b w)"
  by (auto simp: receive_packet_def local_op map_sum_and_then Let_def split: prod.split option.split
      intro!: and_then_cong)

lemma only_receive [local_op]:
  "and_then (receive_packet expand M fd b (only fd w)) k =
   and_then (receive_packet expand M fd b w) (\<lambda>(got, b', w'). k (got, b', only fd w'))"
  by (cases "receive_packet expand M fd b w") (auto simp: only_receive_eq)

lemma only_respond_eq:
  "threaded_respond_to_client M P resp rr fd b (only fd w) =
   map_sum id (map_prod id (only fd)) (threaded_respond_to_client M P resp rr fd b w)"
  by (auto simp: threaded_respond_to_client_def local_op map_sum_and_then split: prod.split option.split
      intro!: and_then_cong)

lemma only_respond [local_op]:
  "and_then (threaded_respond_to_client M P resp rr fd b (only fd w)) k =
   and_then (threaded_respond_to_client M P resp rr fd b w) (\<lambda>(b', w'). k (b', only fd w'))"
  by (cases "threaded_respond_to_client M P resp rr fd b w") (auto simp: only_respond_eq)

lemma only_round_eq:
  "threaded_round M P tab fd b (only fd w) =
   map_sum id (map_prod id (map_prod id (only fd))) (threaded_round M P tab fd b w)"
  by (auto simp: threaded_round_def local_op map_sum_and_then split: prod.split option.split answer.split
      intro!: and_then_cong)

lemma only_round [local_op]:
  "and_then (threaded_round M P tab fd b (only fd w)) k =
   and_then (threaded_round M P tab fd b w) (\<lambda>(r, b', w'). k (r, b', only fd w'))"
  by (cases "threaded_round M P tab fd b w") (auto simp: only_round_eq)

subsection \<open>A thread alone\<close>

text \<open>The server with this thread only, and with its descriptor only.\<close>

definition alone :: "nat \<Rightarrow> nat \<Rightarrow> 'm tserver \<Rightarrow> 'm tserver" where
  "alone t fd S = S\<lparr>ts_threads := (\<lambda>u. if u = t then ts_threads S u else None), ts_next := 0,
     ts_os := only fd (ts_os S)\<rparr>"

text \<open>\<open>owns\<close>: the descriptor is the thread's, if it still runs, and no other thread's.\<close>

definition owns :: "nat \<Rightarrow> nat \<Rightarrow> 'm tserver \<Rightarrow> bool" where
  "owns t fd S \<longleftrightarrow> (\<forall>u th. ts_threads S u = Some th \<longrightarrow> (th_fd th = fd) = (u = t)) \<and> t < ts_next S"

lemma alone_sels [simp]:
  "ts_threads (alone t fd S) t = ts_threads S t" "ts_stopped (alone t fd S) = ts_stopped S"
  "ts_services (alone t fd S) = ts_services S" "ts_os (alone t fd S) = only fd (ts_os S)"
  by (simp_all add: alone_def)

lemma alone_thread_os [simp]: "thread_os th (alone t fd S) = only fd (thread_os th S)"
  by (simp add: thread_os_def only_def fun_eq_iff)

lemma alone_put [simp]: "put_thread t th (only fd w) (alone t fd S) = alone t fd (put_thread t th w S)"
  by (simp add: alone_def put_thread_def only_def fun_eq_iff)

lemma alone_eqI:
  assumes "ts_threads S' t = ts_threads S t" and "ts_services S' = ts_services S"
    and "ts_stopped S' = ts_stopped S" and "os_fds (ts_os S') fd = os_fds (ts_os S) fd"
    and "os_errno (ts_os S') = os_errno (ts_os S)"
  shows "alone t fd S' = alone t fd S"
  using assms by (cases S; cases S'; cases "ts_os S"; cases "ts_os S'") (auto simp: alone_def only_def fun_eq_iff)

lemma alone_step:
  assumes "\<And>th. ts_threads S t = Some th \<Longrightarrow> th_fd th = fd"
  shows "thread_step M P t (alone t fd S) = map_sum id (map_prod (alone t fd) id) (thread_step M P t S)"
proof (cases "ts_threads S t")
  case (Some th)
  then have "th_fd th = fd" by (rule assms)
  with Some show ?thesis
    by (auto simp: thread_step_def local_op map_sum_and_then Let_def split: prod.split round.split phase.split
        intro!: and_then_cong)
qed (simp add: thread_step_def)

lemma step_of_another:
  assumes "owns t fd S" and "u \<noteq> t" and "thread_step M P u S = Inr (S', thrown)"
  shows "alone t fd S' = alone t fd S"
proof -
  obtain th where th: "ts_threads S u = Some th"
    using assms(3) by (auto simp: thread_step_def and_then_eq_Inr_iff deref_eq_iff)
  then have "th_fd th \<noteq> fd" using assms(1,2) by (auto simp: owns_def)
  with threads_isolated [OF th assms(3)] assms(2) show ?thesis by (intro alone_eqI) auto
qed

subsection \<open>Interleavings\<close>

text \<open>
  What happens in a running server: an iteration of a thread, a client that \<open>Run\<close> accepts, or
  \<open>Stop\<close>. The kernel gives out a descriptor that is not open.
\<close>

datatype activity = Iterate nat | NewClient nat sock | StopCalled

inductive interleaving :: "machine \<Rightarrow> 'u protocol \<Rightarrow> activity list \<Rightarrow> 'm tserver \<Rightarrow> 'm tserver \<Rightarrow> bool"
  for M P where
  at_rest: "interleaving M P [] S S"
| iterate: "thread_step M P t S = Inr (S1, None) \<Longrightarrow> interleaving M P acts S1 S' \<Longrightarrow>
    interleaving M P (Iterate t # acts) S S'"
| new_client: "os_fds (ts_os S) fd = None \<Longrightarrow>
    interleaving M P acts (snd (threaded_Run_turn (Some (fd, s)) S)) S' \<Longrightarrow>
    interleaving M P (NewClient fd s # acts) S S'"
| stop_called: "interleaving M P acts (threaded_Stop S) S' \<Longrightarrow> interleaving M P (StopCalled # acts) S S'"

inductive_cases interleaving_cases:
  "interleaving M P [] S S'" "interleaving M P (Iterate t # acts) S S'"
  "interleaving M P (NewClient fd s # acts) S S'" "interleaving M P (StopCalled # acts) S S'"

inductive_simps interleaving_simps [simp]:
  "interleaving M P [] S S'" "interleaving M P (Iterate t # acts) S S'"

lemma interleaving_reachable:
  "interleaving M P acts S S' \<Longrightarrow> threaded_reachable M P w0 S \<Longrightarrow> threaded_reachable M P w0 S'"
  by (induction rule: interleaving.induct) (blast intro: threaded_reachable.intros)+

text \<open>The part of a run that concerns one thread.\<close>

definition concerns :: "nat \<Rightarrow> activity \<Rightarrow> bool" where
  "concerns t act \<longleftrightarrow> act = Iterate t \<or> act = StopCalled"

lemma concerns_simps [simp]:
  "concerns t (Iterate u) \<longleftrightarrow> u = t" "\<not> concerns t (NewClient fd s)" "concerns t StopCalled"
  by (simp_all add: concerns_def)

lemma owns_step: "owns t fd S \<Longrightarrow> thread_step M P u S = Inr (S', thrown) \<Longrightarrow> owns t fd S'"
proof -
  assume o: "owns t fd S" and st: "thread_step M P u S = Inr (S', thrown)"
  obtain th where th: "ts_threads S u = Some th"
    using st by (auto simp: thread_step_def and_then_eq_Inr_iff deref_eq_iff)
  have "(th_fd y = fd) = (x = t)" if "ts_threads S' x = Some y" for x y
    using threads_isolated [OF th st] o th that unfolding owns_def by (cases "x = u") auto
  then show "owns t fd S'" using threads_isolated [OF th st] o by (auto simp: owns_def)
qed

lemma owns_accepted:
  assumes "owns t fd S" and "fd' \<noteq> fd"
  shows "owns t fd (snd (threaded_Run_turn (Some (fd', s)) S))"
    and "alone t fd (snd (threaded_Run_turn (Some (fd', s)) S)) = alone t fd S"
  using assms
  by (auto simp: threaded_Run_turn_def owns_def put_thread_def intro!: alone_eqI)

lemma alone_stopped: "alone t fd (threaded_Stop S) = threaded_Stop (alone t fd S)"
  by (cases S) (simp add: threaded_Stop_def alone_def cong: if_cong)

lemma owns_stopped: "owns t fd S \<Longrightarrow> owns t fd (threaded_Stop S)"
  by (simp add: threaded_Stop_def owns_def)

lemma own_step:
  assumes "owns t fd S" and "thread_step M P t S = Inr (S', thrown)"
  shows "thread_step M P t (alone t fd S) = Inr (alone t fd S', thrown)"
proof -
  have "thread_step M P t (alone t fd S) = map_sum id (map_prod (alone t fd) id) (thread_step M P t S)"
    by (rule alone_step) (use assms(1) in \<open>auto simp: owns_def\<close>)
  with assms(2) show ?thesis by simp
qed

lemma interleaving_projection:
  assumes "interleaving M P acts S S'" and "owns t fd S" and "\<And>s. NewClient fd s \<notin> set acts"
  shows "interleaving M P (filter (concerns t) acts) (alone t fd S) (alone t fd S') \<and> owns t fd S'"
  using assms
proof (induction rule: interleaving.induct)
  case (iterate u S S1 acts S')
  have o: "owns t fd S1" by (rule owns_step [OF iterate.prems(1) iterate.hyps(1)])
  with iterate.IH iterate.prems(2)
  have IH: "interleaving M P (filter (concerns t) acts) (alone t fd S1) (alone t fd S') \<and> owns t fd S'" by auto
  show ?case
  proof (cases "u = t")
    case True
    with iterate.hyps(1) have "thread_step M P t S = Inr (S1, None)" by simp
    from own_step [OF iterate.prems(1) this] IH True show ?thesis by auto
  next
    case False
    with step_of_another [OF iterate.prems(1) False iterate.hyps(1)] IH show ?thesis by auto
  qed
next
  case (new_client S fd' acts s S')
  then have "fd' \<noteq> fd" by auto
  with owns_accepted [OF new_client.prems(1) this] new_client.IH new_client.prems(2) show ?case
    by simp
next
  case (stop_called acts S S')
  with owns_stopped [OF stop_called.prems(1)] show ?case
    by (auto simp: alone_stopped intro: interleaving.stop_called)
qed simp

lemma interleaving_append:
  "interleaving M P (xs @ ys) S S' \<longleftrightarrow> (\<exists>R. interleaving M P xs S R \<and> interleaving M P ys R S')"
proof (induction xs arbitrary: S)
  case (Cons a xs)
  then show ?case
    by (cases a) (auto elim!: interleaving_cases intro: interleaving.intros)
qed simp

lemma interleaving_deterministic:
  "interleaving M P acts S A \<Longrightarrow> interleaving M P acts S B \<Longrightarrow> A = B"
proof (induction arbitrary: B rule: interleaving.induct)
  case (new_client S fd acts s S')
  from new_client.prems show ?case by (rule interleaving_cases) (rule new_client.IH)
next
  case (stop_called acts S S')
  from stop_called.prems show ?case by (rule interleaving_cases) (rule stop_called.IH)
qed auto

subsection \<open>The run of a thread alone\<close>

definition looping :: "nat \<Rightarrow> nat \<Rightarrow> pbuf \<Rightarrow> os \<Rightarrow> 'm tserver \<Rightarrow> bool" where
  "looping t fd b w S \<longleftrightarrow> \<not> ts_stopped S \<and> (\<exists>th. ts_threads S t = Some th \<and> th_fd th = fd \<and>
     th_buf th = b \<and> th_phase th = Looping \<and> thread_os th S = w)"

lemma looping_alone: "looping t fd b w S \<Longrightarrow> looping t fd b (only fd w) (alone t fd S)"
  by (auto simp: looping_def)

lemma looping_sent: "looping t fd b w S \<Longrightarrow> sent_to fd (ts_os S) = sent_to fd w"
  by (auto simp: looping_def thread_os_def sent_to_def)

lemma looping_continues:
  assumes "looping t fd b w S" and "threaded_round M P (ts_services S) fd b w = Inr (Continue, b1, w1)"
  obtains S' where "thread_step M P t S = Inr (S', None)" and "looping t fd b1 w1 S'"
    and "ts_services S' = ts_services S"
  using assms by (auto simp: looping_def thread_step_def put_thread_def thread_os_def)

lemma looping_rounds:
  assumes "rounds M P tab fd n bw bw'" and "looping t fd (fst bw) (snd bw) S" and "ts_services S = tab"
  shows "\<exists>S'. interleaving M P (replicate n (Iterate t)) S S' \<and> looping t fd (fst bw') (snd bw') S' \<and>
    ts_services S' = tab"
  using assms
proof (induction arbitrary: S rule: rounds.induct)
  case (another b w b1 w1 n bw)
  have l: "looping t fd b w S" "threaded_round M P (ts_services S) fd b w = Inr (Continue, b1, w1)"
    using another.prems another.hyps(1) by simp_all
  obtain S1 where S1: "thread_step M P t S = Inr (S1, None)" "looping t fd b1 w1 S1" "ts_services S1 = ts_services S"
    by (rule looping_continues [OF l])
  with another.IH [of S1] another.prems(2) show ?case by auto
qed auto

lemma looping_leaves:
  assumes "looping t fd b w S" and "length (to_read fd w) < 12" and "os_fds w fd \<noteq> None"
    and "end_errno fd w \<noteq> EINTR"
  obtains S1 S2 where "thread_step M P t S = Inr (S1, None)" and "thread_step M P t S1 = Inr (S2, None)"
    and "ts_threads S2 t = None" and "os_fds (ts_os S2) fd = None"
proof -
  obtain w' where "threaded_round M P (ts_services S) fd b w = Inr (Break, b, destroy_connection fd w')"
    by (rule threaded_round_leaves [OF assms(2-4)])
  then obtain th S1 where S1: "thread_step M P t S = Inr (S1, None)" "ts_threads S1 t = Some th"
      "th_phase th = Leaving" "th_fd th = fd"
    using assms(1) by (fastforce simp: looping_def thread_step_def put_thread_def)
  show ?thesis
    by (rule that [OF S1(1), of "put_thread t None (destroy_connection fd (thread_os th S1)) S1"])
      (use S1 in \<open>auto simp: thread_step_def put_thread_def\<close>)
qed

text \<open>
  \<open>progress\<close>: what a thread with these requests to answer has done after \<open>n\<close> iterations; two
  more take it out of the loop and end it.
\<close>

definition progress ::
  "machine \<Rightarrow> 'u protocol \<Rightarrow> nat \<Rightarrow> nat \<Rightarrow> byte list \<Rightarrow> byte list list \<Rightarrow> nat \<Rightarrow> 'm tserver \<Rightarrow> bool" where
  "progress M P t fd sent0 replies n S \<longleftrightarrow>
     (n \<le> length replies \<longrightarrow> sent_to fd (ts_os S) = sent0 @ concat (take n replies)) \<and>
     (n < length replies + 2 \<longrightarrow> (\<exists>S'. thread_step M P t S = Inr (S', None))) \<and>
     (n = length replies + 2 \<longrightarrow> ts_threads S t = None \<and> os_fds (ts_os S) fd = None)"

definition serves_all :: "machine \<Rightarrow> 'u protocol \<Rightarrow> 'm services \<Rightarrow> (byte list \<times> byte list) list \<Rightarrow> byte list list \<Rightarrow> bool" where
  "serves_all M P tab = list_all2 (\<lambda>r reply. expected_reply M P tab (fst r) (snd r) = Some reply \<and> within_2gb r reply)"

lemma alone_upto:
  assumes "looping t fd b w S" and "wf_pbuf b" and "os_fds w fd \<noteq> None" and "write_answers fd w = Some []"
    and "end_errno fd w \<noteq> EINTR" and "to_read fd w = concat (map request_frame requests) @ partial"
    and "\<And>n. can_alloc M n" and "sized (proto_response P)" and "all_sized (ts_services S)"
    and "serves_all M P (ts_services S) requests replies" and "n \<le> length replies"
  shows "\<exists>b1 w1 S'. interleaving M P (replicate n (Iterate t)) S S' \<and> looping t fd b1 w1 S' \<and>
    sent_to fd w1 = sent_to fd w @ concat (take n replies) \<and> os_fds w1 fd \<noteq> None \<and> end_errno fd w1 \<noteq> EINTR \<and>
    to_read fd w1 = concat (map request_frame (drop n requests)) @ partial"
proof -
  have len: "length requests = length replies"
    using assms(10) by (auto simp: serves_all_def dest: list_all2_lengthD)
  have tr: "to_read fd w = concat (map request_frame (take n requests)) @
      concat (map request_frame (drop n requests)) @ partial"
    unfolding assms(6) by (simp flip: append_assoc concat_append map_append)
  have l2: "list_all2 (\<lambda>r reply. expected_reply M P (ts_services S) (fst r) (snd r) = Some reply \<and> within_2gb r reply)
      (take n requests) (take n replies)"
    using assms(10) by (simp add: serves_all_def list_all2_takeI)
  from rounds_answer [OF l2 assms(2-5) tr assms(7-9)] obtain b1 w1 where
    r: "rounds M P (ts_services S) fd n (b, w) (b1, w1)" "sent_to fd w1 = sent_to fd w @ concat (take n replies)"
      "to_read fd w1 = concat (map request_frame (drop n requests)) @ partial"
      "os_fds w1 fd \<noteq> None" "end_errno fd w1 \<noteq> EINTR" using assms(11) len by auto
  have "\<exists>S'. interleaving M P (replicate n (Iterate t)) S S' \<and> looping t fd b1 w1 S'"
    using looping_rounds [OF r(1), of t S] assms(1) by auto
  with r(2-) show ?thesis by blast
qed

lemma next_iteration:
  assumes "interleaving M P (replicate n (Iterate t)) S S1" and "interleaving M P (replicate (Suc n) (Iterate t)) S S2"
  shows "thread_step M P t S1 = Inr (S2, None)"
proof -
  have "interleaving M P (replicate n (Iterate t) @ [Iterate t]) S S2"
    using assms(2) by (simp add: replicate_append_same)
  then show ?thesis
    using interleaving_deterministic [OF assms(1)] by (auto simp: interleaving_append)
qed

lemma alone_progress:
  assumes "looping t fd b w S" and "wf_pbuf b" and "os_fds w fd \<noteq> None" and "write_answers fd w = Some []"
    and "end_errno fd w \<noteq> EINTR" and "to_read fd w = concat (map request_frame requests) @ partial"
    and "length partial < 12" and "\<And>n. can_alloc M n" and "sized (proto_response P)" and "all_sized (ts_services S)"
    and "serves_all M P (ts_services S) requests replies" and "n \<le> length replies + 2"
  shows "\<exists>S'. interleaving M P (replicate n (Iterate t)) S S' \<and> progress M P t fd (sent_to fd w) replies n S'"
proof -
  let ?L = "length replies" and ?its = "\<lambda>k. replicate k (Iterate t)"
  note upto = alone_upto [OF assms(1-6,8-11)]
  obtain b1 w1 R where R: "interleaving M P (?its ?L) S R" "looping t fd b1 w1 R" "os_fds w1 fd \<noteq> None"
    "end_errno fd w1 \<noteq> EINTR" "to_read fd w1 = partial" "sent_to fd w1 = sent_to fd w @ concat replies"
    using upto [of ?L] assms(11) by (auto simp: serves_all_def dest: list_all2_lengthD)
  obtain S1 S2 where leave: "thread_step M P t R = Inr (S1, None)" "thread_step M P t S1 = Inr (S2, None)"
      "ts_threads S2 t = None" "os_fds (ts_os S2) fd = None"
    by (rule looping_leaves [OF R(2) _ R(3,4)]) (use R(5) assms(7) in simp)
  have suffix: "interleaving M P (?its (?L + k)) S T" if "interleaving M P (?its k) R T" for k T
    using R(1) that unfolding replicate_add interleaving_append by blast
  consider "n < ?L" | "n = ?L" | "n = ?L + 1" | "n = ?L + 2" using assms(12) by linarith
  then show ?thesis
  proof cases
    case 1
    obtain S' b' w' where S': "interleaving M P (?its n) S S'" "looping t fd b' w' S'"
      "sent_to fd w' = sent_to fd w @ concat (take n replies)"
      using upto [of n] 1 by auto
    obtain S'' where "interleaving M P (?its (Suc n)) S S''" using upto [of "Suc n"] 1 by auto
    with next_iteration [OF S'(1) this] S' looping_sent [OF S'(2)] 1 show ?thesis by (auto simp: progress_def)
  next
    case 2
    then show ?thesis using R(1,6) leave(1) looping_sent [OF R(2)] by (auto simp: progress_def)
  next
    case 3
    then show ?thesis using suffix [of 1 S1] leave by (auto simp: progress_def)
  next
    case 4
    then show ?thesis using suffix [of 2 S2] leave by (auto simp: progress_def numeral_2_eq_2)
  qed
qed

lemma enabled_alone:
  assumes "owns t fd S"
  shows "(\<exists>S'. thread_step M P t (alone t fd S) = Inr (S', None)) \<longleftrightarrow> (\<exists>S'. thread_step M P t S = Inr (S', None))"
proof -
  have "thread_step M P t (alone t fd S) = map_sum id (map_prod (alone t fd) id) (thread_step M P t S)"
    by (rule alone_step) (use assms in \<open>auto simp: owns_def\<close>)
  then show ?thesis by (cases "thread_step M P t S") auto
qed

lemma own_activities:
  assumes "StopCalled \<notin> set acts"
  shows "filter (concerns t) acts = replicate (count_list acts (Iterate t)) (Iterate t)"
  using assms
proof (induction acts)
  case (Cons a acts)
  then show ?case by (cases a) auto
qed simp

subsection \<open>Properties\<close>

text \<open>
  C9. Threads with descriptors of their own do not interfere: take two runs of the server in which one
  thread is the only one that holds its descriptor number, the number is not given to a new client, and
  the iterations of this thread and the calls of \<open>Stop\<close> come in the same order, with whatever other
  clients, accepted and served in between. If the two servers look the same to this thread at the start,
  they do at the end: its descriptor, with all that is sent and received there, its buffer and its
  \<open>errno\<close>. (Without the proviso they do interfere, by the second close of a descriptor.)
\<close>

theorem threads_do_not_interfere:
  assumes "interleaving M P acts1 S1 S1'" and "interleaving M P acts2 S2 S2'"
    and "owns t fd S1" and "owns t fd S2" and "alone t fd S1 = alone t fd S2"
    and "\<And>s. NewClient fd s \<notin> set acts1 \<union> set acts2"
    and "filter (concerns t) acts1 = filter (concerns t) acts2"
  shows "alone t fd S1' = alone t fd S2'"
proof -
  have "interleaving M P (filter (concerns t) acts1) (alone t fd S1) (alone t fd S1')"
    "interleaving M P (filter (concerns t) acts2) (alone t fd S2) (alone t fd S2')"
    using interleaving_projection [OF assms(1,3)] interleaving_projection [OF assms(2,4)] assms(6) by auto
  with assms(5,7) interleaving_deterministic show ?thesis by metis
qed

text \<open>
  C5. A client is served whatever the other threads do, as long as its thread is the only one that
  holds its descriptor number, the number is not given out again and \<open>Stop\<close> is not called. When it
  sends requests for known methods, each and its reply of at most \<open>2 ^ 31\<close> bytes, takes all that is
  written to it and then disconnects, not while \<open>errno\<close> is \<open>EINTR\<close>, and there is memory, its
  thread has after \<open>n\<close> iterations of its own, interleaved with those of the others in any such way, sent
  exactly the first \<open>n\<close> replies; it can always go on until it has ended, which it has with two more
  iterations, its descriptor closed. (In an excluded interleaving, the second close of another thread
  can take its descriptor away.)
\<close>

theorem clients_served_concurrently:
  assumes "looping t fd b w S" and "owns t fd S" and "wf_pbuf b" and "os_fds w fd \<noteq> None"
    and "write_answers fd w = Some []" and "end_errno fd w \<noteq> EINTR"
    and "to_read fd w = concat (map request_frame requests) @ partial" and "length partial < 12"
    and "\<And>n. can_alloc M n" and "sized (proto_response P)" and "all_sized (ts_services S)"
    and "serves_all M P (ts_services S) requests replies"
    and "interleaving M P acts S S'" and "\<And>s. NewClient fd s \<notin> set acts" and "StopCalled \<notin> set acts"
    and "n = count_list acts (Iterate t)"
  shows "(n \<le> length requests \<longrightarrow> sent_to fd (ts_os S') = sent_to fd w @ concat (take n replies)) \<and>
    (n < length requests + 2 \<longrightarrow> (\<exists>S''. thread_step M P t S' = Inr (S'', None))) \<and>
    (n = length requests + 2 \<longrightarrow> ts_threads S' t = None \<and> os_fds (ts_os S') fd = None) \<and>
    n \<le> length requests + 2"
proof -
  let ?L = "length replies"
  have len: "length requests = ?L" using assms(12) by (auto simp: serves_all_def dest: list_all2_lengthD)
  have run: "interleaving M P (replicate n (Iterate t)) (alone t fd S) (alone t fd S')" and o: "owns t fd S'"
    using interleaving_projection [OF assms(13,2)] assms(14) own_activities [OF assms(15)] assms(16) by auto
  have solo: "\<exists>T. interleaving M P (replicate k (Iterate t)) (alone t fd S) T \<and>
      progress M P t fd (sent_to fd w) replies k T" if "k \<le> ?L + 2" for k
    using alone_progress [OF looping_alone [OF assms(1)] assms(3) _ _ _ _ assms(8-10), of requests replies k]
      assms(4-7,11,12) that by simp
  have le: "n \<le> ?L + 2"
  proof (rule ccontr)
    assume "\<not> n \<le> ?L + 2"
    then obtain j where n: "n = ?L + 2 + Suc j" by (metis less_iff_Suc_add linorder_not_le add_Suc_right)
    obtain T where T: "interleaving M P (replicate (?L + 2) (Iterate t)) (alone t fd S) T"
      "ts_threads T t = None" using solo [of "?L + 2"] by (auto simp: progress_def)
    then have "\<exists>R. interleaving M P (replicate (Suc j) (Iterate t)) T R"
      using run interleaving_deterministic [OF T(1)] unfolding n replicate_add [of "?L + 2"] interleaving_append
      by blast
    with T(2) show False by (simp add: thread_step_def)
  qed
  obtain T where "interleaving M P (replicate n (Iterate t)) (alone t fd S) T"
    "progress M P t fd (sent_to fd w) replies n T" using solo [OF le] by blast
  with interleaving_deterministic [OF run] have "progress M P t fd (sent_to fd w) replies n (alone t fd S')" by auto
  then show ?thesis
    using le enabled_alone [OF o, of M P] len by (simp add: progress_def)
qed

subsection \<open>Two clients\<close>

text \<open>One sends a request and the beginning of another, the other has left.\<close>

definition two_clients :: "byte list tserver" where
  "two_clients = \<lparr>ts_services = echo_tab, ts_stopped = False,
     ts_threads = [0 \<mapsto> \<lparr>th_fd = 5, th_buf = null_buf, th_phase = Looping, th_errno = 0\<rparr>,
                   1 \<mapsto> \<lparr>th_fd = 6, th_buf = null_buf, th_phase = Looping, th_errno = 0\<rparr>],
     ts_next = 2, ts_os = busy_os\<lparr>os_fds := (os_fds busy_os)(6 \<mapsto> sock_with [])\<rparr>\<rparr>"

definition busy_request :: "byte list \<times> byte list" where "busy_request = (echo_meta, [1, 2, 3])"
definition busy_reply :: "byte list" where "busy_reply = frame 2 0 3 ([16, 1] @ [1, 2, 3])"

lemma two_clients_looping:
  "looping 0 5 null_buf (ts_os two_clients) two_clients" "looping 1 6 null_buf (ts_os two_clients) two_clients"
  "owns 0 5 two_clients" "ts_services two_clients = echo_tab"
  by (auto simp: looping_def two_clients_def thread_os_def busy_os_def quiet_os_def owns_def split: if_splits)

lemma two_clients_os:
  "os_fds (ts_os two_clients) 5 \<noteq> None" "write_answers 5 (ts_os two_clients) = Some []"
  "end_errno 5 (ts_os two_clients) \<noteq> EINTR" "sent_to 5 (ts_os two_clients) = []"
  "to_read 5 (ts_os two_clients) = concat (map request_frame [busy_request]) @ [7]"
  by (simp_all add: two_clients_def busy_os_def write_answers_def end_errno_def sent_to_def to_read_def
      quiet_os_def EINTR_def busy_request_def request_frame_def echo_meta_length)

lemma two_clients_serves: "serves_all little_host varint_protocol (ts_services two_clients) [busy_request] [busy_reply]"
  using echo_expected_reply
  by (simp add: two_clients_looping(4) serves_all_def echo_tab_def within_2gb_def echo_meta_length
      busy_request_def busy_reply_def)

lemma two_clients_sized: "sized (proto_response varint_protocol)" "all_sized (ts_services two_clients)"
  using echo_sized by (simp_all add: two_clients_looping(4) echo_tab_def)

lemma two_clients_runs:
  obtains S1 S2 where "interleaving little_host varint_protocol [Iterate 0] two_clients S1"
    and "interleaving little_host varint_protocol [Iterate 1, Iterate 0] two_clients S2"
proof -
  let ?step = "thread_step little_host varint_protocol"
  have "length [7 :: byte] < 12" by simp
  from alone_progress [OF two_clients_looping(1) wf_null_buf two_clients_os(1-3,5) this example_hosts(3)
      two_clients_sized two_clients_serves, of 0]
  obtain S1 where S1: "?step 0 two_clients = Inr (S1, None)" by (auto simp: progress_def)
  obtain S2 where S2: "?step 1 two_clients = Inr (S2, None)"
    by (rule looping_leaves [OF two_clients_looping(2), of little_host varint_protocol])
      (simp_all add: two_clients_def to_read_def end_errno_def EINTR_def busy_os_def quiet_os_def)
  have "owns 0 5 S2" "alone 0 5 S2 = alone 0 5 two_clients"
    using owns_step [OF two_clients_looping(3) S2] step_of_another [OF two_clients_looping(3) _ S2] by simp_all
  then obtain S3 where "?step 0 S2 = Inr (S3, None)"
    using S1 enabled_alone [of 0 5 S2] enabled_alone [OF two_clients_looping(3)] by metis
  with S1 S2 that show ?thesis by fastforce
qed

theorem threads_do_not_interfere_witness:
  "\<exists>S1 S2. interleaving little_host varint_protocol [Iterate 0] two_clients S1 \<and>
    interleaving little_host varint_protocol [Iterate 1, Iterate 0] two_clients S2 \<and>
    alone 0 5 S1 = alone 0 5 S2"
proof (rule two_clients_runs)
  fix S1 S2
  assume r: "interleaving little_host varint_protocol [Iterate 0] two_clients S1"
    "interleaving little_host varint_protocol [Iterate 1, Iterate 0] two_clients S2"
  have "alone 0 5 S1 = alone 0 5 S2"
    by (rule threads_do_not_interfere [OF r two_clients_looping(3,3) refl]) simp_all
  with r show ?thesis by blast
qed

theorem clients_served_concurrently_witness:
  "\<exists>S. interleaving little_host varint_protocol [Iterate 1, Iterate 0] two_clients S \<and>
    sent_to 5 (ts_os S) = frame 2 0 3 ([16, 1] @ [1, 2, 3]) \<and>
    (\<exists>S'. thread_step little_host varint_protocol 0 S = Inr (S', None))"
proof (rule two_clients_runs)
  fix S1 S2
  assume r: "interleaving little_host varint_protocol [Iterate 1, Iterate 0] two_clients S2"
  have seven: "length [7 :: byte] < 12" by simp
  have acts: "\<And>s. NewClient 5 s \<notin> set [Iterate 1, Iterate 0]" "StopCalled \<notin> set [Iterate 1, Iterate 0]"
    "1 = count_list [Iterate 1, Iterate 0] (Iterate 0)" by simp_all
  from clients_served_concurrently [OF two_clients_looping(1,3) wf_null_buf two_clients_os(1-3,5) seven
      example_hosts(3) two_clients_sized two_clients_serves r acts] two_clients_os(4) r
  show ?thesis by (simp add: busy_reply_def) blast
qed

end
