(* ===== verification/Mixed_Endpoints.thy ===== *)
theory Mixed_Endpoints
  imports Async_Channel_Connect Threaded_Interleaving
begin

section \<open>The asynchronous channel and the simple server\<close>

text \<open>
  The repository's clients and servers speak one protocol, but not every pair of them can work
  together. Here: what the asynchronous channel does with the reply of a simple server, which
  carries no id.
\<close>

subsection \<open>Calls that a failing connection ends\<close>

lemma complete_failed:
  "Failed (ch_ctls S a) \<Longrightarrow> Failed (ch_ctls (complete D (SetFailed x) t S) a)"
  by (auto simp: complete_def run_done_def set_ctl_def put_task_def Let_def Failed_def SetFailed_def
      split: option.split)

lemma fold_complete_failed:
  "Failed (ch_ctls S a) \<Longrightarrow> Failed (ch_ctls (fold (\<lambda>(i, t). complete D (SetFailed x) t) xs S) a)"
  by (induction xs arbitrary: S) (auto simp: complete_failed split: prod.split)

lemma completed_failed:
  assumes "ch_tasks S t = Some T" and "\<not> t_called T"
  shows "Failed (ch_ctls (complete D (SetFailed x) t S) (t_controller T))"
  using assms
  by (auto simp: complete_def run_done_def set_ctl_def put_task_def Let_def Failed_def SetFailed_def
      split: option.split)

lemma fold_completed_failed:
  assumes "ch_tasks S t = Some T" and "\<not> t_called T" and "(i, t) \<in> set xs"
  shows "Failed (ch_ctls (fold (\<lambda>(i, t). complete D (SetFailed x) t) xs S) (t_controller T))"
  using assms
proof (induction xs arbitrary: S)
  case (Cons y ys)
  obtain j u where y: "y = (j, u)" by (cases y)
  show ?case
  proof (cases "u = t")
    case True
    with Cons.prems(1,2) y show ?thesis by (simp add: completed_failed fold_complete_failed)
  next
    case False
    with Cons y show ?thesis by (auto simp: complete_tasks split: option.splits)
  qed
qed simp

lemma destroy_fails_calls:
  assumes "ch_objs S c = Some k" and "(i, t) \<in> set (cc_outgoing k)" and "ch_tasks S t = Some T" and "\<not> t_called T"
  shows "Failed (ch_ctls (client_destroy M D e c S) (t_controller T))"
proof -
  have "ch_tasks (put_cconn c (close_socket k) S) t = Some T" using assms(3) by simp
  from fold_completed_failed [OF this assms(4,2)] show ?thesis
    unfolding client_destroy_as [OF assms(1)] by (simp only: put_cconn_simps)
qed

subsection \<open>A reply that does not parse\<close>

lemma unparsable_payload_step:
  assumes "ch_objs S c = Some k"
    and "buf_p (cc_buf k) = Some (host_header M (of_nat (length meta)) 0 (of_nat (length param)) @ rest)"
    and "length meta + length param \<le> length rest"
    and "12 + length meta + length param \<le> 2147483648" and "ParseFromArray (cp_response P) meta = None"
  obtains k1 where "client_run M P D (PayloadArrived c (of_nat (length meta + length param)) (meta @ param) None) S =
      Inr (client_destroy M D invalid_argument c (put_cconn c k1 S),
        Some (ClientRuntimeError ''carrot-rpc: failed to parse rpc request metadata''))"
    and "cc_outgoing k1 = cc_outgoing k"
proof -
  let ?hh = "host_header M (of_nat (length meta)) 0 (of_nat (length param))"
  let ?x = "ReadPayloadOp (of_nat (length meta + length param))"
  define blk where "blk = ?hh @ (meta @ param) @ drop (length meta + length param) rest"
  define k0 where "k0 = k\<lparr>cc_ops := remove1 ?x (cc_ops k), cc_buf := (cc_buf k)\<lparr>buf_p := Some blk\<rparr>\<rparr>"
  have u: "unat (of_nat (length meta) :: u32) = length meta" using assms(4) by (simp add: of_nat_size)
  have st: "store_at 12 (meta @ param) (?hh @ rest) = Inr blk"
    using store_after_header [of "meta @ param" rest] assms(3) by (simp add: blk_def)
  have cs: "client_store c off_data (meta @ param) (op_done c ?x S) = Inr (put_cconn c k0 S)"
    using assms(1,2) st by (simp add: client_store_def op_done_def k0_def)
  have lds: "load_u32 M 0 blk = Inr (of_nat (length meta))" "load_at 12 (length meta) blk = Inr meta"
    by (simp_all add: blk_def load_at_def)
  show ?thesis
    by (rule that [of k0])
      (use cs lds u assms(5) in \<open>simp_all add: client_run_def client_read_payload_def k0_def\<close>)
qed

lemma unparsable_reply_fails:
  assumes "ch_objs S c = Some k" and "buf_p (cc_buf k) = Some blk" and "12 \<le> length blk"
    and "wf_pbuf (cc_buf k)" and "\<And>n. can_alloc M n" and "12 + length rs1 + length rs2 \<le> 2147483648"
    and "reply = frame (of_nat (length rs1)) 0 (of_nat (length rs2)) (rs1 @ rs2)"
    and "ParseFromArray (cp_response P) rs1 = None"
  shows "\<exists>S1 S2 k'. client_run M P D (HeaderArrived c (take 12 reply) None) S = Inr (S1, None) \<and>
    client_run M P D (PayloadArrived c (of_nat (length reply - 12)) (drop 12 reply) None) S1 =
      Inr (S2, Some (ClientRuntimeError ''carrot-rpc: failed to parse rpc request metadata'')) \<and>
    ch_objs S2 c = Some k' \<and> \<not> cc_open k' \<and> cc_outgoing k' = [] \<and>
    (\<forall>i t T. (i, t) \<in> set (cc_outgoing k) \<longrightarrow> ch_tasks S t = Some T \<longrightarrow> \<not> t_called T \<longrightarrow>
      Failed (ch_ctls S2 (t_controller T)))"
proof -
  have reply: "take 12 reply = wire_header (of_nat (length rs1)) 0 (of_nat (length rs2))"
    "drop 12 reply = rs1 @ rs2" "length reply - 12 = length rs1 + length rs2"
    by (simp_all add: assms(7) frame_def)
  obtain b' rest where h: "client_run M P D (HeaderArrived c (take 12 reply) None) S =
      Inr (put_cconn c (k\<lparr>cc_n := of_nat (length rs1 + length rs2), cc_buf := b',
             cc_ops := ReadPayloadOp (of_nat (length rs1 + length rs2)) # remove1 ReadHeaderOp (cc_ops k)\<rparr>) S, None)"
    and b: "buf_p b' = Some (host_header M (of_nat (length rs1)) 0 (of_nat (length rs2)) @ rest)"
      "length rs1 + length rs2 \<le> length rest"
    unfolding reply(1) by (rule client_header_step [OF assms(1-6), where P = P and D = D])
  let ?k = "k\<lparr>cc_n := of_nat (length rs1 + length rs2), cc_buf := b',
             cc_ops := ReadPayloadOp (of_nat (length rs1 + length rs2)) # remove1 ReadHeaderOp (cc_ops k)\<rparr>"
  let ?S1 = "put_cconn c ?k S"
  have o: "ch_objs ?S1 c = Some ?k" "buf_p (cc_buf ?k) = Some (host_header M (of_nat (length rs1)) 0 (of_nat (length rs2)) @ rest)"
    using b(1) by simp_all
  obtain k1 where p: "client_run M P D (PayloadArrived c (of_nat (length rs1 + length rs2)) (rs1 @ rs2) None) ?S1 =
      Inr (client_destroy M D invalid_argument c (put_cconn c k1 ?S1),
        Some (ClientRuntimeError ''carrot-rpc: failed to parse rpc request metadata''))"
    and k1: "cc_outgoing k1 = cc_outgoing ?k"
    by (rule unparsable_payload_step [OF o b(2) assms(6,8), where D = D])
  let ?S2 = "put_cconn c k1 ?S1"
  have o2: "ch_objs ?S2 c = Some k1" by simp
  have failed: "Failed (ch_ctls (client_destroy M D invalid_argument c ?S2) (t_controller T))"
    if "(i, t) \<in> set (cc_outgoing k)" "ch_tasks S t = Some T" "\<not> t_called T" for i t T
    by (rule destroy_fails_calls [OF o2]) (use that k1 in simp_all)
  show ?thesis
    unfolding reply(2,3) using h p destroy_effect(1) [OF o2, of M D invalid_argument] failed
    by (auto simp del: of_nat_add)
qed

lemma expected_reply_frame:
  fixes tab :: "'m services"
  assumes "expected_reply M P tab meta param = Some reply" and "sized (proto_response P)" and "all_sized tab"
  shows "\<exists>ctl rs1 rs2 n. SerializeToArray (proto_response P) (outcome_of ctl P) n = Some rs1 \<and>
    reply = frame (of_nat (length rs1)) 0 (of_nat (length rs2)) (rs1 @ rs2)"
proof -
  obtain ctl api and response :: 'm where "reply_frame P (outcome_of ctl P) api response = Some reply"
    by (rule expected_replyE [OF assms])
  then show ?thesis by (auto simp: reply_frame_def split: option.splits)
qed

subsection \<open>Properties\<close>

text \<open>
  C11. The asynchronous channel cannot call a simple server: the server receives the request the
  channel has written, runs the method and writes the reply, but the reply has no id, so the
  channel cannot parse it: it throws, closes the connection, and fails not only this call but
  every call outstanding on the connection.
\<close>

theorem simple_server_fails_calls:
  assumes client: "ch_objs S c = Some k" "WriteOp t out \<in> set (cc_ops k)" "ch_tasks S t = Some T"
      "(t_id T, t) \<in> set (cc_outgoing k)" "\<not> t_called T"
      "buf_p (cc_buf k) = Some blk" "12 \<le> length blk" "wf_pbuf (cc_buf k)"
    and out: "out = frame (of_nat (length meta)) (of_nat (length param)) 0 (meta @ param)"
    and server: "simple_reachable M2 P2 w0 Z" "d \<in> set (ss_events Z)" "ss_objs Z d = Some l"
      "to_read (client_fd l) (ss_os Z) = out @ later" "will_accept (client_fd l) (ss_os Z)"
    and memory: "\<And>n. can_alloc M1 n" "\<And>n. can_alloc M2 n"
    and sizes: "12 + length meta + length param < 4294967296" "length reply \<le> 2147483648"
      "sized (proto_response P2)" "all_sized (ss_services Z)"
    and offered: "expected_reply M2 P2 (ss_services Z) meta param = Some reply"
    and protocol: "cp_response P1 = proto_response P2" "fresh_response P2 = Response_New L"
      "response_wire L open_stream rest consumed str_ok enc_u64 enc_enum enc_str (proto_response P2)"
      "str_ok ''''" "str_ok ''server side failure''"
  shows "\<exists>S1 Z' S2 S3 k'. client_run M1 P1 D (WriteDone c t out None) S = Inr (S1, None) \<and>
    client_callback M2 P2 True d Z = Inr (Z', None) \<and> served Z' = served Z \<and>
    sent_to (client_fd l) (ss_os Z') = sent_to (client_fd l) (ss_os Z) @ reply \<and>
    client_run M1 P1 D (HeaderArrived c (take 12 reply) None) S1 = Inr (S2, None) \<and>
    client_run M1 P1 D (PayloadArrived c (of_nat (length reply - 12)) (drop 12 reply) None) S2 =
      Inr (S3, Some (ClientRuntimeError ''carrot-rpc: failed to parse rpc request metadata'')) \<and>
    ch_objs S3 c = Some k' \<and> \<not> cc_open k' \<and> cc_outgoing k' = [] \<and>
    Failed (ch_ctls S3 (t_controller T)) \<and>
    (\<forall>i u U. (i, u) \<in> set (cc_outgoing k) \<longrightarrow> ch_tasks S u = Some U \<longrightarrow> \<not> t_called U \<longrightarrow>
      Failed (ch_ctls S3 (t_controller U)))"
proof -
  let ?k = "k\<lparr>cc_ops := remove1 (WriteOp t out) (cc_ops k)\<rparr>" and ?T = "T\<lparr>t_state := STATE_READ_DATA\<rparr>"
  let ?S1 = "put_task t ?T (put_cconn c ?k S)"
  have small: "length reply < 4294967296" using sizes(2) by simp
  obtain Z' where Z': "client_callback M2 P2 True d Z = Inr (Z', None)" "served Z' = served Z"
    "sent_to (client_fd l) (ss_os Z') = sent_to (client_fd l) (ss_os Z) @ reply"
    using simple_request_served [OF server(1-3) server(4) [unfolded out] sizes(1) memory(2) server(5) sizes(3,4)
        offered small] by blast
  obtain ctl rs1 rs2 n where rs: "SerializeToArray (proto_response P2) (outcome_of ctl P2) n = Some rs1"
    and reply: "reply = frame (of_nat (length rs1)) 0 (of_nat (length rs2)) (rs1 @ rs2)"
    using expected_reply_frame [OF offered sizes(3,4)] by blast
  have none: "ParseFromArray (cp_response P1) rs1 = None"
    unfolding protocol(1) by (rule outcome_unparsable [OF protocol(3,2,4,5) rs])
  have le: "12 + length rs1 + length rs2 \<le> 2147483648" using sizes(2) reply by simp
  have o: "ch_objs ?S1 c = Some ?k" "buf_p (cc_buf ?k) = Some blk" "wf_pbuf (cc_buf ?k)"
    using client(1,6,8) by simp_all
  obtain S2 S3 k' where 3: "client_run M1 P1 D (HeaderArrived c (take 12 reply) None) ?S1 = Inr (S2, None)"
      "client_run M1 P1 D (PayloadArrived c (of_nat (length reply - 12)) (drop 12 reply) None) S2 =
        Inr (S3, Some (ClientRuntimeError ''carrot-rpc: failed to parse rpc request metadata''))"
      "ch_objs S3 c = Some k'" "\<not> cc_open k'" "cc_outgoing k' = []"
    and failed: "\<forall>i u U. (i, u) \<in> set (cc_outgoing ?k) \<longrightarrow> ch_tasks ?S1 u = Some U \<longrightarrow> \<not> t_called U \<longrightarrow>
      Failed (ch_ctls S3 (t_controller U))"
    using unparsable_reply_fails [where D = D, OF o(1,2) client(7) o(3) memory(1) le reply none] by blast
  have "Failed (ch_ctls S3 (t_controller U))"
    if u: "(i, u) \<in> set (cc_outgoing k)" "ch_tasks S u = Some U" "\<not> t_called U" for i u U
  proof (cases "u = t")
    case True
    then have "U = T" using u(2) client(3) by simp
    with failed client(4,5) have "Failed (ch_ctls S3 (t_controller ?T))" by fastforce
    with \<open>U = T\<close> show ?thesis by simp
  next
    case False
    with failed u show ?thesis by simp
  qed
  with write_done_step [OF client(1,3), of M1 P1 D out] Z' 3 client(3-5) show ?thesis by blast
qed

text \<open>The reply of the echo service to a request of the asynchronous channel.\<close>

lemma echo_reply_frame:
  "reply_frame varint_protocol (outcome_of (CarrotController_default None 0) varint_protocol) bytes_api [1, 2, 3]
    = Some (frame 2 0 3 ([16, 1] @ [1, 2, 3]))"
proof -
  have "SerializeToArray (proto_response varint_protocol) (outcome_of (CarrotController_default None 0) varint_protocol)
      (ByteSize (proto_response varint_protocol) (outcome_of (CarrotController_default None 0) varint_protocol))
      = Some [16, 1]"
    by code_simp
  then show ?thesis unfolding reply_frame_def by (simp add: bytes_api_def)
qed

lemma first_echo_expected:
  assumes "ParseFromArray (cp_request varint_client) meta = Some (make_request varint_client first_echo)"
  shows "expected_reply little_host varint_protocol echo_tab meta [1, 2, 3] = Some (frame 2 0 3 ([16, 1] @ [1, 2, 3]))"
proof -
  have "rq_method_identity (make_request varint_client first_echo) = identity_of (md_service echo_desc) (md_name echo_desc)"
    by (simp add: make_request_def first_echo_def)
  then have "dispatch_to echo_tab (rq_method_identity (make_request varint_client first_echo)) =
      Target \<lparr>cs_s = echo_service, cs_c = None\<rparr> echo_method"
    using first_echo_facts(5) by (simp add: echo_accept(3) echo_tab_def)
  moreover have "ParseFromArray bytes_api [1, 2, 3] = Some [1, 2, 3]" by (simp add: bytes_api_def)
  ultimately show ?thesis
    using assms echo_reply_frame unfolding varint_codecs(3)
    by (simp add: expected_reply_def echo_desc_apis) (simp add: echo_method_def little_host_def)
qed

theorem simple_server_fails_calls_witness:
  "\<exists>(S :: byte list channel) k out S1 Z' S2 S3. ch_objs S 0 = Some k \<and> WriteOp 0 out \<in> set (cc_ops k) \<and>
    client_run little_host varint_client quiet (WriteDone 0 0 out None) S = Inr (S1, None) \<and>
    client_callback little_host varint_protocol True 0 (simple_serving out) = Inr (Z', None) \<and>
    sent_to 5 (ss_os Z') = frame 2 0 3 ([16, 1] @ [1, 2, 3]) \<and>
    client_run little_host varint_client quiet
      (HeaderArrived 0 (take 12 (frame 2 0 3 ([16, 1] @ [1, 2, 3]))) None) S1 = Inr (S2, None) \<and>
    client_run little_host varint_client quiet (PayloadArrived 0 5 [16, 1, 1, 2, 3] None) S2 =
      Inr (S3, Some (ClientRuntimeError ''carrot-rpc: failed to parse rpc request metadata'')) \<and>
    Failed (ch_ctls S3 0)"
proof -
  let ?reply = "frame 2 0 3 ([16, 1] @ [1, 2, 3 :: byte])"
  have S0: "ch_conns demo_start (server_key demo_start 0) = None" "ch_next_conn demo_start = 0" "ch_next_task demo_start = 0"
    by (simp_all add: demo_start_def CarrotAsyncChannel_new_def)
  obtain S :: "byte list channel" and k b out blk where S: "ch_objs S 0 = Some k" "carries varint_client first_echo out"
      "WriteOp 0 out \<in> set (cc_ops k)" "cc_outgoing k = [(1, 0)]" "wf_pbuf (cc_buf k)" "buf_p (cc_buf k) = Some blk"
      "12 \<le> length blk" "ch_tasks S 0 = Some (first_echo\<lparr>t_buf := b, t_state := STATE_WRITE_TO_SERVER\<rparr>)"
    by (rule first_call_written [OF S0(1) first_echo_def first_echo_sends example_hosts(3), where D = quiet,
          unfolded S0(2,3)]) auto
  let ?T = "first_echo\<lparr>t_buf := b, t_state := STATE_WRITE_TO_SERVER\<rparr>"
  obtain meta param where out: "out = frame (of_nat (length meta)) (of_nat (length param)) 0 (meta @ param)"
    and parts: "ParseFromArray (cp_request varint_client) meta = Some (make_request varint_client first_echo)"
      "ParseFromArray (md_request_api (t_method first_echo)) param = Some (t_request first_echo)"
      "length meta = ByteSize (cp_request varint_client) (make_request varint_client first_echo)"
    using S(2) unfolding carries_def by blast
  have param: "param = [1, 2, 3]" using parts(2) by (simp add: first_echo_def echo_desc_apis bytes_api_def)
  have "length meta = 13" unfolding parts(3) by code_simp
  then have sizes: "12 + length meta + length param < 4294967296" "length ?reply \<le> 2147483648" by (simp_all add: param)
  have T: "(t_id ?T, 0) \<in> set (cc_outgoing k)" "\<not> t_called ?T" "t_controller ?T = 0" using S(4) by (simp_all add: first_echo_def)
  have Z: "0 \<in> set (ss_events (simple_serving out))" "ss_objs (simple_serving out) 0 = Some simple_conn"
    "to_read (client_fd simple_conn) (ss_os (simple_serving out)) = out @ []" "ss_services (simple_serving out) = echo_tab"
    "will_accept (client_fd simple_conn) (ss_os (simple_serving out))"
    by (simp_all add: simple_serving_def simple_conn_def to_read_def echo_tab_def will_accept_def write_answers_def
        accepting_def)
  have exp: "expected_reply little_host varint_protocol (ss_services (simple_serving out)) meta param = Some ?reply"
    "all_sized (ss_services (simple_serving out))"
    unfolding Z(4) param using first_echo_expected [OF parts(1)] two_clients_sized(2) two_clients_looping(4) by simp_all
  have wire: "response_wire varint_lib varint_open fst snd varint_str_ok enc_u64_value enc_enum_value
      enc_string (proto_response varint_protocol)"
    using varint_response.response_wire_axioms by (simp add: varint_protocol_def)
  have fresh: "fresh_response varint_protocol = Response_New varint_lib" "varint_str_ok ''''" "varint_str_ok ''server side failure''"
    by (simp_all add: varint_protocol_def varint_str_ok_def)
  from simple_server_fails_calls [where D = quiet, OF S(1,3,8) T(1,2) S(6,7,5) out simple_serving_reachable(2) Z(1-3,5)
      example_hosts(3) example_hosts(3) sizes two_clients_sized(1) exp(2,1) varint_codecs(4) fresh(1) wire fresh(2,3)]
  obtain S1 Z' S2 S3 where "client_run little_host varint_client quiet (WriteDone 0 0 out None) S = Inr (S1, None)"
    "client_callback little_host varint_protocol True 0 (simple_serving out) = Inr (Z', None)"
    "sent_to 5 (ss_os Z') = ?reply"
    "client_run little_host varint_client quiet (HeaderArrived 0 (take 12 ?reply) None) S1 = Inr (S2, None)"
    "client_run little_host varint_client quiet (PayloadArrived 0 (of_nat (length ?reply - 12)) (drop 12 ?reply) None) S2 =
      Inr (S3, Some (ClientRuntimeError ''carrot-rpc: failed to parse rpc request metadata''))"
    "Failed (ch_ctls S3 0)"
    by (auto simp: simple_conn_def simple_serving_def sent_to_def first_echo_def)
  moreover have "of_nat (length ?reply - 12) = (5 :: u32)" "drop 12 ?reply = [16, 1, 1, 2, 3]"
    by (simp_all add: frame_def)
  ultimately show ?thesis using S(1,3) by metis
qed

end
