(* ===== verification/Arith_Service.thy ===== *)
theory Arith_Service
  imports End_To_End
begin

section \<open>The example service: src/examples/carrotrpc-server.cpp\<close>

text \<open>
  The program under src/examples that serves arithmetic on \<open>uint64\<close> operands with the
  asynchronous server: its messages as arithmetic.pb.h declares them, its one method, and the
  server its \<open>main\<close> starts. The encodings of the messages are parameters, with \<open>message_codec\<close>
  as their contract.
\<close>

subsection \<open>Messages\<close>

datatype ArithType = Addition | Subtraction | Multiplication | Division

record ArithRequest =
  arith_type :: ArithType
  op1 :: u64
  op2 :: u64

text \<open>Messages of both types, as the service sees them; \<open>None\<close> is a response whose \<open>res\<close> is not set.\<close>

datatype arith_message = Arith_Request ArithRequest | Arith_Response "u64 option"

subsection \<open>The method\<close>

definition divisor_text :: string where
  "divisor_text = ''divisor can'' @ [CHR 0x27] @ ''t be 0''"

definition arith_compute :: "controller \<Rightarrow> ArithRequest \<Rightarrow> controller \<times> u64 option" where
  "arith_compute controller request =
     (case arith_type request of
        Addition \<Rightarrow> (controller, Some (op1 request + op2 request))
      | Subtraction \<Rightarrow> (controller, Some (op1 request - op2 request))
      | Multiplication \<Rightarrow> (controller, Some (op1 request * op2 request))
      | Division \<Rightarrow>
          if op2 request = 0 then (SetFailed divisor_text controller, Some 0)
          else (controller, Some (op1 request div op2 request)))"

definition arith_method :: "arith_message message_api \<Rightarrow> arith_message message_api \<Rightarrow> arith_message rpc_method" where
  "arith_method rq_api rs_api =
     \<lparr>request_api = rq_api, response_api = rs_api, response_new = Arith_Response None,
      call_method = (\<lambda>request controller response.
        case request of
          Arith_Request q \<Rightarrow> (case arith_compute controller q of (controller, res) \<Rightarrow>
            (controller, Arith_Response res, None))
        | Arith_Response _ \<Rightarrow> (controller, response, None))\<rparr>"

definition arith_service :: "arith_message message_api \<Rightarrow> arith_message message_api \<Rightarrow> arith_message service" where
  "arith_service rq_api rs_api =
     \<lparr>svc_name = ''ArithService'',
      find_method = (\<lambda>name. if name = ''compute'' then Some (arith_method rq_api rs_api) else None)\<rparr>"

text \<open>The server before the loop of \<open>main\<close>; \<open>done_cb\<close> is the permanent callback.\<close>

definition arith_main :: "machine \<Rightarrow> arith_message message_api \<Rightarrow> arith_message message_api \<Rightarrow> nat \<Rightarrow>
    arith_message aserver" where
  "arith_main M rq_api rs_api done_cb =
     snd (CarrotAsyncServer_RegisterService (CarrotAsyncServer_new M) (arith_service rq_api rs_api) (Some done_cb))"

text \<open>
  The loop of \<open>main\<close>, as far as the completions \<open>evs\<close> go: each runs in \<open>ios.run()\<close>, which is called
  again after an exception has been caught and printed. Next to the server, what was caught.
\<close>

primrec arith_main_loop :: "machine \<Rightarrow> 'u protocol \<Rightarrow> event list \<Rightarrow> arith_message aserver \<Rightarrow>
    (arith_message aserver \<times> exn list) res" where
  "arith_main_loop M P [] S = Inr (S, [])"
| "arith_main_loop M P (ev # evs) S =
     and_then (run_event M P ev S) (\<lambda>(S1, thrown).
     and_then (arith_main_loop M P evs S1) (\<lambda>(S2, caught).
       Inr (S2, (case thrown of None \<Rightarrow> caught | Some e \<Rightarrow> e # caught))))"

primrec completes :: "machine \<Rightarrow> 'u protocol \<Rightarrow> event list \<Rightarrow> arith_message aserver \<Rightarrow> bool" where
  "completes M P [] S = True"
| "completes M P (ev # evs) S =
     (enabled ev S \<and> (case run_event M P ev S of Inl f \<Rightarrow> True | Inr (S1, thrown) \<Rightarrow> completes M P evs S1))"

text \<open>So what holds in every reachable state of a server holds of the program, whatever it has caught.\<close>

lemma arith_main_loop_reachable:
  "server_reachable M P S \<Longrightarrow> completes M P evs S \<Longrightarrow> arith_main_loop M P evs S = Inr (S', caught) \<Longrightarrow>
   server_reachable M P S'"
  by (induction evs arbitrary: S caught) (auto simp: res_simps split: prod.splits intro: server_reachable.event)

subsection \<open>Its specification\<close>

text \<open>Arithmetic on natural numbers modulo \<open>2 ^ 64\<close>; \<open>None\<close> where there is no result.\<close>

definition arith_spec :: "ArithType \<Rightarrow> nat \<Rightarrow> nat \<Rightarrow> nat option" where
  "arith_spec t a b =
     (case t of
        Addition \<Rightarrow> Some ((a + b) mod 2 ^ 64)
      | Subtraction \<Rightarrow> Some ((a + (2 ^ 64 - b)) mod 2 ^ 64)
      | Multiplication \<Rightarrow> Some (a * b mod 2 ^ 64)
      | Division \<Rightarrow> if b = 0 then None else Some (a div b))"

lemma unat_minus_u64: "unat (a - b :: u64) = (unat a + (2 ^ 64 - unat b)) mod 2 ^ 64"
proof -
  have b: "unat b < 2 ^ 64" using unsigned_less [of b] by simp
  have "int (unat (a - b)) = (int (unat a) - int (unat b)) mod 2 ^ 64"
    by (simp add: uint_word_ariths unsigned_of_nat flip: uint_nat)
  also have "\<dots> = (int (unat a) + (2 ^ 64 - int (unat b))) mod 2 ^ 64"
    by (smt (verit) mod_add_self2)
  also have "\<dots> = int ((unat a + (2 ^ 64 - unat b)) mod 2 ^ 64)"
    using b by (simp add: of_nat_diff zmod_int add_diff_eq)
  finally show ?thesis by (simp only: of_nat_eq_iff)
qed

lemma arith_compute_meets_spec:
  assumes "arith_compute ctl q = (ctl', res)"
  shows "case arith_spec (arith_type q) (unat (op1 q)) (unat (op2 q)) of
      Some n \<Rightarrow> ctl' = ctl \<and> (\<exists>v. res = Some v \<and> unat v = n)
    | None \<Rightarrow> ctl' = SetFailed divisor_text ctl \<and> res = Some 0"
proof (cases "arith_type q = Division")
  case True
  with assms show ?thesis
    by (auto simp: arith_compute_def arith_spec_def unat_div unat_0_iff split: if_splits)
next
  case False
  with assms show ?thesis
    by (auto simp: arith_compute_def arith_spec_def unat_word_ariths unat_minus_u64 split: ArithType.splits)
qed

lemma arith_offered:
  assumes "tab ''ArithService'' = Some cs" and "cs_s cs = arith_service rq_api rs_api"
  shows "dispatch_to tab (identity_of ''ArithService'' ''compute'') = Target cs (arith_method rq_api rs_api)"
  using assms dispatch_identity [of "''ArithService''" tab "''compute''"] by (simp add: arith_service_def)

subsection \<open>Encodings for the examples\<close>

text \<open>
  The messages in the protocol buffers format, with the fields in their order and all set: an
  instance of the parameters.
\<close>

definition arith_code :: "ArithType \<Rightarrow> byte" where
  "arith_code t = (case t of Addition \<Rightarrow> 1 | Subtraction \<Rightarrow> 2 | Multiplication \<Rightarrow> 3 | Division \<Rightarrow> 4)"

definition arith_decode :: "byte \<Rightarrow> ArithType option" where
  "arith_decode b = (if b = 1 then Some Addition else if b = 2 then Some Subtraction
     else if b = 3 then Some Multiplication else if b = 4 then Some Division else None)"

definition arith_bytes :: "arith_message \<Rightarrow> byte list" where
  "arith_bytes m =
     (case m of
        Arith_Request q \<Rightarrow> [8, arith_code (arith_type q)] @ [16] @ enc_u64_value (op1 q) @ [24] @ enc_u64_value (op2 q)
      | Arith_Response None \<Rightarrow> []
      | Arith_Response (Some v) \<Rightarrow> 8 # enc_u64_value v)"

definition parse_field :: "byte \<Rightarrow> byte list \<Rightarrow> (u64 \<times> byte list) option" where
  "parse_field tag bs =
     (case bs of
        [] \<Rightarrow> None
      | b # r \<Rightarrow> if b = tag then map_option (\<lambda>(v, r). (of_nat v, r)) (dec_varint 10 r) else None)"

definition parse_arith_request :: "byte list \<Rightarrow> arith_message option" where
  "parse_arith_request bs =
     (case bs of
        tag # c # r \<Rightarrow>
          if tag \<noteq> 8 then None else
          Option.bind (arith_decode c) (\<lambda>t.
          Option.bind (parse_field 16 r) (\<lambda>(a, r).
          Option.bind (parse_field 24 r) (\<lambda>(b, r).
          if r = [] then Some (Arith_Request \<lparr>arith_type = t, op1 = a, op2 = b\<rparr>) else None)))
      | _ \<Rightarrow> None)"

definition parse_arith_response :: "byte list \<Rightarrow> arith_message option" where
  "parse_arith_response bs =
     (if bs = [] then Some (Arith_Response None)
      else Option.bind (parse_field 8 bs) (\<lambda>(v, r). if r = [] then Some (Arith_Response (Some v)) else None))"

definition arith_api :: "(byte list \<Rightarrow> arith_message option) \<Rightarrow> arith_message message_api" where
  "arith_api parse = \<lparr>ParseFromArray = parse, ByteSize = (\<lambda>m. length (arith_bytes m)),
     SerializeToArray = (\<lambda>m n. if length (arith_bytes m) \<le> n then Some (arith_bytes m) else None)\<rparr>"

lemma parse_field_enc [simp]:
  "parse_field tag (tag # enc_u64_value v @ r) = Some (v, r)"
  "parse_field tag (tag # enc_u64_value v) = Some (v, [])"
  by (simp_all add: parse_field_def dec_enc_u64 [of v "[]", unfolded append_Nil2])

lemma arith_decode_code [simp]: "arith_decode (arith_code t) = Some t"
  by (cases t) (simp_all add: arith_decode_def arith_code_def)

interpretation arith_request_codec: message_codec "arith_api parse_arith_request" "\<lambda>m. \<exists>q. m = Arith_Request q"
proof
  fix m n bs
  assume "\<exists>q. m = Arith_Request q" "SerializeToArray (arith_api parse_arith_request) m n = Some bs"
  then obtain q where "m = Arith_Request q" "bs = arith_bytes (Arith_Request q)"
    by (auto simp: arith_api_def split: if_splits)
  then show "ParseFromArray (arith_api parse_arith_request) bs = Some m"
    by (simp add: arith_api_def parse_arith_request_def arith_bytes_def)
qed (auto simp: arith_api_def split: if_splits)

interpretation arith_response_codec: message_codec "arith_api parse_arith_response" "\<lambda>m. \<exists>r. m = Arith_Response r"
proof
  fix m n bs
  assume "\<exists>r. m = Arith_Response r" "SerializeToArray (arith_api parse_arith_response) m n = Some bs"
  then obtain r where "m = Arith_Response r" "bs = arith_bytes (Arith_Response r)"
    by (auto simp: arith_api_def split: if_splits)
  then show "ParseFromArray (arith_api parse_arith_response) bs = Some m"
    by (cases r) (simp_all add: arith_api_def parse_arith_response_def arith_bytes_def)
qed (auto simp: arith_api_def split: if_splits)

subsection \<open>Properties\<close>

text \<open>
  The example service computes on \<open>uint64\<close> as its specification says, and the server
  answers accordingly: a request for \<open>compute\<close> that reaches a waiting connection of a server
  that offers the service gets the result, wrapped to 64 bits, with status \<open>SUCCESS\<close>, and a
  division by 0 gets the result 0 with status \<open>FAILED\<close> and the text of the service, both under
  the id of the request. As always with this server, the reply has to fit the buffer.
\<close>

theorem arith_request_answered:
  assumes "server_reachable M P S" and "as_services S ''ArithService'' = Some cs"
    and "cs_s cs = arith_service rq_api rs_api"
    and "as_objs S c = Some k" and "rc_pending k = ReadHeader" and "\<And>n. can_alloc M n"
    and "12 + length meta + length param \<le> 2147483648"
    and "ParseFromArray (proto_request P) meta = Some rq"
    and "rq_method_identity rq = identity_of ''ArithService'' ''compute''"
    and "ParseFromArray rq_api param = Some (Arith_Request q)"
    and "arith_compute (CarrotController_default (junk_callback M) (junk_u32 M)) q = (ctl, res)"
    and "message_codec (proto_response P) gr" and "message_codec rs_api gm"
    and "gr (response_for ctl rq P)" and "gm (Arith_Response res)"
    and "12 + ByteSize (proto_response P) (response_for ctl rq P) + ByteSize rs_api (Arith_Response res)
      \<le> max (12 + length meta + length param) (unat (buf_size (rc_buf k)))"
  shows "\<exists>S1 S2 rr v.
    run_event M P (HeaderRead c (wire_header (of_nat (length meta)) (of_nat (length param)) 0)) S
      = Inr (S1, None) \<and>
    run_event M P (PayloadRead c (meta @ param)) S1 = Inr (S2, None) \<and>
    reply_pending P rr rs_api (Arith_Response (Some v)) c S2 \<and> rs_id rr = rq_id rq \<and>
    (case arith_spec (arith_type q) (unat (op1 q)) (unat (op2 q)) of
       Some n \<Rightarrow> Response_status rr = SUCCESS \<and> unat v = n
     | None \<Rightarrow> Response_status rr = FAILED \<and> rs_message rr = divisor_text \<and> v = 0)"
proof -
  let ?md = "arith_method rq_api rs_api" and ?c0 = "CarrotController_default (junk_callback M) (junk_u32 M)"
  have api: "request_api ?md = rq_api" "response_api ?md = rs_api" by (simp_all add: arith_method_def)
  have run: "run_service M ?md (Arith_Request q) = (ctl, Arith_Response res)"
    by (simp add: run_service_def arith_method_def assms(11))
  have target: "dispatch_to (as_services S) (rq_method_identity rq) = Target cs ?md"
    unfolding assms(9) by (rule arith_offered [where tab = "as_services S", OF assms(2,3)])
  obtain S1 S2 where reply: "run_event M P (HeaderRead c (wire_header (of_nat (length meta)) (of_nat (length param)) 0)) S
      = Inr (S1, None)" "run_event M P (PayloadRead c (meta @ param)) S1 = Inr (S2, None)"
    "reply_pending P (response_for ctl rq P) rs_api (Arith_Response res) c S2"
    using request_gets_reply [OF assms(1,4-8) target, unfolded api, OF assms(10) run assms(12-16)] by blast
  have "Failed ?c0 = False" by (simp add: CarrotController_default_def Failed_def)
  moreover obtain v where "res = Some v" using assms(11)
    by (auto simp: arith_compute_def split: ArithType.splits if_splits)
  ultimately show ?thesis
    using reply arith_compute_meets_spec [OF assms(11)]
    by (intro exI [of _ S1] exI [of _ S2] exI [of _ "response_for ctl rq P"] exI [of _ v])
      (auto split: option.splits simp: SetFailed_def Failed_def ErrorText_def)
qed

abbreviation arith_rq_api :: "arith_message message_api" where "arith_rq_api \<equiv> arith_api parse_arith_request"
abbreviation arith_rs_api :: "arith_message message_api" where "arith_rs_api \<equiv> arith_api parse_arith_response"

definition arith_server :: "arith_message aserver" where
  "arith_server =
     (case run_event little_host varint_protocol Accepted (arith_main little_host arith_rq_api arith_rs_api 0) of
        Inr (S, _) \<Rightarrow> S | Inl _ \<Rightarrow> arith_main little_host arith_rq_api arith_rs_api 0)"

lemma arith_accept:
  "run_event little_host varint_protocol Accepted (arith_main little_host arith_rq_api arith_rs_api 0)
    = Inr (arith_server, None)"
  "as_objs arith_server 0 = Some echo_conn"
  "as_services arith_server ''ArithService'' = Some \<lparr>cs_s = arith_service arith_rq_api arith_rs_api, cs_c = Some 0\<rparr>"
  by (simp_all add: arith_server_def arith_main_def CarrotAsyncServer_RegisterService_def RegisterService_def
      CarrotAsyncServer_new_def start_accept_def put_conn_def map_insert_def RpcServerConnection_new_def
      handle_accept_def serve_def expand_packet_def null_buf_def realloc_def little_host_def echo_conn_def
      map_replicate_const arith_service_def fun_eq_iff Let_def)

lemma arith_reachable: "server_reachable little_host varint_protocol arith_server"
proof (rule server_reachable.event [OF _ _ arith_accept(1)])
  show "server_reachable little_host varint_protocol (arith_main little_host arith_rq_api arith_rs_api 0)"
    unfolding arith_main_def by (intro server_reachable.register server_reachable.start)
  show "enabled Accepted (arith_main little_host arith_rq_api arith_rs_api 0)"
    by (simp add: arith_main_def CarrotAsyncServer_RegisterService_def CarrotAsyncServer_new_def
        start_accept_def case_prod_beta Let_def)
qed

definition division_call :: "byte list Request" where
  "division_call = Request_set_method_identity (identity_of ''ArithService'' ''compute'')
     (Request_set_id 7 (Request_New varint_lib))"

definition division_meta :: "byte list" where
  "division_meta = Request_SerializeWithCachedSizesToArray varint_lib division_call"

definition division_by_0 :: ArithRequest where
  "division_by_0 = \<lparr>arith_type = Division, op1 = 7, op2 = 0\<rparr>"

lemma division_meta_parses:
  "ParseFromArray (proto_request varint_protocol) division_meta = Some division_call" "length division_meta = 24"
proof -
  have "Request_good varint_lib varint_str_ok division_call"
    by (simp add: division_call_def varint_str_ok_def identity_of_def)
  moreover have "SerializeToArray varint_request_api division_call (Request_ByteSize varint_lib division_call)
      = Some division_meta"
    by (simp add: varint_request_api_def division_meta_def)
  ultimately show "ParseFromArray (proto_request varint_protocol) division_meta = Some division_call"
    using varint_request.request.roundtrip by (simp add: varint_protocol_def)
  show "length division_meta = 24" by code_simp
qed

theorem arith_request_answered_witness:
  "\<exists>S1 S2 rr.
    run_event little_host varint_protocol (HeaderRead 0 (wire_header 24 6 0)) arith_server = Inr (S1, None) \<and>
    run_event little_host varint_protocol (PayloadRead 0 (division_meta @ [8, 4, 16, 7, 24, 0])) S1 = Inr (S2, None) \<and>
    reply_pending varint_protocol rr arith_rs_api (Arith_Response (Some 0)) 0 S2 \<and>
    Response_status rr = FAILED \<and> rs_message rr = divisor_text"
proof -
  let ?ctl = "SetFailed divisor_text (CarrotController_default None 0)"
  have param: "ParseFromArray arith_rq_api [8, 4, 16, 7, 24, 0] = Some (Arith_Request division_by_0)" by code_simp
  have comp: "arith_compute (CarrotController_default (junk_callback little_host) (junk_u32 little_host)) division_by_0
      = (?ctl, Some 0)"
    by (simp add: arith_compute_def division_by_0_def little_host_def)
  have rs: "message_codec (proto_response varint_protocol) (Response_good varint_lib varint_str_ok)"
    using varint_response.response.message_codec_axioms by (simp add: varint_protocol_def)
  have good: "Response_good varint_lib varint_str_ok (response_for ?ctl division_call varint_protocol)"
    by (simp add: response_for_def varint_protocol_def SetFailed_def Failed_def ErrorText_def divisor_text_def
        Response_set_commute varint_str_ok_def)
  have size: "ByteSize (proto_response varint_protocol) (response_for ?ctl division_call varint_protocol) = 24"
    "ByteSize arith_rs_api (Arith_Response (Some 0)) = 2"
    by code_simp+
  have small: "12 + length division_meta + length [8, 4, 16, 7, 24, 0 :: byte] \<le> 2147483648"
    by (simp add: division_meta_parses(2))
  have fits: "12 + ByteSize (proto_response varint_protocol) (response_for ?ctl division_call varint_protocol)
      + ByteSize arith_rs_api (Arith_Response (Some 0))
      \<le> max (12 + length division_meta + length [8, 4, 16, 7, 24, 0 :: byte]) (unat (buf_size (rc_buf echo_conn)))"
    by (simp add: size division_meta_parses(2))
  have pend: "rc_pending echo_conn = ReadHeader" by (simp add: echo_conn_def)
  have ident: "rq_method_identity division_call = identity_of ''ArithService'' ''compute''"
    by (simp add: division_call_def)
  have svc: "cs_s \<lparr>cs_s = arith_service arith_rq_api arith_rs_api, cs_c = Some 0\<rparr> = arith_service arith_rq_api arith_rs_api"
    by simp
  have gm: "\<exists>r. Arith_Response (Some 0) = Arith_Response r" by blast
  have none: "arith_spec (arith_type division_by_0) (unat (op1 division_by_0)) (unat (op2 division_by_0)) = None"
    by (simp add: arith_spec_def division_by_0_def)
  from arith_request_answered [OF arith_reachable arith_accept(3) svc arith_accept(2) pend example_hosts(3) small
      division_meta_parses(1) ident param comp rs arith_response_codec.message_codec_axioms good gm fits]
  show ?thesis by (auto simp: none division_meta_parses(2))
qed

end
