(* ===== verification/Arith_Client.thy ===== *)
theory Arith_Client
  imports Arith_Service Async_Channel_Connect
begin

section \<open>The example client: src/examples/carrotrpc-async_client.cpp\<close>

text \<open>
  The program under src/examples that calls the arithmetic service with random operands: the stub
  through which it calls, what a worker does, how many calls it makes, what a finished call prints,
  and how many workers \<open>main\<close> starts. The random numbers and the texts protobuf makes of messages are parameters. The loop of
  the reactor thread is the event system of the asynchronous channel.
\<close>

subsection \<open>The stub\<close>

definition arith_desc :: "arith_message message_api \<Rightarrow> arith_message message_api \<Rightarrow> arith_message method_desc" where
  "arith_desc rq_api rs_api = \<lparr>md_service = ''ArithService'', md_name = ''compute'', md_request_api = rq_api,
     md_response_api = rs_api\<rparr>"

definition ArithService_Stub_compute ::
  "machine \<Rightarrow> 'u client_protocol \<Rightarrow> closures \<Rightarrow> arith_message message_api \<Rightarrow> arith_message message_api \<Rightarrow>
   nat \<Rightarrow> ArithRequest \<Rightarrow> nat \<Rightarrow> nat \<Rightarrow> arith_message channel \<Rightarrow> arith_message channel res" where
  "ArithService_Stub_compute M P D rq_api rs_api controller request response done_cb S =
     CallMethod M P D (arith_desc rq_api rs_api) controller (Arith_Request request) response done_cb S"

subsection \<open>A worker\<close>

text \<open>The conversion of a number to an enumerator; it is only made of 1 to 4.\<close>

definition to_ArithType :: "nat \<Rightarrow> ArithType" where
  "to_ArithType n = (if n = 1 then Addition else if n = 2 then Subtraction else if n = 3 then Multiplication
     else Division)"

text \<open>
  \<open>dis i\<close>: the \<open>i\<close>-th number the worker gets of the generator. Each turn makes a controller and two messages
  of its own, here at the address \<open>a + i\<close>, and its callback is bound to them. What a turn prints after
  the call, the text of a controller that has failed by then, is left out.
\<close>

definition arith_operands :: "(nat \<Rightarrow> nat) \<Rightarrow> nat \<Rightarrow> ArithRequest" where
  "arith_operands dis i = \<lparr>arith_type = to_ArithType (dis (3 * i) mod 4 + 1), op1 = of_nat (dis (3 * i + 1)),
     op2 = of_nat (dis (3 * i + 2))\<rparr>"

definition new_call_objects :: "machine \<Rightarrow> string \<Rightarrow> nat \<Rightarrow> arith_message channel \<Rightarrow> arith_message channel" where
  "new_call_objects M ip a S =
     store_response a (Arith_Response None)
       (set_ctl a (\<lambda>_. CarrotController_addr (junk_callback M) ip ''8888'' 1000) S)"

definition DoArith_turn ::
  "machine \<Rightarrow> 'u client_protocol \<Rightarrow> closures \<Rightarrow> arith_message message_api \<Rightarrow> arith_message message_api \<Rightarrow>
   string \<Rightarrow> (nat \<Rightarrow> nat) \<Rightarrow> nat \<Rightarrow> nat \<Rightarrow> arith_message channel \<Rightarrow> arith_message channel res" where
  "DoArith_turn M P D rq_api rs_api ip dis a i S =
     ArithService_Stub_compute M P D rq_api rs_api (a + i) (arith_operands dis i) (a + i) (a + i)
       (new_call_objects M ip (a + i) S)"

text \<open>
  How many calls a worker makes: \<open>ceil((double)n / c)\<close>, which the division in doubles gives exactly for
  two 32-bit numbers. For \<open>c = 0\<close> the conversion of infinity (or of no number) to \<open>int\<close> has no defined
  result: \<open>any\<close>.
\<close>

definition worker_count :: "int \<Rightarrow> int \<Rightarrow> int \<Rightarrow> int" where
  "worker_count any n c = (if c = 0 then any else - (- n div c))"

text \<open>
  \<open>service\<close>: the stub and its channel, which the reactor thread makes when it starts; before it has,
  the pointer is null, and a worker that runs already calls through it.
\<close>

definition reactor_start ::
  "(nat \<Rightarrow> controller) \<Rightarrow> (nat \<Rightarrow> arith_message) \<Rightarrow> arith_message channel option" where
  "reactor_start ctls resps = Some (CarrotAsyncChannel_new ctls resps)"

definition worker_turn ::
  "machine \<Rightarrow> 'u client_protocol \<Rightarrow> closures \<Rightarrow> arith_message message_api \<Rightarrow> arith_message message_api \<Rightarrow>
   string \<Rightarrow> (nat \<Rightarrow> nat) \<Rightarrow> nat \<Rightarrow> nat \<Rightarrow> arith_message channel option \<Rightarrow> arith_message channel option res" where
  "worker_turn M P D rq_api rs_api ip dis a i service =
     and_then (deref service) (\<lambda>S.
     and_then (DoArith_turn M P D rq_api rs_api ip dis a i S) (\<lambda>S. Inr (Some S)))"

text \<open>
  A worker is a thread: between two turns of its loop the reactor thread runs completions of the
  channel, and other workers make their objects and their calls. \<open>worker_run\<close> has the number of
  turns made and the stub, with \<open>count\<close> turns to make; a turn is taken as one step.
\<close>

inductive worker_run ::
  "machine \<Rightarrow> 'u client_protocol \<Rightarrow> closures \<Rightarrow> arith_message message_api \<Rightarrow> arith_message message_api \<Rightarrow>
   string \<Rightarrow> (nat \<Rightarrow> nat) \<Rightarrow> nat \<Rightarrow> int \<Rightarrow> nat \<Rightarrow> arith_message channel option \<Rightarrow> bool"
  for M P D rq_api rs_api ip dis a count where
  begins: "worker_run M P D rq_api rs_api ip dis a count 0 None"
| stub_made: "worker_run M P D rq_api rs_api ip dis a count i None \<Longrightarrow>
    worker_run M P D rq_api rs_api ip dis a count i (reactor_start ctls resps)"
| turn: "worker_run M P D rq_api rs_api ip dis a count i service \<Longrightarrow> int i < count \<Longrightarrow>
    (\<And>S. service = Some S \<Longrightarrow> ids_left S) \<Longrightarrow>
    worker_turn M P D rq_api rs_api ip dis a i service = Inr service' \<Longrightarrow>
    worker_run M P D rq_api rs_api ip dis a count (Suc i) service'"
| completion: "worker_run M P D rq_api rs_api ip dis a count i (Some S) \<Longrightarrow> client_enabled ev S \<Longrightarrow>
    client_run M P D ev S = Inr (S', thrown) \<Longrightarrow> worker_run M P D rq_api rs_api ip dis a count i (Some S')"
| other_objects: "worker_run M P D rq_api rs_api ip dis a count i (Some S) \<Longrightarrow>
    worker_run M P D rq_api rs_api ip dis a count i (Some (new_call_objects M ip b S))"
| other_call: "worker_run M P D rq_api rs_api ip dis a count i (Some S) \<Longrightarrow> ids_left S \<Longrightarrow>
    CallMethod M P D desc ctl request resp done_cb S = Inr S' \<Longrightarrow>
    worker_run M P D rq_api rs_api ip dis a count i (Some S')"

text \<open>What the callback prints; \<open>debug\<close> is \<open>DebugString\<close>.\<close>

definition error_number :: "error_code \<Rightarrow> nat" where
  "error_number ec =
     (case ec of EC_SUCCESS \<Rightarrow> 0 | EC_ERROR \<Rightarrow> 1 | EC_FAILED \<Rightarrow> 2 | EC_CONNECTION_FAILED \<Rightarrow> 3 | EC_OOM \<Rightarrow> 4
      | EC_SERIALIZATION_ERROR \<Rightarrow> 5 | EC_TRANSPORT_ERROR \<Rightarrow> 6 | EC_INVALID_INTERNAL_STATE \<Rightarrow> 7
      | EC_METHOD_NOT_FOUND \<Rightarrow> 8 | EC_RPC_TIMEOUT \<Rightarrow> 9)"

definition Done :: "('m \<Rightarrow> string) \<Rightarrow> controller \<Rightarrow> 'm \<Rightarrow> string" where
  "Done debug controller resp =
     (if Failed controller
      then '' ErrorCode: '' @ [char_of (48 + error_number (ErrorCode controller))] @ '', ErrorText: '' @
        ErrorText controller @ [CHR 0x0A]
      else '''') @ debug resp @ [CHR 0x0A]"

subsection \<open>The calls of a worker\<close>

lemma CarrotController_addr_sels [simp]:
  "ctl_host (CarrotController_addr j h s n) = h" "ctl_service (CarrotController_addr j h s n) = s"
  "ctl_timeout (CarrotController_addr j h s n) = n"
  by (simp_all add: CarrotController_addr_def)

lemma new_call_objects_simps [simp]:
  "ch_objs (new_call_objects M ip a S) = ch_objs S" "ch_tasks (new_call_objects M ip a S) = ch_tasks S"
  "ch_conns (new_call_objects M ip a S) = ch_conns S" "ch_next_task (new_call_objects M ip a S) = ch_next_task S"
  "ch_next_conn (new_call_objects M ip a S) = ch_next_conn S"
  "ch_ctls (new_call_objects M ip a S) = (ch_ctls S)(a := CarrotController_addr (junk_callback M) ip ''8888'' 1000)"
  by (simp_all add: new_call_objects_def store_response_def set_ctl_def)

lemma new_call_objects_reachable:
  "channel_reachable M P D S \<Longrightarrow> channel_reachable M P D (new_call_objects M ip a S)"
  unfolding new_call_objects_def by (intro channel_reachable.user_response channel_reachable.user)

text \<open>What the user sees of a finished call.\<close>

lemma Done_ok: "\<not> Failed ctl \<Longrightarrow> Done debug ctl m = debug m @ [CHR 0x0A]"
  by (simp add: Done_def)

lemma Done_failed:
  "Done debug (SetFailed_ec txt EC_FAILED ctl) m = '' ErrorCode: 2, ErrorText: '' @ txt @ [CHR 0x0A] @ debug m @ [CHR 0x0A]"
proof -
  have "[char_of (48 + error_number EC_FAILED)] = ''2''" by code_simp
  then show ?thesis
    by (simp add: Done_def SetFailed_ec_def SetFailed_def Failed_def ErrorText_def ErrorCode_def)
qed

lemma arith_outcome:
  assumes "arith_compute c0 q = (sctl, Some v)" and "\<not> Failed c0" and "\<not> Failed ctl"
  shows "case arith_spec (arith_type q) (unat (op1 q)) (unat (op2 q)) of
       Some n \<Rightarrow> unat v = n \<and> reported sctl ctl = ctl \<and>
         Done debug (reported sctl ctl) (Arith_Response (Some v)) = debug (Arith_Response (Some v)) @ [CHR 0x0A]
     | None \<Rightarrow> v = 0 \<and> ErrorCode (reported sctl ctl) = EC_FAILED \<and>
         Done debug (reported sctl ctl) (Arith_Response (Some v)) = '' ErrorCode: 2, ErrorText: '' @
           (''Failed to call rpc: '' @ divisor_text) @ [CHR 0x0A] @ debug (Arith_Response (Some 0)) @ [CHR 0x0A]"
proof (cases "arith_spec (arith_type q) (unat (op1 q)) (unat (op2 q))")
  case None
  with arith_compute_meets_spec [OF assms(1)] have r: "v = 0" "sctl = SetFailed divisor_text c0" by simp_all
  then have "reported sctl ctl = SetFailed_ec (''Failed to call rpc: '' @ divisor_text) EC_FAILED ctl"
    by (simp add: reported_def SetFailed_def Failed_def ErrorText_def)
  with r(1) None show ?thesis
    by (simp only: option.case Done_failed) (simp add: SetFailed_ec_def ErrorCode_def)
next
  case (Some m)
  with arith_compute_meets_spec [OF assms(1)] have "unat v = m" "sctl = c0" by auto
  with Some assms(2,3) show ?thesis by (simp add: reported_def Done_ok)
qed

subsection \<open>main\<close>

text \<open>
  The arguments and the input. \<open>atoi\<close> and \<open>fgets\<close> are the ones of the C library: \<open>atoi\<close> skips white
  space and reads a sign and digits, with an undefined result (\<open>any\<close>) outside \<open>int\<close>; \<open>fgets\<close> reads up
  to a newline or to one character less than the buffer has, and returns null at the end of the input.
\<close>

definition is_space :: "char \<Rightarrow> bool" where
  "is_space ch \<longleftrightarrow> ch = CHR '' '' \<or> ch \<in> {CHR 0x09, CHR 0x0A, CHR 0x0B, CHR 0x0C, CHR 0x0D}"

definition is_digit :: "char \<Rightarrow> bool" where
  "is_digit ch \<longleftrightarrow> (48::nat) \<le> of_char ch \<and> of_char ch \<le> (57::nat)"

definition decimal :: "string \<Rightarrow> int" where
  "decimal s = foldl (\<lambda>v ch. 10 * v + (of_char ch - 48)) 0 (takeWhile is_digit s)"

definition atoi :: "int \<Rightarrow> string \<Rightarrow> int" where
  "atoi any s =
     (let r = dropWhile is_space s;
          v = (if r \<noteq> [] \<and> hd r = CHR ''-'' then - decimal (tl r)
               else if r \<noteq> [] \<and> hd r = CHR ''+'' then decimal (tl r)
               else decimal r) in
      if - (2 ^ 31) \<le> v \<and> v < 2 ^ 31 then v else any)"

fun fgets_chunk :: "nat \<Rightarrow> string \<Rightarrow> string \<times> string" where
  "fgets_chunk 0 s = ([], s)"
| "fgets_chunk (Suc k) [] = ([], [])"
| "fgets_chunk (Suc k) (ch # s) =
     (if ch = CHR 0x0A then ([ch], s) else (case fgets_chunk k s of (l, rest) \<Rightarrow> (ch # l, rest)))"

definition fgets :: "nat \<Rightarrow> string \<Rightarrow> (string \<times> string) option" where
  "fgets room input = (if input = [] then None else Some (fgets_chunk (room - 1) input))"

lemma fgets_chunk_splits:
  "fgets_chunk k s = (l, rest) \<Longrightarrow> l @ rest = s \<and> length l \<le> k \<and> (0 < k \<longrightarrow> s \<noteq> [] \<longrightarrow> l \<noteq> []) \<and>
    (l = s \<or> length l = k \<or> last l = CHR 0x0A) \<and> CHR 0x0A \<notin> set (butlast l)"
  by (induction k s arbitrary: l rest rule: fgets_chunk.induct) (auto split: prod.splits if_splits)

function buffers_read :: "string \<Rightarrow> string list" where
  "buffers_read input =
     (case fgets 1024 input of None \<Rightarrow> [] | Some (buf, rest) \<Rightarrow> buf # buffers_read rest)"
  by pat_completeness auto
termination
proof (relation "measure length")
  fix input x buf rest
  assume "fgets 1024 input = Some x" "(buf, rest) = x"
  then have "fgets_chunk 1023 input = (buf, rest)" "input \<noteq> []" by (auto simp: fgets_def split: if_splits)
  from fgets_chunk_splits [OF this(1)] this(2) show "(rest, input) \<in> measure length" by auto
qed simp

declare buffers_read.simps [simp del]

text \<open>
  What \<open>main\<close> has done when its input ends: the exit code without the three arguments, or the global
  variables \<open>ip\<close>, \<open>n\<close> and \<open>c\<close> and the number of workers it has started. It then waits for the reactor
  thread, whose loop has no end.
\<close>

definition client_main :: "int \<Rightarrow> string list \<Rightarrow> string \<Rightarrow> int + (string \<times> int \<times> int \<times> nat)" where
  "client_main any argv stdin =
     (if length argv \<noteq> 4 then Inl (-1)
      else Inr (argv ! 1, atoi any (argv ! 2), atoi any (argv ! 3), length (buffers_read stdin)))"

text \<open>The buffers are the input in order; one ends at a newline, when it is full, or with the input.\<close>

lemma buffers_read_input:
  "concat (buffers_read input) = input \<and>
   (\<forall>buf \<in> set (buffers_read input). buf \<noteq> [] \<and> length buf < 1024 \<and> CHR 0x0A \<notin> set (butlast buf))"
proof (induction input rule: buffers_read.induct)
  case (1 input)
  show ?case
  proof (cases "input = []")
    case False
    obtain buf rest where c: "fgets_chunk 1023 input = (buf, rest)" by (cases "fgets_chunk 1023 input")
    then have f: "fgets 1024 input = Some (buf, rest)" using False by (simp add: fgets_def)
    show ?thesis
      using 1 [OF f refl] fgets_chunk_splits [OF c] False f by (subst (1 2) buffers_read.simps) auto
  qed (simp add: buffers_read.simps fgets_def)
qed

lemma short_line_read:
  assumes "CHR 0x0A \<notin> set line" and "length line < 1023"
  shows "buffers_read (line @ [CHR 0x0A] @ rest) = (line @ [CHR 0x0A]) # buffers_read rest"
proof -
  have "fgets_chunk k (line @ [CHR 0x0A] @ rest) = (line @ [CHR 0x0A], rest)" if "length line < k" for k
    using assms(1) that
  proof (induction line arbitrary: k)
    case Nil
    then show ?case by (cases k) auto
  next
    case (Cons ch line)
    then show ?case by (cases k) auto
  qed
  from this [OF assms(2)] show ?thesis by (subst buffers_read.simps) (simp add: fgets_def)
qed

text \<open>So a worker is started for each line of an input of short lines.\<close>

lemma worker_per_line:
  "\<forall>l \<in> set ls. CHR 0x0A \<notin> set l \<and> length l < 1023 \<Longrightarrow>
   length (buffers_read (concat (map (\<lambda>l. l @ [CHR 0x0A]) ls))) = length ls"
proof (induction ls)
  case Nil
  show ?case by (subst buffers_read.simps) (simp add: fgets_def)
next
  case (Cons l ls)
  then show ?case using short_line_read [of l] by simp
qed

text \<open>With \<open>c\<close> lines the workers make the \<open>n\<close> calls asked for, and fewer than \<open>c\<close> more.\<close>

lemma workers_make_all_calls:
  assumes "0 < c"
  shows "n \<le> c * worker_count any n c" "c * worker_count any n c < n + c"
proof -
  have calls: "c * worker_count any n c = n + - n mod c"
  proof -
    have "worker_count any n c = - (- n div c)" using assms by (simp add: worker_count_def)
    moreover have "c * (- n div c) = - n - - n mod c" by (rule minus_mod_eq_mult_div [symmetric])
    ultimately show ?thesis by (simp only: mult_minus_right)
  qed
  show "n \<le> c * worker_count any n c" "c * worker_count any n c < n + c"
    unfolding calls using assms by simp_all
qed

lemma client_main_example:
  "client_main any [''client'', ''127.0.0.1'', ''10'', '' 4''] (''a'' @ [CHR 0x0A] @ ''b'' @ [CHR 0x0A])
   = Inr (''127.0.0.1'', 10, 4, 2)"
proof -
  have "length (buffers_read (''a'' @ [CHR 0x0A] @ ''b'' @ [CHR 0x0A])) = 2"
    using worker_per_line [of "[''a'', ''b'']"] by simp
  moreover have "atoi any ''10'' = 10" "atoi any '' 4'' = 4"
    by (simp_all add: atoi_def decimal_def is_space_def is_digit_def)
  ultimately show ?thesis by (simp add: client_main_def)
qed

subsection \<open>Properties\<close>

text \<open>
  C4. The example, end to end and from nothing: a call of the stub, on a channel without a connection to
  the server, to a server that offers \<open>ArithService\<close> and waits for a request, makes the two exchange the
  call and its reply, and ends exactly once with the result of the specification, modulo \<open>2 ^ 64\<close>; a
  division by 0 ends with \<open>EC_FAILED\<close> and the text of the service. The callback then prints the error,
  or nothing but the message.
\<close>

theorem arith_call_completes:
  assumes client: "ch_conns S (server_key S ctl) = None" "\<not> Failed (ch_ctls S ctl)"
      "T = new_task (arith_desc rq_api rs_api) ctl (Arith_Request q) resp done_cb 1" "can_send P1 T"
    and memory: "\<And>n. can_alloc M1 n" "\<And>n. can_alloc M2 n"
    and server: "server_reachable M2 P2 Z" "as_objs Z d = Some l" "rc_pending l = ReadHeader"
      "as_services Z ''ArithService'' = Some cs" "cs_s cs = arith_service rq_api rs_api"
    and messages: "cp_request P1 = proto_request P2" "cp_response P1 = proto_response P2"
      "message_codec (proto_response P2) gr" "message_codec rs_api gm"
    and result: "arith_compute (CarrotController_default (junk_callback M2) (junk_u32 M2)) q = (sctl, res)"
      "gr (response_for sctl (make_request P1 T) P2)" "gm (Arith_Response res)"
    and sizes: "12 + ByteSize (proto_response P2) (response_for sctl (make_request P1 T) P2)
        + ByteSize rs_api (Arith_Response res) \<le> call_size P1 T"
    and callback: "D done_cb (ch_next_task S) = None"
  shows "\<exists>S1 S2 S3 out S' Z' T' v.
    ArithService_Stub_compute M1 P1 D rq_api rs_api ctl q resp done_cb S = Inr S1 \<and>
    client_run M1 P1 D (Resolved (ch_next_conn S) (ch_next_task S) None) S1 = Inr (S2, None) \<and>
    client_run M1 P1 D (Connected (ch_next_conn S) (ch_next_task S) None) S2 = Inr (S3, None) \<and>
    exchange M1 P1 D M2 P2 (ch_next_conn S) d (ch_next_task S) out S3 Z S' Z' \<and>
    ch_tasks S' (ch_next_task S) = Some T' \<and> t_called T' \<and> t_runs T' = 1 \<and>
    ch_resps S' resp = Arith_Response (Some v) \<and>
    (case arith_spec (arith_type q) (unat (op1 q)) (unat (op2 q)) of
       Some n \<Rightarrow> unat v = n \<and> ch_ctls S' ctl = ch_ctls S ctl \<and>
         Done debug (ch_ctls S' ctl) (Arith_Response (Some v)) = debug (Arith_Response (Some v)) @ [CHR 0x0A]
     | None \<Rightarrow> v = 0 \<and> ErrorCode (ch_ctls S' ctl) = EC_FAILED \<and>
         Done debug (ch_ctls S' ctl) (Arith_Response (Some v)) = '' ErrorCode: 2, ErrorText: '' @
           (''Failed to call rpc: '' @ divisor_text) @ [CHR 0x0A] @ debug (Arith_Response (Some 0)) @ [CHR 0x0A])"
proof -
  let ?md = "arith_method rq_api rs_api" and ?c0 = "CarrotController_default (junk_callback M2) (junk_u32 M2)"
  have api: "md_request_api (arith_desc rq_api rs_api) = request_api ?md"
    "md_response_api (arith_desc rq_api rs_api) = response_api ?md"
    by (simp_all add: arith_method_def arith_desc_def)
  have codec: "message_codec (response_api ?md) gm"
    and size: "12 + ByteSize (proto_response P2) (response_for sctl (make_request P1 T) P2)
        + ByteSize (response_api ?md) (Arith_Response res) \<le> call_size P1 T"
    using messages(4) sizes by (simp_all add: arith_method_def)
  have target: "dispatch_to (as_services Z) (identity_of (md_service (arith_desc rq_api rs_api))
      (md_name (arith_desc rq_api rs_api))) = Target cs ?md"
    using arith_offered [where tab = "as_services Z", OF server(4,5)] by (simp add: arith_desc_def)
  have run: "run_service M2 ?md (Arith_Request q) = (sctl, Arith_Response res)"
    by (simp add: run_service_def arith_method_def result(1))
  obtain v where v: "res = Some v" using result(1)
    by (auto simp: arith_compute_def split: ArithType.splits if_splits)
  have fresh: "\<not> Failed ?c0" by (simp add: CarrotController_default_def Failed_def)
  obtain S1 S2 S3 out S' Z' T' where returns:
    "ArithService_Stub_compute M1 P1 D rq_api rs_api ctl q resp done_cb S = Inr S1"
    "client_run M1 P1 D (Resolved (ch_next_conn S) (ch_next_task S) None) S1 = Inr (S2, None)"
    "client_run M1 P1 D (Connected (ch_next_conn S) (ch_next_task S) None) S2 = Inr (S3, None)"
    "exchange M1 P1 D M2 P2 (ch_next_conn S) d (ch_next_task S) out S3 Z S' Z'"
    "ch_tasks S' (ch_next_task S) = Some T'" "t_called T'" "t_runs T' = 1"
    "ch_resps S' resp = Arith_Response (Some v)" "ch_ctls S' ctl = reported sctl (ch_ctls S ctl)"
    using first_call_exchange [where D = D, OF client(1,3,4) memory server(1-3) messages(1,2) api(1,2) messages(3)
        codec target run result(2,3) size callback]
    unfolding v ArithService_Stub_compute_def by blast
  have "case arith_spec (arith_type q) (unat (op1 q)) (unat (op2 q)) of
       Some n \<Rightarrow> unat v = n \<and> ch_ctls S' ctl = ch_ctls S ctl \<and>
         Done debug (ch_ctls S' ctl) (Arith_Response (Some v)) = debug (Arith_Response (Some v)) @ [CHR 0x0A]
     | None \<Rightarrow> v = 0 \<and> ErrorCode (ch_ctls S' ctl) = EC_FAILED \<and>
         Done debug (ch_ctls S' ctl) (Arith_Response (Some v)) = '' ErrorCode: 2, ErrorText: '' @
           (''Failed to call rpc: '' @ divisor_text) @ [CHR 0x0A] @ debug (Arith_Response (Some 0)) @ [CHR 0x0A]"
    unfolding returns(9) by (rule arith_outcome [OF result(1) [unfolded v] fresh client(2)])
  with returns(1-8) show ?thesis by blast
qed

definition arith_channel :: "arith_message channel" where
  "arith_channel = CarrotAsyncChannel_new (\<lambda>_. CarrotController_addr None ''h'' ''8888'' 1000) (\<lambda>_. Arith_Response None)"

definition division_task :: "arith_message call_task" where
  "division_task = new_task (arith_desc arith_rq_api arith_rs_api) 0 (Arith_Request division_by_0) 0 0 1"

lemma division_task_facts:
  "can_send varint_client division_task" "call_size varint_client division_task = 42"
proof -
  have m: "t_method division_task = arith_desc arith_rq_api arith_rs_api" by (simp add: division_task_def)
  have "Request_good varint_lib varint_str_ok (make_request varint_client division_task)"
    by (simp add: division_task_def make_request_def arith_desc_def varint_client_def identity_of_def varint_str_ok_def)
  moreover have "message_codec (md_request_api (t_method division_task)) (\<lambda>m. \<exists>q. m = Arith_Request q)"
    using arith_request_codec.message_codec_axioms by (simp add: m arith_desc_def)
  moreover have "\<exists>q. t_request division_task = Arith_Request q" by (simp add: division_task_def)
  moreover show size: "call_size varint_client division_task = 42" by code_simp
  ultimately show "can_send varint_client division_task"
    using varint_codecs(1) by (auto simp: can_send_def size)
qed

theorem arith_call_completes_witness:
  "\<exists>S1 out S3 S' Z'. ArithService_Stub_compute little_host varint_client quiet arith_rq_api arith_rs_api 0 division_by_0 0 0
      arith_channel = Inr S1 \<and>
    exchange little_host varint_client quiet little_host varint_protocol 0 0 0 out S3 arith_server S' Z' \<and>
    ch_resps S' 0 = Arith_Response (Some 0) \<and> ErrorCode (ch_ctls S' 0) = EC_FAILED"
proof -
  let ?ctl = "SetFailed divisor_text (CarrotController_default None 0)"
  let ?rq = "make_request varint_client division_task"
  have S: "ch_conns arith_channel (server_key arith_channel 0) = None" "\<not> Failed (ch_ctls arith_channel 0)"
    "ch_next_conn arith_channel = 0" "ch_next_task arith_channel = 0" "quiet 0 (ch_next_task arith_channel) = None"
    by (simp_all add: arith_channel_def CarrotAsyncChannel_new_def CarrotController_addr_def Failed_def quiet_def)
  have comp: "arith_compute (CarrotController_default (junk_callback little_host) (junk_u32 little_host)) division_by_0
      = (?ctl, Some 0)"
    by (simp add: arith_compute_def division_by_0_def little_host_def)
  have good: "Response_good varint_lib varint_str_ok (response_for ?ctl ?rq varint_protocol)"
    by (simp add: response_for_def varint_protocol_def SetFailed_def Failed_def ErrorText_def divisor_text_def
        Response_set_commute varint_str_ok_def)
  have gm: "\<exists>r. Arith_Response (Some 0) = Arith_Response r" by blast
  have "ByteSize (proto_response varint_protocol) (response_for ?ctl ?rq varint_protocol) = 24"
    "ByteSize arith_rs_api (Arith_Response (Some 0)) = 2" by code_simp+
  then have size: "12 + ByteSize (proto_response varint_protocol) (response_for ?ctl ?rq varint_protocol)
      + ByteSize arith_rs_api (Arith_Response (Some 0)) \<le> call_size varint_client division_task"
    by (simp add: division_task_facts(2))
  have pend: "rc_pending echo_conn = ReadHeader" by (simp add: echo_conn_def)
  have svc: "cs_s \<lparr>cs_s = arith_service arith_rq_api arith_rs_api, cs_c = Some 0\<rparr> = arith_service arith_rq_api arith_rs_api"
    by simp
  have none: "arith_spec (arith_type division_by_0) (unat (op1 division_by_0)) (unat (op2 division_by_0)) = None"
    by (simp add: arith_spec_def division_by_0_def)
  from arith_call_completes [where D = quiet and debug = "\<lambda>_. ''''", OF S(1,2) division_task_def division_task_facts(1) example_hosts(3)
      example_hosts(3) arith_reachable arith_accept(2) pend arith_accept(3) svc varint_codecs(3,4,2)
      arith_response_codec.message_codec_axioms comp good gm size S(5)]
  show ?thesis unfolding none option.case S(3,4) by (elim exE conjE) (intro exI conjI, assumption+, simp_all)
qed

end
