(* ===== verification/Async_Channel_Places.thy ===== *)
theory Async_Channel_Places
  imports Async_Channel_Inv
begin

section \<open>Where the asynchronous channel keeps a call\<close>

text \<open>
  A call has one place in the channel: it belongs to one connection, and there it waits for a
  resolution, or for a connection, or it is in \<open>outgoing_tasks\<close>. Every operation is described
  here by what it does to the places, the tasks and the objects of the user (\<open>conn_step\<close>); it
  follows that a call that ends is not left in any connection's table.
\<close>

subsection \<open>Places\<close>

text \<open>\<open>owned\<close>: the tasks a connection knows. \<open>stage\<close>: how often it waits for a task to make progress.\<close>

definition owned :: "cconn \<Rightarrow> nat set" where
  "owned k = members k \<union> {t. \<exists>bs. WriteOp t bs \<in> set (cc_ops k)}"

definition outgoing :: "cconn \<Rightarrow> nat set" where
  "outgoing k = snd ` set (cc_outgoing k)"

definition stage :: "cconn \<Rightarrow> nat \<Rightarrow> nat" where
  "stage k t = count_list (cc_ops k) (ResolveOp t) + count_list (cc_ops k) (ConnectOp t)
     + (if t \<in> outgoing k then 1 else 0)"

lemma live_stage: "t \<in> live k \<longleftrightarrow> 0 < stage k t"
  by (auto simp: live_def stage_def outgoing_def count_list_0_iff)

lemma live_owned: "live k \<subseteq> owned k"
  by (auto simp: owned_def members_def)

lemma outgoing_live: "outgoing k \<subseteq> live k"
  by (auto simp: outgoing_def live_def)

lemma op_owned:
  "ResolveOp t \<in> set (cc_ops k) \<Longrightarrow> t \<in> owned k" "ConnectOp t \<in> set (cc_ops k) \<Longrightarrow> t \<in> owned k"
  "TimerOp t \<in> set (cc_ops k) \<Longrightarrow> t \<in> owned k" "WriteOp t bs \<in> set (cc_ops k) \<Longrightarrow> t \<in> owned k"
  by (auto simp: owned_def members_def live_def)

text \<open>\<open>k'\<close> owns what \<open>k\<close> does and \<open>A\<close>, and waits for \<open>B\<close> once more.\<close>

definition grows :: "nat set \<Rightarrow> nat set \<Rightarrow> cconn \<Rightarrow> cconn \<Rightarrow> bool" where
  "grows A B k k' \<longleftrightarrow> owned k' \<subseteq> owned k \<union> A \<and> (\<forall>u. stage k' u \<le> stage k u + (if u \<in> B then 1 else 0))"

lemma grows_refl [simp]: "grows A B k k"
  by (simp add: grows_def)

lemma grows_same:
  "cc_ops k' = cc_ops k \<Longrightarrow> cc_outgoing k' = cc_outgoing k \<Longrightarrow> grows A B k k'"
  by (simp add: grows_def owned_def members_def live_def stage_def outgoing_def)

lemma grows_fewer_outgoing:
  "cc_ops k' = cc_ops k \<Longrightarrow> set (cc_outgoing k') \<subseteq> set (cc_outgoing k) \<Longrightarrow> grows A B k k'"
  by (auto simp: grows_def owned_def members_def live_def stage_def outgoing_def)

lemma grows_trans:
  assumes "grows A B k k'" and "grows A' {} k' k''"
  shows "grows (A \<union> A') B k k''"
proof -
  have "stage k'' u \<le> stage k' u" for u using assms(2) by (simp add: grows_def)
  then have "stage k'' u \<le> stage k u + (if u \<in> B then 1 else 0)" for u
    using assms(1) unfolding grows_def by (meson order_trans)
  with assms show ?thesis by (auto simp: grows_def)
qed

lemma grows_trans':
  assumes "grows A {} k k'" and "grows A' B k' k''"
  shows "grows (A \<union> A') B k k''"
proof -
  have "stage k' u \<le> stage k u" for u using assms(1) by (simp add: grows_def)
  then have "stage k'' u \<le> stage k u + (if u \<in> B then 1 else 0)" for u
    using assms(2) unfolding grows_def by (meson add_le_mono1 order_trans)
  with assms show ?thesis by (auto simp: grows_def)
qed

lemma grows_plain_op:
  "x = ReadHeaderOp \<or> (\<exists>n. x = ReadPayloadOp n) \<Longrightarrow> grows A B k (k\<lparr>cc_ops := x # cc_ops k\<rparr>)"
  by (auto simp: grows_def owned_def members_def live_def stage_def outgoing_def)

lemma grows_write_op: "t \<in> A \<Longrightarrow> grows A B k (k\<lparr>cc_ops := WriteOp t bs # cc_ops k\<rparr>)"
  by (auto simp: grows_def owned_def members_def live_def stage_def outgoing_def)

lemma grows_timer_op: "t \<in> A \<Longrightarrow> grows A B k (k\<lparr>cc_ops := TimerOp t # cc_ops k\<rparr>)"
  by (auto simp: grows_def owned_def members_def live_def stage_def outgoing_def)

lemma grows_waiting_op:
  assumes "x = ResolveOp t \<or> x = ConnectOp t"
  shows "grows {t} {t} k (k\<lparr>cc_ops := x # cc_ops k\<rparr>)"
  using assms by (auto simp: grows_def owned_def members_def live_def stage_def outgoing_def)

lemma grows_insert: "grows {t} {t} k (k\<lparr>cc_outgoing := omap_insert i t (cc_outgoing k)\<rparr>)"
  using omap_insert_set(1) [of i t "cc_outgoing k"]
  by (fastforce simp: grows_def owned_def members_def live_def stage_def outgoing_def)

text \<open>A completed operation makes room for another one on the same task.\<close>

definition waited_for :: "client_op \<Rightarrow> nat \<Rightarrow> nat" where
  "waited_for x t = (if x = ResolveOp t \<or> x = ConnectOp t then 1 else 0)"

lemma stage_op_done:
  assumes "x \<in> set (cc_ops k)"
  shows "stage (k\<lparr>cc_ops := remove1 x (cc_ops k)\<rparr>) t + waited_for x t = stage k t"
proof -
  have c: "count_list (remove1 x xs) y + (if y = x then 1 else 0) = count_list xs y"
    if "x \<in> set xs" for xs y
    using that by (induction xs) auto
  from c [OF assms, of "ResolveOp t"] c [OF assms, of "ConnectOp t"] show ?thesis
    by (auto simp: stage_def waited_for_def outgoing_def split: if_splits)
qed

lemma owned_op_done: "owned (k\<lparr>cc_ops := remove1 x (cc_ops k)\<rparr>) \<subseteq> owned k"
  using set_remove1_subset [of x "cc_ops k"] by (auto simp: owned_def members_def live_def)

subsection \<open>Steps\<close>

text \<open>How a task changes, and the relation between the states before and after an operation on \<open>c\<close>.\<close>

definition later :: "'m call_task \<Rightarrow> 'm call_task \<Rightarrow> bool" where
  "later T T' \<longleftrightarrow> t_method T' = t_method T \<and> t_controller T' = t_controller T \<and> t_request T' = t_request T \<and>
     t_response T' = t_response T \<and> t_done T' = t_done T \<and> t_id T' = t_id T \<and> (t_called T \<longrightarrow> t_called T')"

lemma later_refl [simp]: "later T T" by (simp add: later_def)

lemma later_trans: "later T T' \<Longrightarrow> later T' T'' \<Longrightarrow> later T T''" by (auto simp: later_def)

definition evolves :: "'m channel \<Rightarrow> 'm channel \<Rightarrow> bool" where
  "evolves S S' \<longleftrightarrow> (\<forall>u. rel_option later (ch_tasks S u) (ch_tasks S' u))"

lemma evolves_refl [simp]: "evolves S S"
  by (auto simp: evolves_def intro: option.rel_refl)

lemma evolves_trans: "evolves S S1 \<Longrightarrow> evolves S1 S2 \<Longrightarrow> evolves S S2"
  unfolding evolves_def by (metis (mono_tags, lifting) later_trans option.rel_sel)

lemma evolves_tasks: "ch_tasks S' = ch_tasks S \<Longrightarrow> evolves S S'"
  by (simp add: evolves_def option.rel_refl)

lemma evolves_put: "ch_tasks S t = Some T \<Longrightarrow> later T T' \<Longrightarrow> evolves S (put_task t T' S)"
  by (auto simp: evolves_def intro: option.rel_refl)

lemma evolvesD:
  "evolves S S' \<Longrightarrow> ch_tasks S' u = Some T' \<Longrightarrow> \<exists>T. ch_tasks S u = Some T \<and> later T T'"
  "evolves S S' \<Longrightarrow> ch_tasks S u = Some T \<Longrightarrow> \<exists>T'. ch_tasks S' u = Some T' \<and> later T T'"
  unfolding evolves_def by (metis option.rel_distinct(1,2) option.rel_sel option.sel option.simps(3) option.exhaust_sel)+

definition ended_by :: "'m channel \<Rightarrow> 'm channel \<Rightarrow> nat set" where
  "ended_by S S' = {u. \<exists>T T'. ch_tasks S u = Some T \<and> \<not> t_called T \<and> ch_tasks S' u = Some T' \<and> t_called T'}"

definition conn_step :: "nat set \<Rightarrow> nat set \<Rightarrow> nat \<Rightarrow> 'm channel \<Rightarrow> 'm channel \<Rightarrow> bool" where
  "conn_step A B c S S' \<longleftrightarrow> evolves S S' \<and> ch_next_task S' = ch_next_task S \<and>
     (\<exists>k k'. ch_objs S c = Some k \<and> ch_objs S' = (ch_objs S)(c \<mapsto> k') \<and> grows A B k k' \<and>
       (\<forall>u. u \<notin> owned k \<union> A \<longrightarrow> ch_tasks S' u = ch_tasks S u))"

definition settles :: "nat \<Rightarrow> 'm channel \<Rightarrow> 'm channel \<Rightarrow> bool" where
  "settles c S S' \<longleftrightarrow> (\<forall>k'. ch_objs S' c = Some k' \<longrightarrow> ended_by S S' \<inter> outgoing k' = {})"

lemma conn_stepI:
  assumes "evolves S S'" and "ch_next_task S' = ch_next_task S" and "ch_objs S c = Some k"
    and "ch_objs S' = (ch_objs S)(c \<mapsto> k')" and "grows A B k k'"
    and "\<And>u. u \<notin> owned k \<Longrightarrow> u \<notin> A \<Longrightarrow> ch_tasks S' u = ch_tasks S u"
  shows "conn_step A B c S S'"
  using assms unfolding conn_step_def by blast

lemma conn_stepE:
  assumes "conn_step A B c S S'" and "ch_objs S c = Some k"
  obtains k' where "evolves S S'" and "ch_next_task S' = ch_next_task S"
    and "ch_objs S' = (ch_objs S)(c \<mapsto> k')" and "grows A B k k'"
    and "\<And>u. u \<notin> owned k \<Longrightarrow> u \<notin> A \<Longrightarrow> ch_tasks S' u = ch_tasks S u"
  using assms unfolding conn_step_def by auto

lemma conn_step_conn: "conn_step A B c S S' \<Longrightarrow> \<exists>k. ch_objs S c = Some k"
  by (auto simp: conn_step_def)

lemma conn_step_trans:
  assumes "conn_step A B c S S1" and "conn_step A' {} c S1 S2"
  shows "conn_step (A \<union> A') B c S S2"
proof -
  obtain k where k: "ch_objs S c = Some k" using conn_step_conn [OF assms(1)] by blast
  obtain k1 where 1: "evolves S S1" "ch_next_task S1 = ch_next_task S" "ch_objs S1 = (ch_objs S)(c \<mapsto> k1)"
    "grows A B k k1" "\<And>u. u \<notin> owned k \<Longrightarrow> u \<notin> A \<Longrightarrow> ch_tasks S1 u = ch_tasks S u"
    by (rule conn_stepE [OF assms(1) k]) blast
  have k1: "ch_objs S1 c = Some k1" using 1(3) by simp
  obtain k2 where 2: "evolves S1 S2" "ch_next_task S2 = ch_next_task S1" "ch_objs S2 = (ch_objs S1)(c \<mapsto> k2)"
    "grows A' {} k1 k2" "\<And>u. u \<notin> owned k1 \<Longrightarrow> u \<notin> A' \<Longrightarrow> ch_tasks S2 u = ch_tasks S1 u"
    by (rule conn_stepE [OF assms(2) k1]) blast
  have "owned k1 \<subseteq> owned k \<union> A" using 1(4) by (simp add: grows_def)
  then have t: "ch_tasks S2 u = ch_tasks S u" if "u \<notin> owned k" "u \<notin> A \<union> A'" for u
    using that 1(5) [of u] 2(5) [of u] by auto
  show ?thesis
    by (rule conn_stepI [OF evolves_trans [OF 1(1) 2(1)] _ k _ grows_trans [OF 1(4) 2(4)] t])
      (simp_all add: 1(2,3) 2(2,3))
qed

lemma conn_step_weaken:
  "conn_step A B c S S' \<Longrightarrow> A \<subseteq> A' \<Longrightarrow> B \<subseteq> B' \<Longrightarrow> conn_step A' B' c S S'"
proof -
  assume s: "conn_step A B c S S'" and A: "A \<subseteq> A'" and B: "B \<subseteq> B'"
  obtain k where k: "ch_objs S c = Some k" using conn_step_conn [OF s] by blast
  have g: "grows A' B' k k'" if "grows A B k k'" for k'
  proof -
    have "(if u \<in> B then 1 else 0) \<le> (if u \<in> B' then 1 else (0::nat))" for u using B by auto
    then have "stage k' u \<le> stage k u + (if u \<in> B' then 1 else 0)" for u
      using that unfolding grows_def by (meson add_left_mono order_trans)
    then show ?thesis using that A by (auto simp: grows_def)
  qed
  show ?thesis
    by (rule conn_stepE [OF s k], rule conn_stepI [OF _ _ k]) (use A g in auto)
qed

lemma settles_trans:
  assumes "settles c S S1" and "settles c S1 S2" and "evolves S S1"
    and "\<And>k1 k2. ch_objs S1 c = Some k1 \<Longrightarrow> ch_objs S2 c = Some k2 \<Longrightarrow> outgoing k2 \<subseteq> outgoing k1"
    and "ch_objs S1 c = Some k1"
  shows "settles c S S2"
  unfolding settles_def
proof (intro allI impI equals0I)
  fix k2 u assume k2: "ch_objs S2 c = Some k2" and u: "u \<in> ended_by S S2 \<inter> outgoing k2"
  then have "u \<in> outgoing k1" using assms(4,5) by blast
  moreover obtain T T2 where "ch_tasks S u = Some T" "\<not> t_called T" "ch_tasks S2 u = Some T2" "t_called T2"
    using u by (auto simp: ended_by_def)
  moreover obtain T1 where "ch_tasks S1 u = Some T1" using evolvesD(2) [OF assms(3)] calculation by blast
  ultimately have "u \<in> ended_by S S1 \<union> ended_by S1 S2" by (auto simp: ended_by_def)
  then show False using assms(1,2,5) k2 u \<open>u \<in> outgoing k1\<close> by (auto simp: settles_def)
qed

lemma settles_tasks: "ch_tasks S' = ch_tasks S \<Longrightarrow> settles c S S'"
  by (auto simp: settles_def ended_by_def)

lemma settles_empty: "(\<And>k'. ch_objs S' c = Some k' \<Longrightarrow> cc_outgoing k' = []) \<Longrightarrow> settles c S S'"
  by (simp add: settles_def outgoing_def)


subsection \<open>What the operations do to the places\<close>

lemma complete_evolves: "evolves S (complete D g t S)"
  by (auto simp: evolves_def complete_tasks later_def option.rel_refl split: option.split)

lemma complete_others: "u \<noteq> t \<Longrightarrow> ch_tasks (complete D g t S) u = ch_tasks S u"
  by (simp add: complete_tasks split: option.split)

lemma complete_ends: "ended_by S (complete D g t S) \<subseteq> {t}"
  using complete_others [of _ t D g S] by (fastforce simp: ended_by_def)

lemma fold_complete_evolves: "evolves S (fold (\<lambda>(i, t). complete D g t) xs S)"
proof (induction xs arbitrary: S)
  case (Cons x xs)
  obtain i t where "x = (i, t)" by (cases x)
  with evolves_trans [OF complete_evolves Cons.IH] show ?case by simp
qed simp

lemma fold_complete_others:
  "u \<notin> snd ` set xs \<Longrightarrow> ch_tasks (fold (\<lambda>(i, t). complete D g t) xs S) u = ch_tasks S u"
  by (induction xs arbitrary: S) (auto simp: complete_others)

lemma put_cconn_step:
  assumes "ch_objs S c = Some k" and "grows A B k k'"
  shows "conn_step A B c S (put_cconn c k' S)"
  by (rule conn_stepI [OF evolves_tasks _ assms(1) _ assms(2)]) simp_all

lemma tasks_step:
  assumes "ch_objs S c = Some k" and "ch_objs S' = ch_objs S" and "ch_next_task S' = ch_next_task S"
    and "evolves S S'" and "\<And>u. u \<notin> owned k \<Longrightarrow> u \<notin> A \<Longrightarrow> ch_tasks S' u = ch_tasks S u"
  shows "conn_step A B c S S'"
  by (rule conn_stepI [OF assms(4,3,1) _ grows_refl assms(5)]) (use assms(1,2) in auto)

lemma complete_step:
  assumes "conn_step A B c S S1" and "ch_objs S c = Some k" and "t \<in> owned k \<union> A"
  shows "conn_step A B c S (complete D g t S1)"
proof (rule conn_stepE [OF assms(1,2)])
  fix k' assume k': "evolves S S1" "ch_next_task S1 = ch_next_task S" "ch_objs S1 = (ch_objs S)(c \<mapsto> k')"
    "grows A B k k'" "\<And>u. u \<notin> owned k \<Longrightarrow> u \<notin> A \<Longrightarrow> ch_tasks S1 u = ch_tasks S u"
  have "ch_tasks (complete D g t S1) u = ch_tasks S u" if "u \<notin> owned k" "u \<notin> A" for u
  proof -
    have "u \<noteq> t" using that assms(3) by blast
    with that k'(5) show ?thesis by (simp add: complete_others)
  qed
  then show ?thesis
    by (intro conn_stepI [OF evolves_trans [OF k'(1) complete_evolves] _ assms(2) _ k'(4)]) (simp_all add: k'(2,3))
qed

lemma client_destroy_step:
  assumes "ch_objs S c = Some k"
  shows "conn_step {} {} c S (client_destroy M D reason c S)"
    and "ch_objs (client_destroy M D reason c S) c = Some ((close_socket k)\<lparr>cc_outgoing := []\<rparr>)"
proof -
  have g: "grows {} {} k ((close_socket k)\<lparr>cc_outgoing := []\<rparr>)" by (rule grows_fewer_outgoing) simp_all
  have oth: "ch_tasks (fold (\<lambda>(i, t). complete D g t) (cc_outgoing k) S1) u = ch_tasks S1 u"
    if "u \<notin> owned k" for u g and S1 :: "'a channel"
    by (rule fold_complete_others) (use that outgoing_live [of k] live_owned [of k] in \<open>auto simp: outgoing_def\<close>)
  show "conn_step {} {} c S (client_destroy M D reason c S)"
    unfolding client_destroy_as [OF assms] put_cconn_fold put_cconn_twice
    by (rule conn_stepI [OF _ _ assms _ g])
      (auto simp: oth intro: evolves_trans [OF evolves_tasks fold_complete_evolves])
  show "ch_objs (client_destroy M D reason c S) c = Some ((close_socket k)\<lparr>cc_outgoing := []\<rparr>)"
    unfolding client_destroy_as [OF assms] by simp
qed

lemma client_destroy_settles:
  "ch_objs S c = Some k \<Longrightarrow> settles c S0 (client_destroy M D reason c S)"
  by (rule settles_empty) (auto simp: client_destroy_step(2))

text \<open>The ends of a handler that fail: the call in hand, and then the connection.\<close>

lemma fail_and_destroy_step:
  assumes "ch_objs S c = Some k"
  shows "conn_step {t} B c S (client_destroy M D e c (complete D g t S))"
    and "settles c S (client_destroy M D e c (complete D g t S))"
proof -
  have k: "ch_objs (complete D g t S) c = Some k" using assms by simp
  have "conn_step {t} {} c S (complete D g t S)"
    by (rule tasks_step [OF assms]) (simp_all add: complete_evolves complete_others)
  from conn_step_trans [OF this client_destroy_step(1) [OF k]]
  show "conn_step {t} B c S (client_destroy M D e c (complete D g t S))" by (rule conn_step_weaken) auto
  show "settles c S (client_destroy M D e c (complete D g t S))"
    by (rule client_destroy_settles [OF k])
qed

lemma setup_task_timer_step:
  assumes "ch_objs S c = Some k"
  shows "conn_step {t} {} c S (setup_task_timer c t S)"
proof -
  have g: "conn_step {t} {} c S (add_op c (TimerOp t) S)"
    using put_cconn_step [OF assms grows_timer_op, of t "{t}" "{}"] assms by (simp add: add_op_def)
  have "conn_step {t} {} c S S" by (rule tasks_step [OF assms]) simp_all
  with g show ?thesis by (auto simp: setup_task_timer_def split: option.split)
qed

lemma add_op_step:
  assumes "ch_objs S c = Some k" and "grows A {} k (k\<lparr>cc_ops := x # cc_ops k\<rparr>)"
  shows "conn_step A {} c S (add_op c x S)"
  using put_cconn_step [OF assms] assms(1) by (simp add: add_op_def)

lemma fail_task_step:
  assumes "ch_objs S c = Some k" and "ch_tasks S t = Some T"
  shows "conn_step {t} B c S (fail_task D reason ec t T1 (put_task t (T\<lparr>t_buf := b\<rparr>) S))"
    and "ended_by S (fail_task D reason ec t T1 (put_task t (T\<lparr>t_buf := b\<rparr>) S)) \<subseteq> {t}"
proof -
  let ?S1 = "set_ctl (t_controller T1) (SetFailed_ec reason ec) (put_task t (T\<lparr>t_buf := b\<rparr>) S)"
  have "later T (T\<lparr>t_buf := b\<rparr>)" by (simp add: later_def)
  then have e: "evolves S ?S1" by (rule evolves_trans [OF evolves_put [OF assms(2)] evolves_tasks]) simp
  have oth: "ch_tasks (complete D (\<lambda>ctl. ctl) t ?S1) u = ch_tasks S u" if "u \<noteq> t" for u
    using that by (simp add: complete_others)
  show "conn_step {t} B c S (fail_task D reason ec t T1 (put_task t (T\<lparr>t_buf := b\<rparr>) S))"
    unfolding fail_task_def finish_task_def
    by (rule tasks_step [OF assms(1) _ _ evolves_trans [OF e complete_evolves]]) (simp_all add: oth)
  show "ended_by S (fail_task D reason ec t T1 (put_task t (T\<lparr>t_buf := b\<rparr>) S)) \<subseteq> {t}"
    unfolding fail_task_def finish_task_def using oth by (fastforce simp: ended_by_def)
qed

lemma start_call_step:
  assumes "start_call M P D c t S = Inr S'" and "ch_tasks S t = Some T" and "ch_objs S c = Some k"
  shows "conn_step {t} {t} c S S'" and "t \<notin> outgoing k \<Longrightarrow> settles c S S'"
proof -
  have failed: "conn_step {t} {t} c S S' \<and> (t \<notin> outgoing k \<longrightarrow> settles c S S')"
    if S': "S' = fail_task D reason ec t T1 (put_task t (T\<lparr>t_buf := b\<rparr>) S)" for reason ec T1 b
  proof -
    have "ch_objs S' = ch_objs S" unfolding S' by (simp add: fail_task_def finish_task_def)
    then show ?thesis
      using fail_task_step(1) [OF assms(3,2), where B = "{t}" and D = D and reason = reason and ec = ec
          and ?T1.0 = T1 and b = b, folded S']
        fail_task_step(2) [OF assms(3,2), where D = D and reason = reason and ec = ec
          and ?T1.0 = T1 and b = b, folded S'] assms(3)
      by (auto simp: settles_def)
  qed
  have "conn_step {t} {t} c S S' \<and> (t \<notin> outgoing k \<longrightarrow> settles c S S')"
    using assms(1,2)
  proof (cases rule: start_call_cases)
    case (sent b k' out)
    define T1 where "T1 = T\<lparr>t_buf := b, t_state := STATE_WRITE_TO_SERVER\<rparr>"
    define k1 where "k1 = k\<lparr>cc_outgoing := omap_insert (t_id T) t (cc_outgoing k)\<rparr>"
    define S2 where "S2 = setup_task_timer c t (put_cconn c k1 (put_task t T1 S))"
    have k': "k' = k" using sent(2) assms(3) by simp
    have S': "S' = add_op c (WriteOp t out) S2" using sent(3) by (simp add: S2_def T1_def k1_def k')
    have p: "conn_step {t} {} c S (put_task t T1 S)"
      by (rule tasks_step [OF assms(3)]) (use assms(2) in \<open>auto simp: T1_def later_def intro: evolves_put\<close>)
    have o1: "ch_objs (put_task t T1 S) c = Some k" using assms(3) by simp
    have q: "conn_step {t} {t} c (put_task t T1 S) (put_cconn c k1 (put_task t T1 S))"
      unfolding k1_def by (rule put_cconn_step [OF o1 grows_insert])
    have pq: "conn_step {t} {t} c S (put_cconn c k1 (put_task t T1 S))"
      by (rule conn_stepI [OF _ _ assms(3) _ grows_insert [of t k "t_id T", folded k1_def]])
        (use p q in \<open>auto simp: conn_step_def intro: evolves_trans\<close>)
    have o2: "ch_objs (put_cconn c k1 (put_task t T1 S)) c = Some k1" by simp
    have s2: "conn_step {t} {t} c S S2"
      using conn_step_trans [OF pq setup_task_timer_step [OF o2, of t]] by (simp add: S2_def)
    obtain k2 where k2: "ch_objs S2 c = Some k2" using s2 by (auto simp: conn_step_def)
    have "conn_step {t} {} c S2 S'" unfolding S' by (rule add_op_step [OF k2 grows_write_op]) simp
    from conn_step_trans [OF s2 this] have "conn_step {t} {t} c S S'" by simp
    moreover have "ended_by S S' = {}"
      using assms(2) by (auto simp: ended_by_def S' S2_def T1_def split: if_splits)
    ultimately show ?thesis by (simp add: settles_def)
  qed (use failed in blast)+
  then show "conn_step {t} {t} c S S'" and "t \<notin> outgoing k \<Longrightarrow> settles c S S'" by blast+
qed

lemma start_call_others:
  assumes "start_call M P D c t S = Inr S'" and "ch_tasks S t = Some T" and "u \<noteq> t"
  shows "ch_tasks S' u = ch_tasks S u"
  using assms(1,2) by (cases rule: start_call_cases)
    (use assms(3) in \<open>simp_all add: fail_task_def finish_task_def complete_others\<close>)

lemma start_read_step:
  assumes "start_read M D c S = Inr (S', thrown)" and "ch_objs S c = Some k"
  shows "conn_step {} {} c S S'" and "settles c S S'"
    and "ch_objs S' c = Some k' \<Longrightarrow> outgoing k' \<subseteq> outgoing k"
    and "thrown = None \<Longrightarrow> ch_tasks S' = ch_tasks S"
    and "ch_objs S' c = Some k' \<Longrightarrow> thrown \<noteq> None \<Longrightarrow> outgoing k' = {}"
proof -
  obtain r b where "expand_packet M (cc_buf k) (of_nat sizeof_packet) = Inr (r, b)"
    using assms by (cases "expand_packet M (cc_buf k) (of_nat sizeof_packet)") (auto simp: start_read_def)
  define S1 where "S1 = put_cconn c (k\<lparr>cc_buf := b\<rparr>) S"
  have S': "(if r = -1 then S' = client_destroy M D not_enough_memory c S1 \<and> thrown = Some ClientBadAlloc
      else S' = add_op c ReadHeaderOp S1 \<and> thrown = None)"
    using assms \<open>expand_packet _ _ _ = _\<close> by (auto simp: start_read_def Let_def S1_def split: if_splits)
  have o1: "ch_objs S1 c = Some (k\<lparr>cc_buf := b\<rparr>)" "ch_tasks S1 = ch_tasks S" by (simp_all add: S1_def)
  have s1: "conn_step {} {} c S S1" unfolding S1_def by (rule put_cconn_step [OF assms(2) grows_same]) simp_all
  note d = client_destroy_step [OF o1(1)]
  have a: "conn_step {} {} c S1 (add_op c ReadHeaderOp S1)" by (rule add_op_step [OF o1(1) grows_plain_op]) simp
  show "conn_step {} {} c S S'"
    using conn_step_trans [OF s1 d(1)] conn_step_trans [OF s1 a] S' by (auto split: if_splits)
  have ad: "ch_objs (add_op c ReadHeaderOp S1) c = Some (k\<lparr>cc_buf := b, cc_ops := ReadHeaderOp # cc_ops k\<rparr>)"
    using o1 by (simp add: add_op_def)
  show "settles c S S'"
    using S' client_destroy_settles [OF o1(1)] o1(2) settles_tasks [of S' S c] by (auto split: if_splits)
  show "outgoing k' \<subseteq> outgoing k" if "ch_objs S' c = Some k'"
    using that S' d(2) ad by (auto simp: outgoing_def split: if_splits)
  show "thrown = None \<Longrightarrow> ch_tasks S' = ch_tasks S" using S' o1 by (auto split: if_splits)
  show "ch_objs S' c = Some k' \<Longrightarrow> thrown \<noteq> None \<Longrightarrow> outgoing k' = {}"
    using S' d(2) by (auto simp: outgoing_def split: if_splits)
qed


subsection \<open>What the handlers do\<close>

lemma handle_resolve_step:
  assumes "handle_resolve M D error c t S = Inr (S', thrown)" and "ch_objs S c = Some k"
  shows "conn_step {t} {t} c S S'" and "settles c S S'"
proof -
  have "conn_step {t} {t} c S S' \<and> settles c S S'"
  proof (cases error)
    case None
    have "grows {t} {t} k ((close_socket k)\<lparr>cc_open := True, cc_ops := ConnectOp t # cc_ops k\<rparr>)"
      using grows_trans' [OF grows_same [of "(close_socket k)\<lparr>cc_open := True\<rparr>" k "{}"] grows_waiting_op [of "ConnectOp t" t]] by simp
    from put_cconn_step [OF assms(2) this] None assms show ?thesis
      by (auto simp: handle_resolve_def intro: settles_tasks)
  next
    case (Some e)
    with assms(1) fail_and_destroy_step [OF assms(2), where t = t] show ?thesis
      by (auto simp: handle_resolve_def)
  qed
  then show "conn_step {t} {t} c S S'" and "settles c S S'" by blast+
qed

lemma handle_connect_step:
  assumes "handle_connect M P D error c t S = Inr (S', thrown)" and "ch_objs S c = Some k"
    and "t \<notin> outgoing k"
  shows "conn_step {t} {t} c S S'" and "settles c S S'"
proof -
  have "conn_step {t} {t} c S S' \<and> settles c S S'"
  proof (cases error)
    case None
    define k0 where "k0 = k\<lparr>cc_connecting := False\<rparr>"
    define S0 where "S0 = put_cconn c k0 S"
    obtain S1 where 1: "start_call M P D c t S0 = Inr S1" and 2: "start_read M D c S1 = Inr (S', thrown)"
      using assms(1,2) None by (auto simp: handle_connect_def and_then_eq_Inr_iff S0_def k0_def)
    obtain T where T: "ch_tasks S0 t = Some T" using 1 by (auto simp: start_call_def and_then_eq_Inr_iff deref_eq_iff)
    have o0: "ch_objs S0 c = Some k0" "t \<notin> outgoing k0" using assms(3) by (simp_all add: S0_def k0_def outgoing_def)
    have s0: "conn_step {} {} c S S0" unfolding S0_def k0_def by (rule put_cconn_step [OF assms(2) grows_same]) simp_all
    note s1 = start_call_step [OF 1 T o0(1)]
    obtain k1 where k1: "ch_objs S1 c = Some k1" using s1(1) by (auto simp: conn_step_def)
    note s2 = start_read_step [OF 2 k1]
    have g: "grows {t} {t} k k1" using s1(1) o0(1) k1 grows_same [of k0 k "{}" "{}"] grows_trans' [of "{}" k k0 "{t}" "{t}" k1]
      by (auto simp: conn_step_def k0_def)
    have same: "owned k0 = owned k" by (simp add: k0_def owned_def)
    have "conn_step {t} {t} c S S1"
      by (rule conn_stepI [OF _ _ assms(2) _ g]) (use s0 s1(1) o0(1) k1 same in \<open>auto simp: conn_step_def S0_def intro: evolves_trans\<close>)
    from conn_step_trans [OF this s2(1)] have "conn_step {t} {t} c S S'" by simp
    moreover have e01: "evolves S0 S1" using s1(1) by (simp add: conn_step_def)
    have "settles c S0 S'" by (rule settles_trans [OF s1(2) [OF o0(2)] s2(2) e01 _ k1]) (use k1 s2(3) in auto)
    then have "settles c S S'" by (simp add: settles_def ended_by_def S0_def)
    ultimately show ?thesis by blast
  next
    case (Some e)
    with assms(1) fail_and_destroy_step [OF assms(2), where t = t] show ?thesis
      by (auto simp: handle_connect_def)
  qed
  then show "conn_step {t} {t} c S S'" and "settles c S S'" by blast+
qed

lemma handle_write_step:
  assumes "handle_write M D error c t S = Inr (S', thrown)" and "ch_objs S c = Some k"
  shows "conn_step {t} {} c S S'" and "settles c S S'"
proof -
  have "conn_step {t} {} c S S' \<and> settles c S S'"
  proof (cases error)
    case None
    then obtain T where T: "ch_tasks S t = Some T" and S': "S' = put_task t (T\<lparr>t_state := STATE_READ_DATA\<rparr>) S"
      using assms(1) by (auto simp: handle_write_def and_then_eq_Inr_iff deref_eq_iff)
    have "conn_step {t} {} c S S'" unfolding S'
      by (rule tasks_step [OF assms(2)]) (use T in \<open>auto simp: later_def intro: evolves_put\<close>)
    moreover have "ended_by S S' = {}" using T by (auto simp: S' ended_by_def split: if_splits)
    ultimately show ?thesis by (simp add: settles_def)
  next
    case (Some e)
    with assms(1) fail_and_destroy_step [OF assms(2), where t = t] show ?thesis
      by (auto simp: handle_write_def)
  qed
  then show "conn_step {t} {} c S S'" and "settles c S S'" by blast+
qed

text \<open>
  Timers and responses remove a call by its id, so here the ids have to identify the calls of
  the connection, which the invariant of \<open>Async_Channel_Inv\<close> says.
\<close>

lemma erased_outgoing:
  assumes "conn_ok (task_id S) k" and "ch_tasks S t = Some T" and "cc_outgoing k' = omap_erase (t_id T) (cc_outgoing k)"
  shows "t \<notin> outgoing k'"
proof
  assume "t \<in> outgoing k'"
  then obtain i where i: "(i, t) \<in> set (cc_outgoing k)" "i \<noteq> t_id T" using assms(3) by (auto simp: outgoing_def)
  with assms(1) have "task_id S t = Some i" by (auto simp: conn_ok_def)
  with i assms(2) show False by (simp add: task_id_def)
qed

lemma handle_timeout_step:
  assumes "handle_timeout M D error c t S = Inr (S', thrown)" and "ch_objs S c = Some k"
    and "conn_ok (task_id S) k"
  shows "conn_step {t} {} c S S'" and "settles c S S'"
proof -
  have "conn_step {t} {} c S S' \<and> settles c S S'"
  proof (cases error)
    case None
    then obtain T where T: "ch_tasks S t = Some T"
      using assms(1,2) by (auto simp: handle_timeout_def and_then_eq_Inr_iff deref_eq_iff)
    define k1 where "k1 = k\<lparr>cc_outgoing := omap_erase (t_id T) (cc_outgoing k)\<rparr>"
    define S1 where "S1 = put_cconn c k1 S"
    obtain g where S': "S' = (if cc_connecting k then client_destroy M D timed_out c (complete D g t S1)
        else complete D g t S1)"
      using assms(1,2) None T by (auto simp: handle_timeout_def Let_def S1_def k1_def split: if_splits)
    have o1: "ch_objs S1 c = Some k1" by (simp add: S1_def)
    have s1: "conn_step {} {} c S S1" unfolding S1_def
      by (rule put_cconn_step [OF assms(2) grows_fewer_outgoing]) (auto simp: k1_def)
    have "conn_step {t} {} c S1 (complete D g t S1)"
      by (rule tasks_step [OF o1]) (simp_all add: complete_evolves complete_others)
    from conn_step_trans [OF s1 this] have s2: "conn_step {t} {} c S (complete D g t S1)" by simp
    have o2: "ch_objs (complete D g t S1) c = Some k1" using o1 by simp
    have "conn_step {t} {} c S S'"
      using s2 conn_step_trans [OF s2 client_destroy_step(1) [OF o2]] S' by simp
    moreover have "ended_by S (complete D g t S1) \<subseteq> {t}"
      using complete_ends [of S1 D g t] by (simp add: ended_by_def S1_def)
    then have "settles c S (complete D g t S1)"
      using erased_outgoing [OF assms(3) T, of k1] o2 by (auto simp: settles_def k1_def)
    then have "settles c S S'" using S' client_destroy_settles [OF o2] by auto
    ultimately show ?thesis by blast
  next
    case (Some e)
    with assms(1) have "S' = S" by (simp add: handle_timeout_def)
    then show ?thesis using tasks_step [OF assms(2)] by (auto intro: settles_tasks)
  qed
  then show "conn_step {t} {} c S S'" and "settles c S S'" by blast+
qed

lemma client_store_step:
  assumes "client_store c off bs S = Inr S'"
  shows "conn_step {} {} c S S'" and "ch_tasks S' = ch_tasks S"
proof -
  obtain k blk where k: "ch_objs S c = Some k" and S': "S' = put_cconn c (k\<lparr>cc_buf := (cc_buf k)\<lparr>buf_p := Some blk\<rparr>\<rparr>) S"
    using assms by (auto simp: client_store_def and_then_eq_Inr_iff deref_eq_iff)
  show "conn_step {} {} c S S'" unfolding S' by (rule put_cconn_step [OF k grows_same]) simp_all
  show "ch_tasks S' = ch_tasks S" by (simp add: S')
qed

lemma client_read_header_step:
  assumes "client_read_header M D error c S = Inr (S', thrown)" and "ch_objs S c = Some k"
  shows "conn_step {} {} c S S'" and "settles c S S'"
proof -
  have "conn_step {} {} c S S' \<and> settles c S S'"
  proof (cases error)
    case None
    obtain n b where S': "let S1 = put_cconn c (k\<lparr>cc_n := n, cc_buf := b\<rparr>) S in
        S' = client_destroy M D not_enough_memory c S1 \<or> S' = add_op c (ReadPayloadOp n) S1"
      using assms None by (auto simp: client_read_header_def and_then_eq_Inr_iff deref_eq_iff Let_def split: if_splits)
    define S1 where "S1 = put_cconn c (k\<lparr>cc_n := n, cc_buf := b\<rparr>) S"
    have S': "S' = client_destroy M D not_enough_memory c S1 \<or> S' = add_op c (ReadPayloadOp n) S1"
      using S' by (simp add: S1_def Let_def)
    have o1: "ch_objs S1 c = Some (k\<lparr>cc_n := n, cc_buf := b\<rparr>)" "ch_tasks S1 = ch_tasks S" by (simp_all add: S1_def)
    have s1: "conn_step {} {} c S S1" unfolding S1_def by (rule put_cconn_step [OF assms(2) grows_same]) simp_all
    have "conn_step {} {} c S1 (add_op c (ReadPayloadOp n) S1)" by (rule add_op_step [OF o1(1) grows_plain_op]) simp
    with conn_step_trans [OF s1 client_destroy_step(1) [OF o1(1)]] conn_step_trans [OF s1 this] S'
    have "conn_step {} {} c S S'" by auto
    moreover have "settles c S S'"
      using S' client_destroy_settles [OF o1(1)] settles_tasks [of S' S c] o1(2) by auto
    ultimately show ?thesis by blast
  next
    case (Some e)
    with assms(1) client_destroy_step(1) [OF assms(2)] client_destroy_settles [OF assms(2)] show ?thesis
      by (auto simp: client_read_header_def)
  qed
  then show "conn_step {} {} c S S'" and "settles c S S'" by blast+
qed


lemma match_response_step:
  assumes "match_response M D blk rpc_len rpc_resp c k S = Inr (S', thrown)" and k: "ch_objs S c = Some k"
    and "conn_ok (task_id S) k"
  shows "conn_step {} {} c S S'" and "settles c S S'"
proof -
  have "conn_step {} {} c S S' \<and> settles c S S'"
  proof (cases "map_of (cc_outgoing k) (rs_id rpc_resp)")
    case None
    with assms(1) have "start_read M D c S = Inr (S', thrown)" by (simp add: match_response_def)
    then show ?thesis using start_read_step [OF _ k] by blast
  next
    case (Some t)
    then obtain T st msg parsed S2 thrown' where T: "ch_tasks S t = Some T"
      and sr: "start_read M D c (deliver_response st msg parsed T (put_task t (T\<lparr>t_state := STATE_DONE\<rparr>) S))
          = Inr (S2, thrown')"
      and S': "S' = (if thrown' \<noteq> None then S2 else finish_task D t (erase_task c (rs_id rpc_resp) S2))"
      using assms(1) unfolding match_response_def
      by (fastforce simp: and_then_eq_Inr_iff deref_eq_iff Let_def split: if_splits)
    define S1 where "S1 = deliver_response st msg parsed T (put_task t (T\<lparr>t_state := STATE_DONE\<rparr>) S)"
    have mem: "(rs_id rpc_resp, t) \<in> set (cc_outgoing k)" by (rule map_of_SomeD [OF Some])
    have own: "t \<in> owned k" using mem outgoing_live [of k] live_owned [of k] by (force simp: outgoing_def)
    have id: "t_id T = rs_id rpc_resp" using mem assms(3) T by (fastforce simp: conn_ok_def task_id_def)
    have "later T (T\<lparr>t_state := STATE_DONE\<rparr>)" by (simp add: later_def)
    then have e1: "evolves S S1" by (rule evolves_trans [OF evolves_put [OF T] evolves_tasks]) (simp add: S1_def)
    have s1: "conn_step {} {} c S S1"
      by (rule tasks_step [OF k _ _ e1]) (use own in \<open>auto simp: S1_def\<close>)
    have o1: "ch_objs S1 c = Some k" "ended_by S S1 = {}"
      using k T by (auto simp: S1_def ended_by_def split: if_splits)
    note r = start_read_step [OF sr [folded S1_def] o1(1)]
    have s2: "conn_step {} {} c S S2" using conn_step_trans [OF s1 r(1)] by simp
    obtain k2 where k2: "ch_objs S2 c = Some k2" using s2 by (auto simp: conn_step_def)
    show ?thesis
    proof (cases thrown')
      case (Some x)
      then have "settles c S S'" using S' r(5) by (auto simp: settles_def)
      with s2 S' Some show ?thesis by simp
    next
      case None
      define k3 where "k3 = k2\<lparr>cc_outgoing := omap_erase (rs_id rpc_resp) (cc_outgoing k2)\<rparr>"
      have er: "erase_task c (rs_id rpc_resp) S2 = put_cconn c k3 S2" using k2 by (simp add: erase_task_def k3_def)
      have o3: "ch_objs (put_cconn c k3 S2) c = Some k3" by simp
      have g: "grows {} {} k2 k3" by (rule grows_fewer_outgoing) (auto simp: k3_def)
      have s3: "conn_step {} {} c S (put_cconn c k3 S2)"
        using conn_step_trans [OF s2 put_cconn_step [OF k2 g]] by simp
      have S'': "S' = complete D (\<lambda>ctl. ctl) t (put_cconn c k3 S2)" using S' None er by (simp add: finish_task_def)
      have "conn_step {} {} c S S'" unfolding S'' by (rule complete_step [OF s3 k]) (use own in simp)
      moreover have "ended_by S S' \<subseteq> {t}"
        using r(4) None o1(2) complete_others [of _ t D "\<lambda>ctl. ctl" "put_cconn c k3 S2"]
        by (fastforce simp: S'' ended_by_def)
      moreover have "t \<notin> outgoing k3"
      proof
        assume "t \<in> outgoing k3"
        then obtain i where i: "(i, t) \<in> set (cc_outgoing k2)" "i \<noteq> rs_id rpc_resp" by (auto simp: outgoing_def k3_def)
        have "set (cc_outgoing k2) \<subseteq> set (cc_outgoing k)"
          using sr [folded S1_def] o1(1) k2 None
          by (auto simp: start_read_def and_then_eq_Inr_iff Let_def add_op_def split: if_splits)
        then have "task_id S t = Some i" using i(1) assms(3) by (auto simp: conn_ok_def)
        then show False using i(2) T id by (simp add: task_id_def)
      qed
      ultimately show ?thesis using o3 by (auto simp: settles_def S'')
    qed
  qed
  then show "conn_step {} {} c S S'" and "settles c S S'" by blast+
qed

lemma client_read_payload_step:
  fixes P :: "'u client_protocol"
  assumes "client_read_payload M P D error transferred c S = Inr (S', thrown)" and k: "ch_objs S c = Some k"
    and "conn_ok (task_id S) k"
  shows "conn_step {} {} c S S'" and "settles c S S'"
proof -
  consider (same) "S' = S" | (destroyed) e where "S' = client_destroy M D e c S"
    | (matched) blk rpc_len and rpc_resp :: "'u Response"
      where "match_response M D blk rpc_len rpc_resp c k S = Inr (S', thrown)"
    using assms(1) k unfolding client_read_payload_def
    by (auto simp: and_then_eq_Inr_iff deref_eq_iff split: if_splits option.splits)
  then have "conn_step {} {} c S S' \<and> settles c S S'"
  proof cases
    case same
    then show ?thesis using tasks_step [OF k] by (auto intro: settles_tasks)
  next
    case destroyed
    then show ?thesis using client_destroy_step(1) [OF k] client_destroy_settles [OF k] by blast
  next
    case matched
    then show ?thesis using match_response_step [OF _ k assms(3)] by blast
  qed
  then show "conn_step {} {} c S S'" and "settles c S S'" by blast+
qed

text \<open>The task an operation is about, and the completion of the operation as a whole.\<close>

fun op_task :: "client_op \<Rightarrow> nat set" where
  "op_task (ResolveOp t) = {t}"
| "op_task (ConnectOp t) = {t}"
| "op_task (WriteOp t bs) = {t}"
| "op_task (TimerOp t) = {t}"
| "op_task _ = {}"


lemma client_handler_step:
  assumes h: "client_handler M P D ev S0 = Inr (S', thrown)" and cx: "completes ev = (c, x)"
    and k: "ch_objs S0 c = Some k" and inv: "chan_inv A S0" and idle: "\<And>t. x = ConnectOp t \<Longrightarrow> t \<notin> outgoing k"
  shows "conn_step (op_task x) {t. 0 < waited_for x t} c S0 S'" and "settles c S0 S'"
proof -
  have ok: "conn_ok (task_id S0) k" by (rule chan_invD(4) [OF inv k])
  have stored: "conn_step {} {} c S0 S' \<and> settles c S0 S'"
    if st: "client_store c off bs S0 = Inr S1"
      and rd: "\<And>k1. ch_objs S1 c = Some k1 \<Longrightarrow> conn_ok (task_id S1) k1 \<Longrightarrow> conn_step {} {} c S1 S' \<and> settles c S1 S'"
    for off bs S1
  proof -
    note s = client_store_step [OF st]
    obtain k1 where k1: "ch_objs S1 c = Some k1" using s(1) by (auto simp: conn_step_def)
    note r = rd [OF k1 chan_invD(4) [OF client_store_inv [OF st inv] k1]]
    from conn_step_trans [OF s(1)] r have "conn_step {} {} c S0 S'" by fastforce
    with r s(2) show ?thesis by (simp add: settles_def ended_by_def)
  qed
  have "conn_step (op_task x) {t. 0 < waited_for x t} c S0 S' \<and> settles c S0 S'"
  proof (cases ev)
    case (Resolved c' t e)
    with h cx handle_resolve_step [OF _ k, where t = t] show ?thesis by (auto simp: waited_for_def)
  next
    case (Connected c' t e)
    with h cx idle handle_connect_step [OF _ k, where t = t] show ?thesis by (auto simp: waited_for_def)
  next
    case (WriteDone c' t bs e)
    with h cx handle_write_step [OF _ k, where t = t] show ?thesis by (auto simp: waited_for_def)
  next
    case (TimerFired c' t e)
    with h cx handle_timeout_step [OF _ k ok, where t = t] show ?thesis by (auto simp: waited_for_def)
  next
    case (HeaderArrived c' bs e)
    then obtain S1 where "client_store c 0 bs S0 = Inr S1" "client_read_header M D e c S1 = Inr (S', thrown)"
      using h cx by (auto simp: and_then_eq_Inr_iff)
    with stored client_read_header_step [of M D e c S1 S' thrown] HeaderArrived cx show ?thesis
      by (fastforce simp: waited_for_def)
  next
    case (PayloadArrived c' n bs e)
    then obtain S1 where "client_store c off_data bs S0 = Inr S1"
      "client_read_payload M P D e (length bs) c S1 = Inr (S', thrown)"
      using h cx by (auto simp: and_then_eq_Inr_iff)
    with stored client_read_payload_step [of M P D e "length bs" c S1 S' thrown] PayloadArrived cx show ?thesis
      by (fastforce simp: waited_for_def)
  qed
  then show "conn_step (op_task x) {t. 0 < waited_for x t} c S0 S'" and "settles c S0 S'" by blast+
qed

lemma op_task_owned: "x \<in> set (cc_ops k) \<Longrightarrow> op_task x \<subseteq> owned k"
  by (cases x) (auto simp: op_owned)

lemma client_run_step:
  assumes run: "client_run M P D ev S = Inr (S', thrown)" and en: "client_enabled ev S"
    and cx: "completes ev = (c, x)" and inv: "chan_inv {} S"
    and one: "\<And>k t. ch_objs S c = Some k \<Longrightarrow> stage k t \<le> 1"
  shows "conn_step {} {} c S S'" and "settles c S S'"
proof -
  obtain k where k: "ch_objs S c = Some k" "x \<in> set (cc_ops k)"
    using en cx by (auto simp: client_enabled_def split: option.splits)
  define k0 where "k0 = k\<lparr>cc_ops := remove1 x (cc_ops k)\<rparr>"
  define S0 where "S0 = op_done c x S"
  have o0: "ch_objs S0 c = Some k0" "S0 = put_cconn c k0 S" using k by (simp_all add: S0_def op_done_def k0_def)
  have st: "stage k0 t + waited_for x t = stage k t" for t unfolding k0_def by (rule stage_op_done [OF k(2)])
  have "t \<notin> outgoing k0" if "x = ConnectOp t" for t
    using st [of t] one [OF k(1), of t] that by (auto simp: stage_def waited_for_def split: if_splits)
  from client_handler_step [OF _ cx o0(1) op_done_inv(1) [OF inv k(1) k0_def, folded S0_def] this]
  have h: "conn_step (op_task x) {t. 0 < waited_for x t} c S0 S'" "settles c S0 S'"
    using run cx by (simp_all add: client_run_def S0_def)
  obtain k' where k': "evolves S0 S'" "ch_next_task S' = ch_next_task S0" "ch_objs S' = (ch_objs S0)(c \<mapsto> k')"
    "grows (op_task x) {t. 0 < waited_for x t} k0 k'"
    "\<And>u. u \<notin> owned k0 \<Longrightarrow> u \<notin> op_task x \<Longrightarrow> ch_tasks S' u = ch_tasks S0 u"
    by (rule conn_stepE [OF h(1) o0(1)]) blast
  have own: "owned k0 \<subseteq> owned k" "op_task x \<subseteq> owned k"
    using owned_op_done op_task_owned [OF k(2)] by (auto simp: k0_def)
  have "stage k' u \<le> stage k u" for u
  proof -
    have "stage k' u \<le> stage k0 u + (if 0 < waited_for x u then 1 else 0)" using k'(4) by (simp add: grows_def)
    with st [of u] show ?thesis by (auto simp: waited_for_def split: if_splits)
  qed
  with k'(4) own have "grows {} {} k k'" by (auto simp: grows_def)
  with k' o0(2) own show "conn_step {} {} c S S'"
    by (intro conn_stepI [OF _ _ k(1)]) (auto simp: evolves_def)
  show "settles c S S'" using h(2) o0(2) by (simp add: settles_def ended_by_def)
qed

subsection \<open>The invariant of places\<close>

definition owned_at :: "'m channel \<Rightarrow> nat \<Rightarrow> nat set" where
  "owned_at S c = (case ch_objs S c of None \<Rightarrow> {} | Some k \<Rightarrow> owned k)"

definition stage_at :: "'m channel \<Rightarrow> nat \<Rightarrow> nat \<Rightarrow> nat" where
  "stage_at S c t = (case ch_objs S c of None \<Rightarrow> 0 | Some k \<Rightarrow> stage k t)"

definition placed :: "'m channel \<Rightarrow> bool" where
  "placed S \<longleftrightarrow> (\<forall>c t. stage_at S c t \<le> 1 \<and> (t \<in> owned_at S c \<longrightarrow> t < ch_next_task S \<and>
     (\<forall>c'. t \<in> owned_at S c' \<longrightarrow> c' = c)))"

lemma conn_step_placed:
  assumes "conn_step {} {} c S S'" and "placed S"
  shows "placed S'"
proof -
  obtain k k' where k: "ch_objs S c = Some k" "ch_objs S' = (ch_objs S)(c \<mapsto> k')" "grows {} {} k k'"
    "ch_next_task S' = ch_next_task S"
    using assms(1) by (auto simp: conn_step_def)
  have "stage_at S' d t \<le> stage_at S d t" "owned_at S' d \<subseteq> owned_at S d" for d t
    using k by (auto simp: stage_at_def owned_at_def grows_def)
  with assms(2) k(4) show ?thesis unfolding placed_def by (metis order_trans subsetD)
qed

text \<open>A new call: its task is new, and it waits in one place.\<close>

definition joins :: "nat \<Rightarrow> nat \<Rightarrow> 'm channel \<Rightarrow> 'm channel \<Rightarrow> bool" where
  "joins c t S S' \<longleftrightarrow> (\<forall>d. owned_at S' d \<subseteq> owned_at S d \<union> (if d = c then {t} else {}) \<and>
     (\<forall>u. stage_at S' d u \<le> stage_at S d u + (if d = c \<and> u = t then 1 else 0)))"

definition call_step :: "nat \<Rightarrow> 'm \<Rightarrow> nat \<Rightarrow> nat \<Rightarrow> 'm channel \<Rightarrow> 'm channel \<Rightarrow> bool" where
  "call_step ctl request response done_cb S S' \<longleftrightarrow> (let t = ch_next_task S in
     ch_next_task S' = Suc t \<and> (\<forall>u. u \<noteq> t \<longrightarrow> ch_tasks S' u = ch_tasks S u) \<and>
     (\<exists>T'. ch_tasks S' t = Some T' \<and> t_controller T' = ctl \<and> t_request T' = request \<and>
        t_response T' = response \<and> t_done T' = done_cb) \<and>
     (\<exists>c. joins c t S S'))"

lemma call_step_placed:
  assumes "call_step ctl request response done_cb S S'" and "placed S"
  shows "placed S'"
proof -
  define t where "t = ch_next_task S"
  obtain c where own: "\<And>d. owned_at S' d \<subseteq> owned_at S d \<union> (if d = c then {t} else {})"
    and more: "\<And>d u. stage_at S' d u \<le> stage_at S d u + (if d = c \<and> u = t then 1 else 0)"
    and next': "ch_next_task S' = Suc t"
    using assms(1) unfolding call_step_def joins_def Let_def t_def by metis
  have new: "t \<notin> owned_at S d" "stage_at S d t = 0" for d
  proof -
    show n: "t \<notin> owned_at S d" using assms(2) unfolding placed_def t_def by blast
    show "stage_at S d t = 0"
      using n live_stage [of t] live_owned by (auto simp: stage_at_def owned_at_def split: option.splits)
  qed
  have st: "stage_at S' d u \<le> 1" for d u
  proof (cases "d = c \<and> u = t")
    case True
    then show ?thesis using more [of d u] new(2) [of d] by simp
  next
    case False
    then have "stage_at S' d u \<le> stage_at S d u" using more [of d u] by (simp only: if_False add_0_right)
    also have "\<dots> \<le> 1" using assms(2) by (simp add: placed_def)
    finally show ?thesis .
  qed
  show ?thesis unfolding placed_def
  proof (intro allI conjI impI st)
    fix d u assume u: "u \<in> owned_at S' d"
    then have m: "u \<in> owned_at S d \<or> u = t \<and> d = c" using own [of d] by (cases "d = c") auto
    then show "u < ch_next_task S'" using assms(2) next' by (auto simp: placed_def t_def intro: less_SucI)
    fix d' assume "u \<in> owned_at S' d'"
    then have "u \<in> owned_at S d' \<or> u = t \<and> d' = c" using own [of d'] by (cases "d' = c") auto
    with m new(1) show "d' = d" using assms(2) unfolding placed_def by metis
  qed
qed

lemma issue_step:
  assumes "issue M P D c method ctl request response done_cb S = Inr S'"
  shows "call_step ctl request response done_cb S S'"
proof -
  obtain k where k: "ch_objs S c = Some k" using assms by (auto simp: issue_def and_then_eq_Inr_iff deref_eq_iff)
  define t where "t = ch_next_task S"
  define T where "T = \<lparr>t_method = method, t_controller = ctl, t_request = request, t_response = response,
      t_done = done_cb, t_buf = null_buf, t_id = cc_id k + 1, t_called = False,
      t_state = STATE_CONNECT_TO_SERVER, t_runs = 0\<rparr>"
  define k1 where "k1 = k\<lparr>cc_id := cc_id k + 1\<rparr>"
  define S1 where "S1 = put_cconn c k1 (put_task t T (S\<lparr>ch_next_task := Suc t\<rparr>))"
  have o1: "ch_objs S1 c = Some k1" "ch_objs S1 = (ch_objs S)(c \<mapsto> k1)" "ch_tasks S1 = (ch_tasks S)(t \<mapsto> T)"
    "ch_next_task S1 = Suc t" by (simp_all add: S1_def)
  have "conn_step {t} {t} c S1 S' \<and> (\<forall>u. u \<noteq> t \<longrightarrow> ch_tasks S' u = ch_tasks S1 u)"
  proof (cases "cc_open k")
    case True
    then have "start_call M P D c t S1 = Inr S'"
      using assms k by (simp add: issue_def Let_def t_def T_def k1_def S1_def)
    from start_call_step(1) [OF this _ o1(1)] start_call_others [OF this] show ?thesis by (simp add: o1(3))
  next
    case False
    let ?k2 = "k1\<lparr>cc_ops := ResolveOp t # cc_ops k1, cc_connecting := True\<rparr>"
    have S': "S' = setup_task_timer c t (put_cconn c ?k2 S1)"
      using assms k False by (simp add: issue_def Let_def t_def T_def k1_def S1_def)
    have "grows {t} {t} k1 ?k2"
      using grows_trans [OF grows_waiting_op [of "ResolveOp t" t k1] grows_same [of ?k2 _ "{}" "{}"]] by simp
    from conn_step_trans [OF put_cconn_step [OF o1(1) this] setup_task_timer_step [of _ c ?k2 t]]
    show ?thesis by (simp add: S')
  qed
  then have step: "conn_step {t} {t} c S1 S'" and others: "\<forall>u. u \<noteq> t \<longrightarrow> ch_tasks S' u = ch_tasks S1 u" by blast+
  obtain k' where k': "evolves S1 S'" "ch_next_task S' = Suc t" "ch_objs S' = (ch_objs S)(c \<mapsto> k')" "grows {t} {t} k1 k'"
    by (rule conn_stepE [OF step o1(1)]) (use o1(2,4) in simp)
  obtain T' where "ch_tasks S' t = Some T'" "later T T'" using evolvesD(2) [OF k'(1), of t T] o1(3) by auto
  moreover have "owned k1 = owned_at S c" "stage k1 = stage_at S c"
    using k by (simp_all add: owned_at_def stage_at_def fun_eq_iff)
      (simp_all add: k1_def owned_def stage_def outgoing_def)
  then have "joins c t S S'"
    using k'(3,4) unfolding joins_def by (simp add: owned_at_def [of S'] stage_at_def [of S'] grows_def)
      (simp add: owned_at_def stage_at_def)
  ultimately show ?thesis
    using k'(2) others o1(3) by (auto simp: call_step_def Let_def t_def [symmetric] T_def later_def)
qed

lemma CallMethod_step:
  assumes "CallMethod M P D method ctl request response done_cb S = Inr S'" and "chan_inv A S"
  shows "call_step ctl request response done_cb S S'"
proof -
  let ?h = "ctl_host (ch_ctls S ctl)" and ?s = "ctl_service (ch_ctls S ctl)"
  show ?thesis
  proof (cases "ch_conns S (?h @ '':'' @ ?s)")
    case (Some c)
    then have "issue M P D c method ctl request response done_cb S = Inr S'"
      using assms(1) by (simp add: CallMethod_def Let_def)
    then show ?thesis by (rule issue_step)
  next
    case None
    define c where "c = ch_next_conn S"
    define k where "k = RpcClientConnection_new ?h ?s"
    define S2 where "S2 = (put_cconn c k (S\<lparr>ch_next_conn := Suc c\<rparr>))
      \<lparr>ch_conns := client_map_insert (?h @ '':'' @ ?s) c (ch_conns S)\<rparr>"
    have call: "issue M P D c method ctl request response done_cb S2 = Inr S'"
      using assms(1) None by (simp add: CallMethod_def Let_def c_def k_def S2_def)
    have none: "ch_objs S c = None"
      using chan_invD(3) [OF assms(2), of c] by (cases "ch_objs S c") (auto simp: c_def)
    have "owned k = {}" "stage k u = 0" for u
      by (simp_all add: k_def RpcClientConnection_new_def owned_def members_def live_def stage_def outgoing_def)
    then have at: "owned_at S2 d = owned_at S d" "stage_at S2 d u = stage_at S d u" for d u
      using none by (auto simp: S2_def owned_at_def stage_at_def)
    have "call_step ctl request response done_cb S2 S'" by (rule issue_step [OF call])
    moreover have "joins d t S2 S' = joins d t S S'" for d t by (simp add: joins_def at)
    moreover have "ch_next_task S2 = ch_next_task S" "ch_tasks S2 = ch_tasks S" by (simp_all add: S2_def)
    ultimately show ?thesis by (simp add: call_step_def)
  qed
qed

lemma placed_cong:
  "ch_objs S' = ch_objs S \<Longrightarrow> ch_next_task S' = ch_next_task S \<Longrightarrow> placed S' = placed S"
  by (simp add: placed_def stage_at_def owned_at_def)

lemma placed_stage: "placed S \<Longrightarrow> ch_objs S c = Some k \<Longrightarrow> stage k t \<le> 1"
  unfolding placed_def stage_at_def by (metis option.simps(5))

lemma channel_reachable_placed: "channel_reachable M P D S \<Longrightarrow> placed S"
proof (induction rule: channel_reachable.induct)
  case (start ctls resps)
  show ?case by (simp add: placed_def stage_at_def owned_at_def CarrotAsyncChannel_new_def)
next
  case (call S md ctl request response done_cb S')
  from call_step_placed [OF CallMethod_step [OF call.hyps(3) channel_reachable_inv [OF call.hyps(1)]] call.IH]
  show ?case .
next
  case (user S a g)
  have "placed (set_ctl a g S) = placed S" by (rule placed_cong) simp_all
  with user.IH show ?case by simp
next
  case (user_response S a m)
  have "placed (store_response a m S) = placed S" by (rule placed_cong) (simp_all add: store_response_def)
  with user_response.IH show ?case by simp
next
  case (event S ev S' thrown)
  obtain c x where cx: "completes ev = (c, x)" by (cases "completes ev")
  note step = client_run_step(1) [OF event.hyps(3,2) cx channel_reachable_inv [OF event.hyps(1)] placed_stage [OF event.IH]]
  from conn_step_placed [OF step event.IH] show ?case .
qed

text \<open>What an event does in a reachable state.\<close>

lemma reachable_event_step:
  assumes "channel_reachable M P D S" and "client_enabled ev S" and "client_run M P D ev S = Inr (S', thrown)"
  obtains c where "conn_step {} {} c S S'" and "settles c S S'"
proof -
  obtain c x where cx: "completes ev = (c, x)" by (cases "completes ev")
  have "stage k t \<le> 1" if "ch_objs S c = Some k" for k t
    by (rule placed_stage [OF channel_reachable_placed [OF assms(1)] that])
  from that [OF client_run_step [OF assms(3,2) cx channel_reachable_inv [OF assms(1)] this]] show ?thesis .
qed

end
