(* ===== verification/Async_Channel_Ended.thy ===== *)
theory Async_Channel_Ended
  imports Async_Channel_Places Async_Channel_Connect
begin

section \<open>What the asynchronous channel does with a call that has ended\<close>

text \<open>
  When \<open>done\<close> has run, the controller, the messages and the closure are the user's again, who may
  delete them (the closure may delete itself). So the channel must not use them any more. Here
  that is stated as a noninterference: \<open>garble\<close> puts arbitrary values in the place of the four
  objects, and whatever the channel does afterwards, it does the same with and without them. It
  holds of a call that waits nowhere; and a call that ends is taken out of the table of its
  connection. What is left is a call whose resolution or connection is still pending when it times
  out: there the code does use the objects again.
\<close>

subsection \<open>Garbage in the place of a call's objects\<close>

definition garble ::
  "nat \<Rightarrow> nat \<Rightarrow> nat \<Rightarrow> controller \<Rightarrow> 'm \<Rightarrow> 'm \<Rightarrow> nat \<Rightarrow> 'm channel \<Rightarrow> 'm channel" where
  "garble a b t ctl response request done_cb S =
     S\<lparr>ch_ctls := (ch_ctls S)(a := ctl), ch_resps := (ch_resps S)(b := response),
       ch_tasks := (ch_tasks S)(t := map_option (\<lambda>T. T\<lparr>t_request := request, t_done := done_cb\<rparr>) (ch_tasks S t))\<rparr>"

text \<open>
  \<open>busy\<close>: a call that has not ended, or waits somewhere. \<open>unshared\<close>: \<open>t\<close> is not such a call, and
  no such call uses the controller \<open>a\<close> or the response \<open>b\<close>.
\<close>

definition busy :: "'m channel \<Rightarrow> nat \<Rightarrow> 'm call_task \<Rightarrow> bool" where
  "busy S u U \<longleftrightarrow> \<not> t_called U \<or> (\<exists>c k. ch_objs S c = Some k \<and> u \<in> live k)"

definition apart :: "nat \<Rightarrow> nat \<Rightarrow> nat \<Rightarrow> nat \<Rightarrow> 'm call_task \<Rightarrow> bool" where
  "apart a b t u U \<longleftrightarrow> u \<noteq> t \<and> t_controller U \<noteq> a \<and> t_response U \<noteq> b"

definition unshared :: "nat \<Rightarrow> nat \<Rightarrow> nat \<Rightarrow> 'm channel \<Rightarrow> bool" where
  "unshared a b t S \<longleftrightarrow> (\<forall>u U. ch_tasks S u = Some U \<longrightarrow> busy S u U \<longrightarrow> apart a b t u U)"

definition safe :: "nat \<Rightarrow> nat \<Rightarrow> nat \<Rightarrow> 'm channel \<Rightarrow> bool" where
  "safe a b t S \<longleftrightarrow> (\<forall>u U. ch_tasks S u = Some U \<longrightarrow> \<not> t_called U \<longrightarrow> apart a b t u U)"

lemma unshared_safe: "unshared a b t S \<Longrightarrow> safe a b t S"
  by (auto simp: unshared_def safe_def busy_def)

lemma later_apart: "later U U' \<Longrightarrow> apart a b t u U' = apart a b t u U"
  by (auto simp: later_def apart_def)

lemma later_keeps: "later U U' \<Longrightarrow> \<not> t_called U' \<Longrightarrow> \<not> t_called U" "later U U' \<Longrightarrow> apart a b t u U \<Longrightarrow> apart a b t u U'"
  by (auto simp: later_def apart_def)

lemma safe_evolves: "safe a b t S \<Longrightarrow> evolves S S' \<Longrightarrow> safe a b t S'"
  unfolding safe_def by (blast dest: evolvesD(1) later_keeps)

subsection \<open>Operations under garbage\<close>

named_theorems garbled \<open>operations commute with garble\<close>

lemma garble_sels [simp]:
  "ch_objs (garble a b t x y r d S) = ch_objs S" "ch_conns (garble a b t x y r d S) = ch_conns S"
  "ch_next_task (garble a b t x y r d S) = ch_next_task S" "ch_next_conn (garble a b t x y r d S) = ch_next_conn S"
  "ch_tasks (garble a b t x y r d S) = (ch_tasks S)
     (t := map_option (\<lambda>T. T\<lparr>t_request := r, t_done := d\<rparr>) (ch_tasks S t))"
  "a' \<noteq> a \<Longrightarrow> ch_ctls (garble a b t x y r d S) a' = ch_ctls S a'"
  by (simp_all add: garble_def)

lemma garble_put_cconn [garbled]: "put_cconn c k (garble a b t x y r d S) = garble a b t x y r d (put_cconn c k S)"
  by (simp add: garble_def put_cconn_def)

lemma garble_put_task [garbled]:
  "u \<noteq> t \<Longrightarrow> put_task u U (garble a b t x y r d S) = garble a b t x y r d (put_task u U S)"
  by (simp add: garble_def put_task_def fun_upd_twist)

lemma garble_put_own [garbled]:
  "put_task t (T\<lparr>t_request := r, t_done := d, t_state := s\<rparr>) (garble a b t x y r d S) =
   garble a b t x y r d (put_task t (T\<lparr>t_state := s\<rparr>) S)"
  by (cases T) (simp add: garble_def put_task_def)

lemma garble_set_ctl [garbled]:
  "a' \<noteq> a \<Longrightarrow> set_ctl a' g (garble a b t x y r d S) = garble a b t x y r d (set_ctl a' g S)"
  by (simp add: garble_def set_ctl_def fun_upd_twist)

lemma garble_store_response [garbled]:
  "b' \<noteq> b \<Longrightarrow> store_response b' m (garble a b t x y r d S) = garble a b t x y r d (store_response b' m S)"
  by (simp add: garble_def store_response_def fun_upd_twist)

lemma garble_add_op [garbled]: "add_op c z (garble a b t x y r d S) = garble a b t x y r d (add_op c z S)"
  by (simp add: add_op_def garbled split: option.split)

lemma garble_op_done [garbled]: "op_done c z (garble a b t x y r d S) = garble a b t x y r d (op_done c z S)"
  by (simp add: op_done_def garbled split: option.split)

lemma garble_complete [garbled]:
  assumes "safe a b t S"
  shows "complete D g u (garble a b t x y r d S) = garble a b t x y r d (complete D g u S)"
proof (cases "ch_tasks S u")
  case (Some U)
  show ?thesis
  proof (cases "t_called U")
    case False
    then have "apart a b t u U" using assms Some by (simp add: safe_def)
    with Some False show ?thesis
      by (simp add: complete_def run_done_def Let_def apart_def garbled split: option.split)
  qed (use Some in \<open>auto simp: complete_def split: option.split\<close>)
qed (auto simp: complete_def split: option.split)

lemma safe_complete: "safe a b t S \<Longrightarrow> safe a b t (complete D g u S)"
  by (rule safe_evolves [OF _ complete_evolves])

lemma safe_put_cconn [simp]: "safe a b t (put_cconn c k S) = safe a b t S"
  by (simp add: safe_def)

lemma garble_fold:
  "safe a b t S \<Longrightarrow> fold (\<lambda>(i, u). complete D g u) xs (garble a b t x y r d S) =
   garble a b t x y r d (fold (\<lambda>(i, u). complete D g u) xs S)"
  by (induction xs arbitrary: S) (auto simp: garbled safe_complete)

lemma garble_destroy [garbled]:
  "safe a b t S \<Longrightarrow> client_destroy M D e c (garble a b t x y r d S) = garble a b t x y r d (client_destroy M D e c S)"
  by (auto simp: client_destroy_def erase_from_copy_def Let_def garbled garble_fold split: option.split)

lemma garble_finish [garbled]:
  "safe a b t S \<Longrightarrow> finish_task D u (garble a b t x y r d S) = garble a b t x y r d (finish_task D u S)"
  by (simp add: finish_task_def garbled)

lemma garble_timer [garbled]:
  assumes "\<And>U. ch_tasks S u = Some U \<Longrightarrow> apart a b t u U" and "u \<noteq> t"
  shows "setup_task_timer c u (garble a b t x y r d S) = garble a b t x y r d (setup_task_timer c u S)"
  using assms by (auto simp: setup_task_timer_def garbled apart_def split: option.split)

lemma garble_erase [garbled]: "erase_task c i (garble a b t x y r d S) = garble a b t x y r d (erase_task c i S)"
  by (simp add: erase_task_def garbled split: option.split)

lemma garble_deliver [garbled]:
  "apart a b t u U \<Longrightarrow> deliver_response st msg parsed U (garble a b t x y r d S) =
   garble a b t x y r d (deliver_response st msg parsed U S)"
  by (auto simp: deliver_response_def Let_def apart_def garbled split: option.split)


text \<open>The operations that can fault or throw: both runs fault alike, or end in states that differ by the garbage.\<close>

abbreviation garble_res ::
  "nat \<Rightarrow> nat \<Rightarrow> nat \<Rightarrow> controller \<Rightarrow> 'm \<Rightarrow> 'm \<Rightarrow> nat \<Rightarrow> 'm client_outcome \<Rightarrow> 'm client_outcome" where
  "garble_res a b t x y r d \<equiv> map_sum id (map_prod (garble a b t x y r d) id)"

lemma safe_put_busy:
  assumes "safe a b t S" and "apart a b t u U"
  shows "safe a b t (put_task u U S)"
  using assms by (simp add: safe_def)

lemma garble_fail_task [garbled]:
  assumes "safe a b t S" and "apart a b t u U"
  shows "fail_task D reason ec u U (garble a b t x y r d S) = garble a b t x y r d (fail_task D reason ec u U S)"
proof -
  have "safe a b t (set_ctl (t_controller U) (SetFailed_ec reason ec) S)" using assms(1) by (simp add: safe_def)
  with assms(2) show ?thesis by (simp add: fail_task_def garbled apart_def)
qed

lemma garble_start_call [garbled]:
  assumes "safe a b t S" and "\<And>U. ch_tasks S u = Some U \<Longrightarrow> apart a b t u U" and "u \<noteq> t"
  shows "start_call M P D c u (garble a b t x y r d S) = map_sum id (garble a b t x y r d) (start_call M P D c u S)"
proof (cases "ch_tasks S u")
  case (Some U)
  have ap: "apart a b t u (U\<lparr>t_buf := bf\<rparr>)" "apart a b t u (U\<lparr>t_buf := bf, t_state := s\<rparr>)" for bf s
    using assms(2) [OF Some] by (simp_all add: apart_def)
  have sf: "safe a b t (put_task u (U\<lparr>t_buf := bf\<rparr>) S)" "safe a b t (put_task u (U\<lparr>t_buf := bf, t_state := s\<rparr>) S)" for bf s
    using safe_put_busy [OF assms(1) ap(1)] safe_put_busy [OF assms(1) ap(2)] by simp_all
  have twice: "put_task u U2 (put_task u U1 S) = put_task u U2 S" for U1 U2 by (simp add: put_task_def)
  have timer: "setup_task_timer c u (garble a b t x y r d (put_cconn c' k' (put_task u (U\<lparr>t_buf := bf, t_state := s\<rparr>) S))) =
      garble a b t x y r d (setup_task_timer c u (put_cconn c' k' (put_task u (U\<lparr>t_buf := bf, t_state := s\<rparr>) S)))"
    for c' k' bf s by (rule garble_timer) (use ap assms(3) in auto)
  show ?thesis
    using Some assms(3)
    by (auto simp: start_call_def Let_def map_sum_and_then garbled ap sf twice timer simp del: packet_layout
        intro!: and_then_cong split: option.split prod.split)
qed (use assms(3) in \<open>simp add: start_call_def\<close>)

lemma garble_start_read [garbled]:
  assumes "safe a b t S"
  shows "start_read M D c (garble a b t x y r d S) = garble_res a b t x y r d (start_read M D c S)"
  using assms by (auto simp: start_read_def Let_def map_sum_and_then garbled intro!: and_then_cong split: prod.split)


lemma garble_resolve [garbled]:
  "safe a b t S \<Longrightarrow> handle_resolve M D error c u (garble a b t x y r d S) =
   garble_res a b t x y r d (handle_resolve M D error c u S)"
  by (auto simp: handle_resolve_def map_sum_and_then garbled safe_complete intro!: and_then_cong split: option.split)

lemma garble_connect [garbled]:
  assumes "safe a b t S" and "error = None \<Longrightarrow> u \<noteq> t \<and> (\<forall>U. ch_tasks S u = Some U \<longrightarrow> apart a b t u U)"
  shows "handle_connect M P D error c u (garble a b t x y r d S) =
    garble_res a b t x y r d (handle_connect M P D error c u S)"
proof (cases error)
  case (Some e)
  with assms(1) show ?thesis by (simp add: handle_connect_def garbled safe_complete)
next
  case None
  with assms(2) have u: "u \<noteq> t" "\<And>U. ch_tasks S u = Some U \<Longrightarrow> apart a b t u U" by auto
  have read: "start_read M D c (garble a b t x y r d S1) = garble_res a b t x y r d (start_read M D c S1)"
    if sc: "start_call M P D c u (put_cconn c k S) = Inr S1" for k S1
  proof -
    obtain U where U: "ch_tasks S u = Some U" using sc by (auto simp: start_call_def and_then_eq_Inr_iff deref_eq_iff)
    obtain k1 where "ch_objs (put_cconn c k S) c = Some k1" by simp
    from start_call_step(1) [OF sc _ this, of U] U have "evolves (put_cconn c k S) S1" by (simp add: conn_step_def)
    with assms(1) have "safe a b t S1" using safe_evolves [of a b t "put_cconn c k S"] by simp
    then show ?thesis by (rule garble_start_read)
  qed
  have call: "start_call M P D c u (garble a b t x y r d (put_cconn c k S)) =
      map_sum id (garble a b t x y r d) (start_call M P D c u (put_cconn c k S))" for k
    by (rule garble_start_call) (use assms(1) u in auto)
  show ?thesis
  proof (cases "ch_objs S c")
    case (Some k)
    show ?thesis
      using None Some read [of "k\<lparr>cc_connecting := False\<rparr>"]
      by (cases "start_call M P D c u (put_cconn c (k\<lparr>cc_connecting := False\<rparr>) S)")
        (simp_all add: handle_connect_def garbled call)
  qed (use None in \<open>simp add: handle_connect_def\<close>)
qed

lemma garble_write [garbled]:
  assumes "safe a b t S"
  shows "handle_write M D error c u (garble a b t x y r d S) = garble_res a b t x y r d (handle_write M D error c u S)"
proof (cases error)
  case None
  then show ?thesis
    by (cases "u = t"; cases "ch_tasks S u") (simp_all add: handle_write_def garbled)
qed (use assms in \<open>simp add: handle_write_def garbled safe_complete\<close>)

lemma garble_timeout [garbled]:
  assumes "safe a b t S"
  shows "handle_timeout M D error c u (garble a b t x y r d S) =
    garble_res a b t x y r d (handle_timeout M D error c u S)"
proof (cases "error = None \<and> ch_objs S c \<noteq> None \<and> ch_tasks S u \<noteq> None")
  case True
  then obtain k U where k: "error = None" "ch_objs S c = Some k" "ch_tasks S u = Some U" by auto
  define U' where "U' = (if u = t then U\<lparr>t_request := r, t_done := d\<rparr> else U)"
  have "ch_tasks (garble a b t x y r d S) u = Some U'" using k(3) by (cases "u = t") (auto simp: U'_def)
  moreover have "t_id U' = t_id U" "t_state U' = t_state U"
    by (simp_all add: U'_def)
  ultimately show ?thesis
    using k assms by (simp add: handle_timeout_def Let_def garbled safe_complete del: garble_sels(5))
qed (cases "ch_objs S c"; auto simp: handle_timeout_def split: option.split)

lemma garble_store [garbled]:
  "client_store c off bs (garble a b t x y r d S) = map_sum id (garble a b t x y r d) (client_store c off bs S)"
  by (auto simp: client_store_def map_sum_and_then garbled intro!: and_then_cong)

lemma garble_read_header [garbled]:
  "safe a b t S \<Longrightarrow> client_read_header M D error c (garble a b t x y r d S) =
   garble_res a b t x y r d (client_read_header M D error c S)"
  by (auto simp: client_read_header_def Let_def map_sum_and_then garbled simp del: packet_layout
      intro!: and_then_cong split: option.split)

lemma garble_match [garbled]:
  assumes "safe a b t S" and "\<And>u U. u \<in> outgoing k \<Longrightarrow> ch_tasks S u = Some U \<Longrightarrow> apart a b t u U"
    and "t \<notin> outgoing k" and k: "ch_objs S c = Some k"
  shows "match_response M D blk rpc_len rr c k (garble a b t x y r d S) =
    garble_res a b t x y r d (match_response M D blk rpc_len rr c k S)"
proof (cases "map_of (cc_outgoing k) (rs_id rr)")
  case None
  with assms(1) show ?thesis by (simp add: match_response_def garbled)
next
  case (Some u)
  then have u: "u \<in> outgoing k" by (force simp: outgoing_def dest: map_of_SomeD)
  with assms(3) have ne: "u \<noteq> t" by blast
  show ?thesis
  proof (cases "ch_tasks S u")
    case (Some U)
    have ap: "apart a b t u U" "apart a b t u (U\<lparr>t_state := STATE_DONE\<rparr>)"
      using assms(2) [OF u Some] by (simp_all add: apart_def)
    define S1 where "S1 st msg parsed = deliver_response st msg parsed U (put_task u (U\<lparr>t_state := STATE_DONE\<rparr>) S)"
      for st msg parsed
    have s1: "safe a b t (S1 st msg parsed)" for st msg parsed
      using safe_put_busy [OF assms(1) ap(2)] by (simp add: S1_def safe_def)
    have g1: "deliver_response st msg parsed U (put_task u (U\<lparr>t_state := STATE_DONE\<rparr>) (garble a b t x y r d S)) =
        garble a b t x y r d (S1 st msg parsed)" for st msg parsed
      using ap ne by (simp add: garbled S1_def)
    note def = match_response_def Let_def S1_def [symmetric] g1
    have s2: "safe a b t (erase_task c i S2)" if "start_read M D c (S1 st msg parsed) = Inr (S2, th)" for st msg parsed S2 th i
    proof -
      have "ch_objs (S1 st msg parsed) c = Some k" using k by (simp add: S1_def)
      from start_read_step(1) [OF that this] have "evolves (S1 st msg parsed) S2" by (simp add: conn_step_def)
      then have "safe a b t S2" by (rule safe_evolves [OF s1])
      then show ?thesis by (simp add: safe_def erase_task_def split: option.split)
    qed
    show ?thesis
    proof (cases "load_u32 M off_resp_len blk")
      case (Inr resp_len)
      show ?thesis
      proof (cases "load_at (off_data + unat rpc_len) (unat resp_len) blk")
        case (Inr param)
        define S1' where "S1' = S1 (Response_status rr) (rs_message rr) (ParseFromArray (md_response_api (t_method U)) param)"
        have sr: "start_read M D c (garble a b t x y r d S1') = garble_res a b t x y r d (start_read M D c S1')"
          by (rule garble_start_read) (simp add: S1'_def s1)
        have fin: "finish_task D u (erase_task c i (garble a b t x y r d S2)) =
            garble a b t x y r d (finish_task D u (erase_task c i S2))"
          if "start_read M D c S1' = Inr (S2, th)" for S2 th i
          using garble_finish [OF s2 [OF that [unfolded S1'_def], of i]] by (simp add: garble_erase)
        show ?thesis
          using \<open>map_of _ _ = Some u\<close> Some ne Inr \<open>load_u32 _ _ _ = Inr resp_len\<close> sr fin
          by (cases "start_read M D c S1'") (auto simp: def S1'_def [symmetric] simp del: packet_layout)
      qed (use \<open>map_of _ _ = Some u\<close> Some ne \<open>load_u32 _ _ _ = Inr resp_len\<close> in \<open>simp add: match_response_def del: packet_layout\<close>)
    qed (use \<open>map_of _ _ = Some u\<close> Some ne in \<open>simp add: match_response_def del: packet_layout\<close>)
  qed (use \<open>map_of _ _ = Some u\<close> ne in \<open>simp add: match_response_def\<close>)
qed


lemma garble_read_payload [garbled]:
  assumes "safe a b t S" and "\<And>k u U. ch_objs S c = Some k \<Longrightarrow> u \<in> outgoing k \<Longrightarrow> ch_tasks S u = Some U \<Longrightarrow> apart a b t u U"
    and "\<And>k. ch_objs S c = Some k \<Longrightarrow> t \<notin> outgoing k"
  shows "client_read_payload M P D error n c (garble a b t x y r d S) =
    garble_res a b t x y r d (client_read_payload M P D error n c S)"
proof (cases "ch_objs S c")
  case (Some k)
  have m: "match_response M D blk rpc_len rr c k (garble a b t x y r d S) =
      garble_res a b t x y r d (match_response M D blk rpc_len rr c k S)" for blk rpc_len rr
    by (rule garble_match) (use assms Some in auto)
  with Some assms(1) show ?thesis
    by (auto simp: client_read_payload_def map_sum_and_then garbled simp del: packet_layout
        intro!: and_then_cong split: option.split)
qed (simp add: client_read_payload_def)

text \<open>What a connection without a completed operation still waits for.\<close>

lemma unshared_outgoing:
  assumes "unshared a b t S" and "ch_objs S c = Some k" and "u \<in> live k" and "ch_tasks S u = Some U"
  shows "apart a b t u U"
  using assms unfolding unshared_def busy_def by blast

lemma garble_run:
  assumes sh: "unshared a b t S" and en: "client_enabled ev S" and inv: "chan_inv {} S" and t: "ch_tasks S t \<noteq> None"
  shows "client_run M P D ev (garble a b t x y r d S) = garble_res a b t x y r d (client_run M P D ev S)"
proof -
  obtain c z where cx: "completes ev = (c, z)" by (cases "completes ev")
  obtain k where k: "ch_objs S c = Some k" "z \<in> set (cc_ops k)"
    using en cx by (auto simp: client_enabled_def split: option.splits)
  define S0 where "S0 = op_done c z S"
  have S0: "safe a b t S0" "ch_tasks S0 = ch_tasks S"
    using unshared_safe [OF sh] by (simp_all add: S0_def safe_def)
  have out: "outgoing k0 \<subseteq> outgoing k" if "ch_objs S0 c = Some k0" for k0
    using that k(1) by (auto simp: S0_def op_done_def outgoing_def)
  have ap: "apart a b t u U" if "u \<in> live k" "ch_tasks S u = Some U" for u U
    by (rule unshared_outgoing [OF sh k(1) that])
  have ok: "\<exists>U. ch_tasks S u = Some U" if "u \<in> live k" for u
    using chan_invD(4) [OF inv k(1)] that live_members [of k] by (auto simp: conn_ok_def task_id_def)
  have tout: "t \<notin> live k" using ap t by (auto simp: apart_def)
  have stored: "ch_tasks S1 = ch_tasks S" "safe a b t S1" "ch_objs S1 c = Some k1 \<Longrightarrow> outgoing k1 \<subseteq> outgoing k"
    if st: "client_store c off bs S0 = Inr S1" for off bs S1 k1
  proof -
    show ts: "ch_tasks S1 = ch_tasks S" using client_store_step(2) [OF st] S0(2) by simp
    then show "safe a b t S1" using S0 by (simp add: safe_def)
    show "ch_objs S1 c = Some k1 \<Longrightarrow> outgoing k1 \<subseteq> outgoing k"
      using st out unfolding client_store_def and_then_eq_Inr_iff deref_eq_iff
      by (elim exE conjE) (auto simp: outgoing_def [of "_\<lparr>cc_buf := _\<rparr>"] simp flip: outgoing_def, blast)
  qed
  have "client_handler M P D ev (garble a b t x y r d S0) = garble_res a b t x y r d (client_handler M P D ev S0)"
  proof (cases ev)
    case (Connected c' u e)
    then have "u \<in> live k" using k(2) cx by (auto simp: live_def)
    then have "u \<noteq> t \<and> (\<forall>U. ch_tasks S0 u = Some U \<longrightarrow> apart a b t u U)" using ap tout S0(2) by auto
    with Connected show ?thesis by (simp add: garble_connect [OF S0(1)])
  next
    case (HeaderArrived c' bs e)
    then have c': "c' = c" using cx by simp
    show ?thesis
    proof (cases "client_store c 0 bs S0")
      case (Inr S1)
      with HeaderArrived c' stored(2) [OF Inr] show ?thesis by (simp add: garbled)
    qed (use HeaderArrived c' in \<open>simp add: garbled\<close>)
  next
    case (PayloadArrived c' n bs e)
    then have c': "c' = c" using cx by simp
    show ?thesis
    proof (cases "client_store c off_data bs S0")
      case (Inr S1)
      have "client_read_payload M P D e (length bs) c (garble a b t x y r d S1) =
          garble_res a b t x y r d (client_read_payload M P D e (length bs) c S1)"
        by (rule garble_read_payload [OF stored(2) [OF Inr]])
          (use stored(1,3) [OF Inr] ap tout outgoing_live [of k] in auto)
      with PayloadArrived c' Inr show ?thesis by (simp add: garbled del: packet_layout)
    qed (use PayloadArrived c' in \<open>simp add: garbled del: packet_layout\<close>)
  qed (simp_all add: garbled S0(1))
  then show ?thesis using cx by (simp add: client_run_def garbled S0_def)
qed

lemma garble_enabled [simp]: "client_enabled ev (garble a b t x y r d S) = client_enabled ev S"
  by (simp add: client_enabled_def)

lemma garble_issue:
  assumes "safe a b t S" and "ctl \<noteq> a" and "resp \<noteq> b" and "t \<noteq> ch_next_task S"
  shows "issue M P D c desc ctl req resp dn (garble a b t x y r d S) =
    map_sum id (garble a b t x y r d) (issue M P D c desc ctl req resp dn S)"
proof (cases "ch_objs S c")
  case (Some k)
  let ?u = "ch_next_task S"
  have next': "(garble a b t x y r d S)\<lparr>ch_next_task := n\<rparr> = garble a b t x y r d (S\<lparr>ch_next_task := n\<rparr>)" for n
    by (simp add: garble_def)
  define U where "U = \<lparr>t_method = desc, t_controller = ctl, t_request = req, t_response = resp, t_done = dn,
      t_buf = null_buf, t_id = cc_id k + 1, t_called = False, t_state = STATE_CONNECT_TO_SERVER, t_runs = 0\<rparr>"
  define S2 where "S2 k' = put_cconn c k' (put_task ?u U (S\<lparr>ch_next_task := Suc ?u\<rparr>))" for k'
  have ap: "apart a b t ?u U" using assms(2-4) by (simp add: apart_def U_def)
  have g2: "put_cconn c k' (put_task ?u U ((garble a b t x y r d S)\<lparr>ch_next_task := Suc ?u\<rparr>)) = garble a b t x y r d (S2 k')" for k'
    using assms(4) by (simp add: next' garbled S2_def)
  have over: "put_cconn c k'' (S2 k') = S2 k''" for k' k'' by (simp add: S2_def)
  have sf: "safe a b t (S2 k')" "ch_tasks (S2 k') ?u = Some U" for k'
    using assms(1) ap by (simp_all add: S2_def safe_def)
  have timer: "setup_task_timer c ?u (garble a b t x y r d (S2 k')) = garble a b t x y r d (setup_task_timer c ?u (S2 k'))" for k'
    by (rule garble_timer) (use ap sf(2) assms(4) in auto)
  have call: "start_call M P D c ?u (garble a b t x y r d (S2 k')) =
      map_sum id (garble a b t x y r d) (start_call M P D c ?u (S2 k'))" for k'
    by (rule garble_start_call [OF sf(1)]) (use ap sf(2) assms(4) in auto)
  show ?thesis
    using Some by (simp add: issue_def Let_def U_def [symmetric] S2_def [symmetric] g2 garble_put_cconn over timer call)
qed (simp add: issue_def)

lemma garble_call:
  assumes "safe a b t S" and "ctl \<noteq> a" and "resp \<noteq> b" and "t \<noteq> ch_next_task S"
  shows "CallMethod M P D desc ctl req resp dn (garble a b t x y r d S) =
    map_sum id (garble a b t x y r d) (CallMethod M P D desc ctl req resp dn S)"
proof -
  have new: "(put_cconn c k ((garble a b t x y r d S)\<lparr>ch_next_conn := n\<rparr>))\<lparr>ch_conns := tab\<rparr> =
      garble a b t x y r d ((put_cconn c k (S\<lparr>ch_next_conn := n\<rparr>))\<lparr>ch_conns := tab\<rparr>)" for c k n tab
    by (simp add: garble_def put_cconn_def)
  have "safe a b t ((put_cconn c k (S\<lparr>ch_next_conn := n\<rparr>))\<lparr>ch_conns := tab\<rparr>)" for c k n tab
    using assms(1) by (simp add: safe_def)
  from garble_issue [OF this assms(2,3)] garble_issue [OF assms] assms(2,4) show ?thesis
    by (auto simp: CallMethod_def Let_def new split: option.split)
qed


subsection \<open>Runs\<close>

text \<open>What happens to a channel, as labels, and the runs they make.\<close>

datatype 'm happening =
    Call "'m method_desc" nat 'm nat nat
  | Event client_event
  | UserController nat "controller \<Rightarrow> controller"
  | UserResponse nat 'm

inductive channel_run ::
  "machine \<Rightarrow> 'u client_protocol \<Rightarrow> closures \<Rightarrow> 'm happening list \<Rightarrow> 'm channel \<Rightarrow> 'm channel \<Rightarrow> bool"
  for M P D where
  idle: "channel_run M P D [] S S"
| call: "ids_left S \<Longrightarrow> CallMethod M P D desc ctl req resp dn S = Inr S1 \<Longrightarrow> channel_run M P D hs S1 S' \<Longrightarrow>
    channel_run M P D (Call desc ctl req resp dn # hs) S S'"
| event: "client_enabled ev S \<Longrightarrow> client_run M P D ev S = Inr (S1, thrown) \<Longrightarrow> channel_run M P D hs S1 S' \<Longrightarrow>
    channel_run M P D (Event ev # hs) S S'"
| controller: "channel_run M P D hs (set_ctl a g S) S' \<Longrightarrow> channel_run M P D (UserController a g # hs) S S'"
| response: "channel_run M P D hs (store_response a m S) S' \<Longrightarrow> channel_run M P D (UserResponse a m # hs) S S'"

inductive_cases channel_run_cases:
  "channel_run M P D [] S S'" "channel_run M P D (Call desc ctl req resp dn # hs) S S'"
  "channel_run M P D (Event ev # hs) S S'" "channel_run M P D (UserController a g # hs) S S'"
  "channel_run M P D (UserResponse a m # hs) S S'"

lemma channel_run_reachable: "channel_run M P D hs S S' \<Longrightarrow> channel_reachable M P D S \<Longrightarrow> channel_reachable M P D S'"
  by (induction rule: channel_run.induct) (auto intro: channel_reachable.intros)

text \<open>The user does not touch the two objects, nor passes them to another call.\<close>

fun leaves_alone :: "nat \<Rightarrow> nat \<Rightarrow> 'm happening \<Rightarrow> bool" where
  "leaves_alone a b (Call desc ctl req resp dn) = (ctl \<noteq> a \<and> resp \<noteq> b)"
| "leaves_alone a b (Event ev) = True"
| "leaves_alone a b (UserController c g) = (c \<noteq> a)"
| "leaves_alone a b (UserResponse c m) = (c \<noteq> b)"

lemma unshared_same:
  "unshared a b t S \<Longrightarrow> ch_tasks S' = ch_tasks S \<Longrightarrow> ch_objs S' = ch_objs S \<Longrightarrow> unshared a b t S'"
  by (simp add: unshared_def busy_def)

lemma busy_at: "busy S u U \<longleftrightarrow> \<not> t_called U \<or> (\<exists>c. 0 < stage_at S c u)"
  unfolding busy_def stage_at_def live_stage by (auto split: option.split)

lemma unshared_event:
  assumes "unshared a b t S" and "channel_reachable M P D S" and "client_enabled ev S"
    and "client_run M P D ev S = Inr (S', thrown)"
  shows "unshared a b t S'"
  unfolding unshared_def
proof (intro allI impI)
  fix u U' assume U': "ch_tasks S' u = Some U'" "busy S' u U'"
  obtain c where step: "conn_step {} {} c S S'" by (rule reachable_event_step [OF assms(2-4)])
  obtain U where U: "ch_tasks S u = Some U" "later U U'"
    using step U'(1) evolvesD(1) unfolding conn_step_def by blast
  have "stage_at S' d u \<le> stage_at S d u" for d
    using step by (auto simp: conn_step_def stage_at_def grows_def)
  then have "busy S u U" using U'(2) U(2) unfolding busy_at by (meson later_def less_le_trans)
  then have "apart a b t u U" using assms(1) U(1) by (simp add: unshared_def)
  with U(2) show "apart a b t u U'" by (simp add: later_apart)
qed

lemma unshared_call:
  assumes "unshared a b t S" and "chan_inv {} S" and "ch_tasks S t \<noteq> None"
    and "CallMethod M P D desc ctl req resp dn S = Inr S'" and "ctl \<noteq> a" and "resp \<noteq> b"
  shows "unshared a b t S'" and "ch_tasks S' t = ch_tasks S t" and "t \<noteq> ch_next_task S"
proof -
  have step: "call_step ctl req resp dn S S'" by (rule CallMethod_step [OF assms(4,2)])
  show ne: "t \<noteq> ch_next_task S" using assms(2,3) chan_invD(1) by fastforce
  show "ch_tasks S' t = ch_tasks S t" using step ne by (simp add: call_step_def Let_def)
  obtain c where j: "joins c (ch_next_task S) S S'" using step by (auto simp: call_step_def Let_def)
  show "unshared a b t S'" unfolding unshared_def
  proof (intro allI impI)
    fix u U assume u: "ch_tasks S' u = Some U" "busy S' u U"
    show "apart a b t u U"
    proof (cases "u = ch_next_task S")
      case True
      with step u(1) ne assms(5,6) show ?thesis by (auto simp: call_step_def Let_def apart_def)
    next
      case False
      then have "stage_at S' d u \<le> stage_at S d u" for d
        using j unfolding joins_def by (metis (full_types) add.right_neutral)
      then have "busy S u U" using u(2) unfolding busy_at by (meson less_le_trans)
      moreover have "ch_tasks S u = Some U" using step u(1) False by (simp add: call_step_def Let_def)
      ultimately show ?thesis using assms(1) by (simp add: unshared_def)
    qed
  qed
qed

lemma garble_ids_left [simp]: "ids_left (garble a b t x y r d S) = ids_left S"
  by (simp add: ids_left_def)

lemma garble_channel_run:
  assumes "channel_run M P D hs S S'" and "channel_reachable M P D S" and "unshared a b t S"
    and "ch_tasks S t \<noteq> None" and "list_all (leaves_alone a b) hs"
  shows "channel_run M P D hs (garble a b t x y r d S) (garble a b t x y r d S')"
  using assms
proof (induction rule: channel_run.induct)
  case (idle S)
  show ?case by (rule channel_run.idle)
next
  case (call S desc ctl req resp dn S1 hs S')
  note inv = channel_reachable_inv [OF call.prems(1)]
  have al: "ctl \<noteq> a" "resp \<noteq> b" using call.prems(4) by simp_all
  note u = unshared_call [OF call.prems(2) inv call.prems(3) call.hyps(2) al]
  have "CallMethod M P D desc ctl req resp dn (garble a b t x y r d S) = Inr (garble a b t x y r d S1)"
    unfolding garble_call [OF unshared_safe [OF call.prems(2)] al u(3)] call.hyps(2) by simp
  moreover have "channel_run M P D hs (garble a b t x y r d S1) (garble a b t x y r d S')"
    by (rule call.IH [OF channel_reachable.call [OF call.prems(1) call.hyps(1,2)] u(1)])
      (use u(2) call.prems(3,4) in simp_all)
  ultimately show ?case using call.hyps(1) by (intro channel_run.call) simp_all
next
  case (event ev S S1 thrown hs S')
  note inv = channel_reachable_inv [OF event.prems(1)]
  have "client_run M P D ev (garble a b t x y r d S) = Inr (garble a b t x y r d S1, thrown)"
    unfolding garble_run [OF event.prems(2) event.hyps(1) inv event.prems(3)] event.hyps(2) by simp
  moreover have "ch_tasks S1 t \<noteq> None"
  proof -
    have "evolves S S1"
      by (rule reachable_event_step [OF event.prems(1) event.hyps(1,2)]) (simp add: conn_step_def)
    then show ?thesis using event.prems(3) evolvesD(2) by fastforce
  qed
  then have "channel_run M P D hs (garble a b t x y r d S1) (garble a b t x y r d S')"
    by (intro event.IH channel_reachable.event [OF event.prems(1) event.hyps(1,2)]
        unshared_event [OF event.prems(2,1) event.hyps(1,2)]) (use event.prems(4) in simp_all)
  ultimately show ?case using event.hyps(1) by (intro channel_run.event) simp_all
next
  case (controller hs c g S S')
  then have ne: "c \<noteq> a" by simp
  have "unshared a b t (set_ctl c g S)" by (rule unshared_same [OF controller.prems(2)]) simp_all
  with controller have "channel_run M P D hs (garble a b t x y r d (set_ctl c g S)) (garble a b t x y r d S')"
    by (intro controller.IH channel_reachable.user) simp_all
  then show ?case by (intro channel_run.controller) (simp add: garbled ne)
next
  case (response hs c m S S')
  then have ne: "c \<noteq> b" by simp
  have "unshared a b t (store_response c m S)"
    by (rule unshared_same [OF response.prems(2)]) (simp_all add: store_response_def)
  with response have "channel_run M P D hs (garble a b t x y r d (store_response c m S)) (garble a b t x y r d S')"
    by (intro response.IH channel_reachable.user_response) (simp_all add: store_response_def)
  then show ?case by (intro channel_run.response) (simp add: garbled ne)
qed


lemma channel_run_deterministic:
  "channel_run M P D hs S S' \<Longrightarrow> channel_run M P D hs S S'' \<Longrightarrow> S' = S''"
proof (induction arbitrary: S'' rule: channel_run.induct)
  case (idle S)
  then show ?case by (auto elim: channel_run_cases)
next
  case (call S desc ctl req resp dn S1 hs S')
  from call.prems show ?case by (rule channel_run_cases(2)) (use call.hyps(2) call.IH in simp)
next
  case (event ev S S1 thrown hs S')
  from event.prems show ?case by (rule channel_run_cases(3)) (use event.hyps(2) event.IH in simp)
next
  case (controller hs a g S S')
  from controller.prems show ?case by (rule channel_run_cases(4)) (rule controller.IH)
next
  case (response hs a m S S')
  from response.prems show ?case by (rule channel_run_cases(5)) (rule response.IH)
qed

lemma garble_nothing:
  assumes "ch_tasks S t = Some T"
  shows "garble a b t (ch_ctls S a) (ch_resps S b) (t_request T) (t_done T) S = S"
  using assms by (simp add: garble_def fun_upd_idem)

text \<open>
  C3. A call that has ended, and waits for no resolution, connection or response, is done with:
  whatever calls, events and changes follow, the channel goes through the same states, up to the
  garbage, when the user has put anything in the place of the controller, the response, the request
  and the closure of that call. So these four objects can be deleted. (They must not be used for
  another call that has not ended.) In particular the controller and the response stay as they are.
\<close>

theorem ended_call_untouched:
  assumes "channel_reachable M P D S" and "ch_tasks S t = Some T" and "t_called T"
    and "\<And>c k. ch_objs S c = Some k \<Longrightarrow> t \<notin> live k"
    and "\<And>u U. u \<noteq> t \<Longrightarrow> ch_tasks S u = Some U \<Longrightarrow> busy S u U \<Longrightarrow>
      t_controller U \<noteq> t_controller T \<and> t_response U \<noteq> t_response T"
    and "channel_run M P D hs S S'" and "list_all (leaves_alone (t_controller T) (t_response T)) hs"
  shows "channel_run M P D hs (garble (t_controller T) (t_response T) t ctl response request done_cb S)
      (garble (t_controller T) (t_response T) t ctl response request done_cb S') \<and>
    ch_ctls S' (t_controller T) = ch_ctls S (t_controller T) \<and>
    ch_resps S' (t_response T) = ch_resps S (t_response T)"
proof -
  let ?a = "t_controller T" and ?b = "t_response T"
  have "apart ?a ?b t u U" if "ch_tasks S u = Some U" "busy S u U" for u U
  proof -
    have "u \<noteq> t" using that assms(2-4) by (auto simp: busy_def)
    with assms(5) [OF this that] show ?thesis by (simp add: apart_def)
  qed
  then have un: "unshared ?a ?b t S" by (simp add: unshared_def)
  have run: "channel_run M P D hs (garble ?a ?b t x y r d S) (garble ?a ?b t x y r d S')" for x y r d
    by (rule garble_channel_run [OF assms(6,1) un _ assms(7)]) (simp add: assms(2))
  have "S' = garble ?a ?b t (ch_ctls S ?a) (ch_resps S ?b) (t_request T) (t_done T) S'"
    using run [of "ch_ctls S ?a" "ch_resps S ?b" "t_request T" "t_done T"] assms(6)
    unfolding garble_nothing [OF assms(2)] by (rule channel_run_deterministic [rotated])
  then have "ch_ctls S' = (ch_ctls S')(?a := ch_ctls S ?a)" "ch_resps S' = (ch_resps S')(?b := ch_resps S ?b)"
    by (auto simp: garble_def dest: arg_cong [where f = ch_ctls] arg_cong [where f = ch_resps])
  then have "ch_ctls S' ?a = ch_ctls S ?a" "ch_resps S' ?b = ch_resps S ?b" by (metis fun_upd_same)+
  with run show ?thesis by blast
qed

text \<open>A call whose host is not found.\<close>

definition demo_ended :: "byte list channel" where
  "demo_ended = client_destroy little_host quiet (Err 5) 0 (complete quiet (SetFailed_ec
     (''failed to connect, '' @ error_message little_host (Err 5)) EC_ERROR) 0 (op_done 0 (ResolveOp 0) demo_called))"

lemma demo_ended_step:
  "client_run little_host varint_client quiet (Resolved 0 0 (Some (Err 5))) demo_called =
     Inr (demo_ended, Some (ClientSystemError (Err 5)))"
  "client_enabled (Resolved 0 0 (Some (Err 5))) demo_called"
  by (simp_all add: client_run_def handle_resolve_def demo_ended_def client_enabled_def demo_called_state)

lemma demo_ended_state:
  "ch_tasks demo_ended = [0 \<mapsto> demo_task\<lparr>t_called := True, t_runs := 1\<rparr>]"
  "ch_objs demo_ended = [0 \<mapsto> (RpcClientConnection_new ''h'' ''80'')\<lparr>cc_id := 1, cc_connecting := True\<rparr>]"
  "ch_conns demo_ended = [''h:80'' \<mapsto> 0]" "ch_next_task demo_ended = 1"
  "ErrorCode (ch_ctls demo_ended 0) = EC_ERROR" "ch_ctls demo_ended 1 = CarrotController_addr None ''h'' ''80'' TIMEOUT_NEVER"
proof -
  have o1: "op_done 0 (ResolveOp 0) demo_called = put_cconn 0 ((RpcClientConnection_new ''h'' ''80'')
      \<lparr>cc_id := 1, cc_connecting := True\<rparr>) demo_called"
    by (simp add: op_done_def demo_called_state RpcClientConnection_new_def)
  let ?S = "complete quiet (SetFailed_ec (''failed to connect, '' @ error_message little_host (Err 5)) EC_ERROR) 0
      (op_done 0 (ResolveOp 0) demo_called)"
  have o2: "ch_objs ?S 0 = Some ((RpcClientConnection_new ''h'' ''80'')\<lparr>cc_id := 1, cc_connecting := True\<rparr>)"
    by (simp add: o1)
  have k: "cc_outgoing ((RpcClientConnection_new ''h'' ''80'')\<lparr>cc_id := 1, cc_connecting := True\<rparr>) = []"
    by (simp add: RpcClientConnection_new_def)
  have d: "demo_ended = put_cconn 0 ((RpcClientConnection_new ''h'' ''80'')\<lparr>cc_id := 1, cc_connecting := True\<rparr>) ?S"
    unfolding demo_ended_def client_destroy_as [OF o2]
    by (simp add: k) (simp add: RpcClientConnection_new_def close_socket_def connecting_def)
  have t: "t_called demo_task = False" "t_controller demo_task = 0" "t_runs demo_task = 0" by (simp_all add: demo_task_def)
  show "ch_tasks demo_ended = [0 \<mapsto> demo_task\<lparr>t_called := True, t_runs := 1\<rparr>]"
    "ch_objs demo_ended = [0 \<mapsto> (RpcClientConnection_new ''h'' ''80'')\<lparr>cc_id := 1, cc_connecting := True\<rparr>]"
    "ch_conns demo_ended = [''h:80'' \<mapsto> 0]" "ch_next_task demo_ended = 1"
    by (simp_all add: d o1 complete_tasks demo_called_state t)
  show "ErrorCode (ch_ctls demo_ended 0) = EC_ERROR"
    "ch_ctls demo_ended 1 = CarrotController_addr None ''h'' ''80'' TIMEOUT_NEVER"
    by (simp_all add: d o1 complete_def run_done_def demo_called_state t quiet_def set_ctl_def SetFailed_ec_def ErrorCode_def)
qed

theorem ended_call_untouched_witness:
  "\<exists>S'. channel_run little_host varint_client quiet [Call echo_desc 1 [4] 6 0] demo_ended S' \<and>
     ErrorCode (ch_ctls S' 0) = EC_ERROR \<and>
     channel_run little_host varint_client quiet [Call echo_desc 1 [4] 6 0]
       (garble 0 0 0 (CarrotController_default None 7) [9] [9] 9 demo_ended)
       (garble 0 0 0 (CarrotController_default None 7) [9] [9] 9 S')"
proof -
  let ?k = "(RpcClientConnection_new ''h'' ''80'')\<lparr>cc_id := 1, cc_connecting := True\<rparr>"
  let ?T = "demo_task\<lparr>t_called := True, t_runs := 1\<rparr>"
  have reach: "channel_reachable little_host varint_client quiet demo_ended"
    by (rule channel_reachable.event [OF demo_reachable(1) demo_ended_step(2,1)])
  have ids: "ids_left demo_ended" by (simp add: ids_left_def demo_ended_state)
  have c: "ch_conns demo_ended (server_key demo_ended 1) = Some 0" "ch_objs demo_ended 0 = Some ?k" "\<not> cc_open ?k"
    unfolding demo_ended_state by (simp_all add: CarrotController_addr_def RpcClientConnection_new_def)
  obtain S' where S': "CallMethod little_host varint_client quiet echo_desc 1 [4] 6 0 demo_ended = Inr S'"
    using call_unconnected [OF c refl] by blast
  have run: "channel_run little_host varint_client quiet [Call echo_desc 1 [4] 6 0] demo_ended S'"
    by (intro channel_run.call [OF ids S'] channel_run.idle)
  have T: "ch_tasks demo_ended 0 = Some ?T" "t_called ?T" by (simp_all add: demo_ended_state)
  have idle: "0 \<notin> live k" if "ch_objs demo_ended c = Some k" for c k
    using that by (auto simp: demo_ended_state live_def RpcClientConnection_new_def split: if_splits)
  have alone: "t_controller U \<noteq> t_controller ?T \<and> t_response U \<noteq> t_response ?T"
    if "u \<noteq> 0" "ch_tasks demo_ended u = Some U" "busy demo_ended u U" for u U
    using that by (simp add: demo_ended_state)
  have objs: "t_controller ?T = 0" "t_response ?T = 0" by (simp_all add: demo_task_def)
  have "list_all (leaves_alone (t_controller ?T) (t_response ?T)) [Call echo_desc 1 [4 :: byte] 6 0]"
    by (simp add: demo_task_def)
  note untouched = ended_call_untouched [OF reach T idle alone run this, where ctl = "CarrotController_default None 7"
      and response = "[9]" and request = "[9]" and done_cb = 9, unfolded objs]
  show ?thesis
    by (rule exI [of _ S']) (use untouched run demo_ended_state(5) in simp)
qed

text \<open>
  C12. A call that ends is in the table of no connection afterwards: whichever event ends it, on the
  connection of the call or as part of the failure of that connection, no response and no other
  failure can reach it. (It may still wait for its resolution or connection, see below.)
\<close>

theorem ended_call_leaves_table:
  assumes "channel_reachable M P D S" and "client_enabled ev S" and "client_run M P D ev S = Inr (S', thrown)"
    and "ch_tasks S t = Some T" and "\<not> t_called T" and "ch_tasks S' t = Some T'" and "t_called T'"
    and "ch_objs S' d = Some k"
  shows "t \<notin> snd ` set (cc_outgoing k)"
proof -
  obtain c where step: "conn_step {} {} c S S'" and settles: "settles c S S'"
    by (rule reachable_event_step [OF assms(1-3)])
  have ended: "t \<in> ended_by S S'" using assms(4-7) by (auto simp: ended_by_def)
  obtain l l' where l: "ch_objs S c = Some l" "ch_objs S' = (ch_objs S)(c \<mapsto> l')"
      "\<And>u. u \<notin> owned l \<Longrightarrow> ch_tasks S' u = ch_tasks S u"
    using step unfolding conn_step_def by auto
  have own: "t \<in> owned_at S c" using l(1,3) assms(4-7) by (force simp: owned_at_def)
  show ?thesis
  proof (cases "d = c")
    case True
    with settles ended assms(8) show ?thesis by (auto simp: settles_def outgoing_def)
  next
    case False
    then have "ch_objs S d = Some k" using l(2) assms(8) by simp
    moreover have "t \<notin> owned_at S d"
      using channel_reachable_placed [OF assms(1)] own False unfolding placed_def by metis
    ultimately show ?thesis
      using outgoing_live [of k] live_owned [of k] by (auto simp: owned_at_def outgoing_def)
  qed
qed

theorem ended_call_leaves_table_witness:
  "\<exists>S' :: byte list channel. client_run little_host varint_client quiet (Resolved 0 0 (Some (Err 5))) demo_called =
     Inr (S', Some (ClientSystemError (Err 5))) \<and> ch_objs S' 0 \<noteq> None \<and>
     (\<forall>k. ch_objs S' 0 = Some k \<longrightarrow> 0 \<notin> snd ` set (cc_outgoing k))"
proof -
  let ?k = "(RpcClientConnection_new ''h'' ''80'')\<lparr>cc_id := 1, cc_connecting := True\<rparr>"
  have T: "ch_tasks demo_called 0 = Some demo_task" "\<not> t_called demo_task"
    "ch_tasks demo_ended 0 = Some (demo_task\<lparr>t_called := True, t_runs := 1\<rparr>)"
    "t_called (demo_task\<lparr>t_called := True, t_runs := 1\<rparr>)" "ch_objs demo_ended 0 = Some ?k"
    by (simp_all add: demo_called_state demo_ended_state) (simp add: demo_task_def)
  from ended_call_leaves_table [OF demo_reachable(1) demo_ended_step(2,1) T] demo_ended_step(1) T(5) show ?thesis by auto
qed

text \<open>A call that times out while its connection is being established.\<close>

lemma timeout_while_connecting:
  assumes "ch_objs S c = Some k" and "ch_tasks S t = Some T" and "\<not> t_called T" and "D (t_done T) t = None"
    and "cc_connecting k" and "cc_outgoing k = []"
  obtains S' k' where "client_run M P D (TimerFired c t None) S = Inr (S', None)"
    and "ch_objs S' = (ch_objs S)(c \<mapsto> k')" and "cc_ops k' = remove1 (TimerOp t) (cc_ops k)"
    and "cc_outgoing k' = []" and "cc_buf k' = cc_buf k"
    and "ch_tasks S' = (ch_tasks S)(t \<mapsto> T\<lparr>t_called := True, t_runs := Suc (t_runs T)\<rparr>)"
    and "ch_ctls S' = (ch_ctls S)(t_controller T := SetFailed_ec
      (''rpc timed out at state '' @ state_strs ! t_state T) EC_RPC_TIMEOUT (ch_ctls S (t_controller T)))"
proof -
  let ?k = "k\<lparr>cc_ops := remove1 (TimerOp t) (cc_ops k)\<rparr>"
  let ?g = "SetFailed_ec (''rpc timed out at state '' @ state_strs ! t_state T) EC_RPC_TIMEOUT"
  have er: "?k\<lparr>cc_outgoing := omap_erase (t_id T) []\<rparr> = ?k" using assms(6) by (cases k) (simp add: omap_erase_def)
  define S1 where "S1 = put_task t (T\<lparr>t_called := True, t_runs := Suc (t_runs T)\<rparr>)
      (set_ctl (t_controller T) ?g (put_cconn c ?k S))"
  have "complete D ?g t (put_cconn c ?k S) = S1" using assms(2-4) by (simp add: complete_def run_done_def S1_def)
  then have run: "client_run M P D (TimerFired c t None) S = Inr (client_destroy M D timed_out c S1, None)"
    using assms(1,2,5,6) er by (simp add: client_run_def op_done_def handle_timeout_def Let_def)
  have o1: "ch_objs S1 c = Some ?k" by (simp add: S1_def)
  have d: "client_destroy M D timed_out c S1 = put_cconn c ((close_socket ?k)\<lparr>cc_outgoing := []\<rparr>) S1"
    unfolding client_destroy_as [OF o1] using assms(6) by simp
  show ?thesis
    by (rule that [OF run [unfolded d], where k' = "(close_socket ?k)\<lparr>cc_outgoing := []\<rparr>"])
      (simp_all add: S1_def, simp add: set_ctl_def)
qed

text \<open>
  C13. But there is a run in which a call is sent after it has ended. Its timer fires when the host
  has just been looked up and the completion of the resolution is queued behind that of the timer, so
  that \<open>resolver_.cancel()\<close> comes too late for it. The call ends, with \<open>EC_RPC_TIMEOUT\<close>, and its \<open>done\<close>
  runs. \<open>handle_resolve\<close> then opens the socket that \<open>destroy\<close> found closed and connects; and
  \<open>start_call\<close>, which does not ask either whether the call has ended, reads its request and its
  controller, which the user may have deleted by then, writes the call on the open connection, and
  records it as outgoing.
\<close>

theorem ended_call_sent:
  assumes "channel_reachable M P D S" and "ids_left S" and "ch_conns S (server_key S ctl) = None"
    and "T = new_task desc ctl request resp done_cb 1" and "can_send P T" and "\<And>n. can_alloc M n"
    and "ctl_timeout (ch_ctls S ctl) \<noteq> TIMEOUT_NEVER" and "D done_cb t = None"
    and "c = ch_next_conn S" and "t = ch_next_task S"
  shows "\<exists>S1 S2 S3 S4 T' k out. CallMethod M P D desc ctl request resp done_cb S = Inr S1 \<and>
    client_enabled (TimerFired c t None) S1 \<and> client_run M P D (TimerFired c t None) S1 = Inr (S2, None) \<and>
    ch_tasks S2 t = Some T' \<and> t_called T' \<and> t_runs T' = 1 \<and> ErrorCode (ch_ctls S2 ctl) = EC_RPC_TIMEOUT \<and>
    client_enabled (Resolved c t None) S2 \<and> client_run M P D (Resolved c t None) S2 = Inr (S3, None) \<and>
    client_enabled (Connected c t None) S3 \<and> asio_allows (Connected c t None) S3 \<and>
    client_run M P D (Connected c t None) S3 = Inr (S4, None) \<and>
    channel_reachable M P D S4 \<and> ch_objs S4 c = Some k \<and> cc_open k \<and> WriteOp t out \<in> set (cc_ops k) \<and>
    carries P T out \<and> (1, t) \<in> set (cc_outgoing k)"
proof -
  let ?k = "RpcClientConnection_new (ctl_host (ch_ctls S ctl)) (ctl_service (ch_ctls S ctl))"
  obtain S1 where S1: "CallMethod M P D desc ctl request resp done_cb S = Inr S1" "starts_resolving c ?k T S S1"
    unfolding assms(9) using call_first [OF assms(3,4) refl] by blast
  define k1 where "k1 = ?k\<lparr>cc_id := 1, cc_connecting := True, cc_ops := [TimerOp t, ResolveOp t]\<rparr>"
  have s1: "ch_objs S1 c = Some k1" "ch_tasks S1 t = Some T" "ch_ctls S1 = ch_ctls S"
    using S1(2) assms(4,7,10)
    by (simp_all add: starts_resolving_def Let_def timer_ops_def k1_def) (simp add: RpcClientConnection_new_def)
  have T: "\<not> t_called T" "D (t_done T) t = None" "t_controller T = ctl" "t_runs T = 0" "t_id T = 1" "t_buf T = null_buf"
    using assms(4,8) by simp_all
  have kk: "cc_connecting k1" "cc_outgoing k1 = []" "cc_buf k1 = null_buf" "cc_ops k1 = [TimerOp t, ResolveOp t]"
    by (simp_all add: k1_def) (simp_all add: RpcClientConnection_new_def)
  obtain S2 k2 where r2: "client_run M P D (TimerFired c t None) S1 = Inr (S2, None)"
    and k2: "ch_objs S2 = (ch_objs S1)(c \<mapsto> k2)" "cc_ops k2 = [ResolveOp t]" "cc_outgoing k2 = []" "cc_buf k2 = null_buf"
    and s2: "ch_tasks S2 = (ch_tasks S1)(t \<mapsto> T\<lparr>t_called := True, t_runs := Suc (t_runs T)\<rparr>)"
      "ch_ctls S2 = (ch_ctls S1)(t_controller T := SetFailed_ec
        (''rpc timed out at state '' @ state_strs ! t_state T) EC_RPC_TIMEOUT (ch_ctls S1 (t_controller T)))"
    by (rule timeout_while_connecting [where M = M and P = P and D = D, OF s1(1,2) T(1,2) kk(1,2)]) (use kk in auto)
  define T3 where "T3 = T\<lparr>t_called := True, t_runs := Suc (t_runs T)\<rparr>"
  define k3 where "k3 = k2\<lparr>cc_aborted := connecting k2, cc_open := True, cc_ops := [ConnectOp t]\<rparr>"
  let ?S3 = "put_cconn c k3 S2"
  have o2: "ch_objs S2 c = Some k2" using k2(1) by simp
  have r3: "client_run M P D (Resolved c t None) S2 = Inr (?S3, None)"
    using resolved_step [OF o2, where t = t] k2(2) by (simp add: k3_def)
  have o3: "ch_objs ?S3 c = Some k3" "ch_tasks ?S3 t = Some T3" "t_buf T3 = null_buf" "wf_pbuf (cc_buf k3)"
    using s2(1) k2(4) T(6) by (simp_all add: k3_def T3_def)
  have "make_request P T3 = make_request P T" by (simp add: T3_def make_request_def)
  then have same: "can_send P T3" "carries P T3 out = carries P T out" for out
    using assms(5) by (simp_all add: can_send_def call_size_def carries_def T3_def)
  obtain S4 k4 out where r4: "client_run M P D (Connected c t None) ?S3 = Inr (S4, None)"
    and s4: "ch_objs S4 = (ch_objs ?S3)(c \<mapsto> k4)" "carries P T3 out" "WriteOp t out \<in> set (cc_ops k4)"
      "cc_outgoing k4 = omap_insert (t_id T3) t (cc_outgoing k3)" "cc_open k4 = cc_open k3"
    by (rule connected_step [OF o3(1-3) same(1) o3(4) assms(6), where D = D]) auto
  have e: "client_enabled (TimerFired c t None) S1" "client_enabled (Resolved c t None) S2"
      "client_enabled (Connected c t None) ?S3"
    using s1(1) o2 o3(1) by (auto intro!: enabled_op simp: kk(4) k2(2) k3_def)
  have al: "asio_allows (Connected c t None) ?S3" by (simp add: k3_def connecting_def k2(2))
  note reach = channel_reachable.event [OF channel_reachable.event [OF channel_reachable.event
      [OF channel_reachable.call [OF assms(1,2) S1(1)] e(1) r2] e(2) r3] e(3) r4]
  have "ErrorCode (ch_ctls S2 ctl) = EC_RPC_TIMEOUT" using s2(2) T(3) by (simp add: SetFailed_ec_def ErrorCode_def)
  moreover have "(1, t) \<in> set (cc_outgoing k4)" using s4(4) k2(3) T(5) by (simp add: k3_def T3_def)
  moreover have "t_called T3" "t_runs T3 = 1" "ch_tasks S2 t = Some T3" using T(4) s2(1) by (simp_all add: T3_def)
  moreover have "ch_objs S4 c = Some k4" "carries P T out" "cc_open k4" using s4(1,2,5) same(2) by (simp_all add: k3_def)
  ultimately show ?thesis using S1(1) r2 r3 r4 reach e al s4(3) by blast
qed

theorem ended_call_sent_witness:
  "\<exists>(S4 :: byte list channel) (T' :: byte list call_task) k out. channel_reachable little_host varint_client quiet S4 \<and> t_called T' \<and>
     ch_objs S4 0 = Some k \<and> WriteOp 0 out \<in> set (cc_ops k) \<and> carries varint_client first_echo out"
proof -
  define S where "S = set_ctl 0 (\<lambda>_. CarrotController_addr None ''h'' ''80'' 5) demo_start"
  have reach: "channel_reachable little_host varint_client quiet S"
    unfolding S_def demo_start_def by (intro channel_reachable.user channel_reachable.start)
  have S: "ids_left S" "ch_conns S (server_key S 0) = None" "ctl_timeout (ch_ctls S 0) \<noteq> TIMEOUT_NEVER"
    "0 = ch_next_conn S" "0 = ch_next_task S"
    by (simp_all add: S_def ids_left_def demo_start_def CarrotAsyncChannel_new_def)
      (simp add: set_ctl_def CarrotController_addr_def TIMEOUT_NEVER_def)
  have q: "quiet 0 0 = None" by (simp add: quiet_def)
  from ended_call_sent [where D = quiet, OF reach S(1,2) first_echo_def first_echo_sends example_hosts(3) S(3) q S(4,5)]
  show ?thesis by blast
qed

end
