(* ===== verification/Arith_Workers.thy ===== *)
theory Arith_Workers
  imports Arith_Client Async_Channel_Ended
begin

section \<open>The workers of the example client\<close>

text \<open>
  What a worker thread has done after some turns of its loop, whatever the reactor thread and the other
  workers have done in between (\<open>worker_run\<close>).
\<close>

subsection \<open>A call can always be made\<close>

lemma start_call_conns: "start_call M P D c t S = Inr S' \<Longrightarrow> ch_conns S' = ch_conns S"
  by (auto simp: start_call_def res_simps Let_def fail_task_def finish_task_def setup_task_timer_def
      split: if_splits option.splits)

lemma start_read_conns: "start_read M D c S = Inr (S', thrown) \<Longrightarrow> ch_conns S' = ch_conns S"
  by (auto simp: start_read_def res_simps Let_def split: if_splits)

lemma client_store_conns: "client_store c off bs S = Inr S' \<Longrightarrow> ch_conns S' = ch_conns S"
  by (auto simp: client_store_def res_simps)

lemma deliver_response_conns: "ch_conns (deliver_response st msg parsed T S) = ch_conns S"
  by (simp add: deliver_response_def store_response_def Let_def split: option.split)

lemma match_response_conns:
  "match_response M D blk rpc_len rr c k S = Inr (S', thrown) \<Longrightarrow> ch_conns S' = ch_conns S"
  by (auto simp: match_response_def res_simps Let_def finish_task_def erase_task_def deliver_response_conns
      dest!: start_read_conns split: if_splits option.splits)

lemma client_run_conns:
  assumes "client_run M P D ev S = Inr (S', thrown)" shows "ch_conns S' = ch_conns S"
proof -
  have d: "ch_conns (op_done c x S) = ch_conns S" for c x by (simp add: op_done_def split: option.split)
  show ?thesis
    using assms
    by (cases ev) (auto simp: client_run_def d handle_resolve_def handle_connect_def handle_write_def handle_timeout_def
        client_read_header_def client_read_payload_def res_simps Let_def
        dest!: start_call_conns start_read_conns client_store_conns match_response_conns
        split: if_splits option.splits)
qed

lemma issue_keeps:
  assumes "issue M P D c md ctl request response done_cb S = Inr S'"
  shows "ch_conns S' = ch_conns S" and "\<exists>k'. ch_objs S' = (ch_objs S)(c \<mapsto> k')"
proof -
  obtain k where k: "ch_objs S c = Some k" using assms by (auto simp: issue_def and_then_eq_Inr_iff deref_eq_iff)
  define t where "t = ch_next_task S"
  define T where "T = \<lparr>t_method = md, t_controller = ctl, t_request = request, t_response = response,
      t_done = done_cb, t_buf = null_buf, t_id = cc_id k + 1, t_called = False,
      t_state = STATE_CONNECT_TO_SERVER, t_runs = 0\<rparr>"
  define k1 where "k1 = k\<lparr>cc_id := cc_id k + 1\<rparr>"
  define S1 where "S1 = put_cconn c k1 (put_task t T (S\<lparr>ch_next_task := Suc t\<rparr>))"
  have o1: "ch_objs S1 c = Some k1" "ch_objs S1 = (ch_objs S)(c \<mapsto> k1)" "ch_tasks S1 t = Some T" "ch_conns S1 = ch_conns S"
    by (simp_all add: S1_def)
  have "ch_conns S' = ch_conns S \<and> (\<exists>k'. ch_objs S' = (ch_objs S)(c \<mapsto> k'))"
  proof (cases "cc_open k")
    case True
    then have sc: "start_call M P D c t S1 = Inr S'"
      using assms k by (simp add: issue_def Let_def t_def T_def k1_def S1_def)
    from start_call_step(1) [OF sc o1(3,1)] start_call_conns [OF sc] o1 show ?thesis by (auto simp: conn_step_def)
  next
    case False
    then have "S' = setup_task_timer c t (put_cconn c (k1\<lparr>cc_ops := ResolveOp t # cc_ops k1, cc_connecting := True\<rparr>) S1)"
      using assms k by (simp add: issue_def Let_def t_def T_def k1_def S1_def)
    with o1 show ?thesis by (auto simp: setup_task_timer_def add_op_def split: option.split)
  qed
  then show "ch_conns S' = ch_conns S" and "\<exists>k'. ch_objs S' = (ch_objs S)(c \<mapsto> k')" by blast+
qed

lemma channel_table_objects:
  "channel_reachable M P D S \<Longrightarrow> ch_conns S key = Some c \<Longrightarrow> ch_objs S c \<noteq> None"
proof (induction arbitrary: key c rule: channel_reachable.induct)
  case (call S md ctl request response done_cb S')
  show ?case
  proof (cases "ch_conns S (server_key S ctl)")
    case (Some d)
    then have "issue M P D d md ctl request response done_cb S = Inr S'" using call.hyps(3) by (simp add: CallMethod_def Let_def)
    from issue_keeps [OF this] call.IH [of key c] call.prems show ?thesis by auto
  next
    case None
    define S2 where "S2 = (put_cconn (ch_next_conn S) (RpcClientConnection_new (ctl_host (ch_ctls S ctl)) (ctl_service (ch_ctls S ctl)))
        (S\<lparr>ch_next_conn := Suc (ch_next_conn S)\<rparr>))\<lparr>ch_conns := client_map_insert (server_key S ctl) (ch_next_conn S) (ch_conns S)\<rparr>"
    have "issue M P D (ch_next_conn S) md ctl request response done_cb S2 = Inr S'"
      using call.hyps(3) None by (simp add: CallMethod_def Let_def S2_def)
    from issue_keeps [OF this] call.IH [of key c] call.prems None show ?thesis
      by (auto simp: S2_def client_map_insert_def split: if_splits)
  qed
next
  case (event S ev S' thrown)
  obtain d where "conn_step {} {} d S S'" by (rule reachable_event_step [OF event.hyps])
  with client_run_conns [OF event.hyps(3)] event.IH [of key c] event.prems show ?case by (auto simp: conn_step_def)
qed (auto simp: CarrotAsyncChannel_new_def store_response_def)

definition arith_task :: "arith_message message_api \<Rightarrow> arith_message message_api \<Rightarrow> (nat \<Rightarrow> nat) \<Rightarrow> nat \<Rightarrow> nat \<Rightarrow> u64 \<Rightarrow>
    arith_message call_task" where
  "arith_task rq_api rs_api dis a i n =
     new_task (arith_desc rq_api rs_api) (a + i) (Arith_Request (arith_operands dis i)) (a + i) (a + i) n"

lemma turn_possible:
  assumes "channel_reachable M P D S" and "\<And>n. can_alloc M n" and "\<And>n. can_send P (arith_task rq_api rs_api dis a i n)"
  shows "\<exists>S'. DoArith_turn M P D rq_api rs_api ip dis a i S = Inr S'"
proof -
  let ?S = "new_call_objects M ip (a + i) S"
  have reach: "channel_reachable M P D ?S" by (rule new_call_objects_reachable [OF assms(1)])
  show ?thesis unfolding DoArith_turn_def ArithService_Stub_compute_def
  proof (cases "ch_conns ?S (server_key ?S (a + i))")
    case None
    from call_first [OF this refl refl]
    show "\<exists>S'. CallMethod M P D (arith_desc rq_api rs_api) (a + i) (Arith_Request (arith_operands dis i)) (a + i) (a + i) ?S = Inr S'"
      by blast
  next
    case (Some c)
    obtain k where k: "ch_objs ?S c = Some k" using channel_table_objects [OF reach Some] by auto
    show "\<exists>S'. CallMethod M P D (arith_desc rq_api rs_api) (a + i) (Arith_Request (arith_operands dis i)) (a + i) (a + i) ?S = Inr S'"
    proof (cases "cc_open k")
      case False
      from call_unconnected [OF Some k False refl] show ?thesis by blast
    next
      case True
      define t where "t = ch_next_task ?S"
      define T where "T = arith_task rq_api rs_api dis a i (cc_id k + 1)"
      define k1 where "k1 = k\<lparr>cc_id := cc_id k + 1\<rparr>"
      define S1 where "S1 = put_cconn c k1 (put_task t T (?S\<lparr>ch_next_task := Suc t\<rparr>))"
      have call: "CallMethod M P D (arith_desc rq_api rs_api) (a + i) (Arith_Request (arith_operands dis i)) (a + i) (a + i) ?S =
          start_call M P D c t S1"
        using Some k True by (simp add: CallMethod_def issue_def Let_def t_def T_def arith_task_def new_task_def k1_def S1_def)
      have st: "ch_tasks S1 t = Some T" "ch_objs S1 c = Some k1" "t_buf T = null_buf"
        by (simp_all add: S1_def T_def arith_task_def)
      obtain gq gm where "message_codec (cp_request P) gq" "message_codec (md_request_api (t_method T)) gm"
        "gq (make_request P T)" "gm (t_request T)"
        "12 + ByteSize (cp_request P) (make_request P T) + ByteSize (md_request_api (t_method T)) (t_request T) \<le> 2147483648"
        using assms(3) [of "cc_id k + 1", folded T_def] by (auto simp: can_send_def call_size_def)
      from start_call_sends [OF this(1-4) st(1,3,2) assms(2) this(5), where D = D] show ?thesis unfolding call by metis
    qed
  qed
qed

subsection \<open>The calls a worker has made\<close>

definition made :: "(nat \<Rightarrow> nat) \<Rightarrow> nat \<Rightarrow> nat \<Rightarrow> arith_message call_task \<Rightarrow> bool" where
  "made dis a j T \<longleftrightarrow> t_request T = Arith_Request (arith_operands dis j) \<and> t_controller T = a + j \<and>
     t_response T = a + j \<and> t_done T = a + j"

definition calls_made :: "(nat \<Rightarrow> nat) \<Rightarrow> nat \<Rightarrow> nat \<Rightarrow> arith_message channel \<Rightarrow> bool" where
  "calls_made dis a i S \<longleftrightarrow> (\<exists>f. inj_on f {..<i} \<and> (\<forall>j < i. \<exists>T. ch_tasks S (f j) = Some T \<and> made dis a j T))"

lemma calls_made_same:
  "calls_made dis a i S \<Longrightarrow> (\<And>u T. ch_tasks S u = Some T \<Longrightarrow> \<exists>T'. ch_tasks S' u = Some T' \<and> later T T') \<Longrightarrow> calls_made dis a i S'"
  unfolding calls_made_def made_def later_def by metis

lemma calls_made_call:
  assumes "calls_made dis a i S" and "call_step ctl request response done_cb S S'" and "chan_inv {} S"
  shows "calls_made dis a i S'"
proof (rule calls_made_same [OF assms(1)])
  fix u T assume "ch_tasks S u = Some T"
  with assms(2) chan_invD(1) [OF assms(3)] show "\<exists>T'. ch_tasks S' u = Some T' \<and> later T T'"
    by (fastforce simp: call_step_def Let_def)
qed

lemma calls_made_next:
  assumes "calls_made dis a i S" and "chan_inv {} S"
    and "call_step (a + i) (Arith_Request (arith_operands dis i)) (a + i) (a + i) S S'"
  shows "calls_made dis a (Suc i) S'"
proof -
  let ?t = "ch_next_task S"
  obtain f where f: "inj_on f {..<i}" "\<And>j. j < i \<Longrightarrow> \<exists>T. ch_tasks S (f j) = Some T \<and> made dis a j T"
    using assms(1) unfolding calls_made_def by blast
  have old: "f j < ?t" if "j < i" for j using f(2) [OF that] chan_invD(1) [OF assms(2)] by blast
  obtain T where T: "ch_tasks S' ?t = Some T" "made dis a i T" and same: "\<And>u. u \<noteq> ?t \<Longrightarrow> ch_tasks S' u = ch_tasks S u"
    using assms(3) by (auto simp: call_step_def Let_def made_def)
  have "inj_on (f(i := ?t)) {..<Suc i}"
    using f(1) old by (fastforce simp: inj_on_def lessThan_Suc less_Suc_eq)
  moreover have "\<exists>T. ch_tasks S' ((f(i := ?t)) j) = Some T \<and> made dis a j T" if "j < Suc i" for j
  proof (cases "j = i")
    case False
    with that have "j < i" by simp
    from f(2) [OF this] same [of "f j"] old [OF this] False show ?thesis by simp
  qed (use T in simp)
  ultimately show ?thesis unfolding calls_made_def by blast
qed

lemma DoArith_turn_step:
  assumes "DoArith_turn M P D rq_api rs_api ip dis a i S = Inr S'" and "channel_reachable M P D S" and "ids_left S"
    and "calls_made dis a i S"
  shows "channel_reachable M P D S' \<and> calls_made dis a (Suc i) S'"
proof -
  let ?S = "new_call_objects M ip (a + i) S"
  have reach: "channel_reachable M P D ?S" by (rule new_call_objects_reachable [OF assms(2)])
  have call: "CallMethod M P D (arith_desc rq_api rs_api) (a + i) (Arith_Request (arith_operands dis i)) (a + i) (a + i) ?S = Inr S'"
    using assms(1) by (simp add: DoArith_turn_def ArithService_Stub_compute_def)
  have "ids_left ?S" using assms(3) by (simp add: ids_left_def)
  from channel_reachable.call [OF reach this call] calls_made_next [OF _ channel_reachable_inv [OF reach]
      CallMethod_step [OF call channel_reachable_inv [OF reach]]] assms(4)
  show ?thesis by (simp add: calls_made_def)
qed

lemma worker_run_calls:
  "worker_run M P D rq_api rs_api ip dis a count i service \<Longrightarrow> 0 \<le> count \<Longrightarrow>
   int i \<le> count \<and> (case service of None \<Rightarrow> i = 0
     | Some S \<Rightarrow> channel_reachable M P D S \<and> calls_made dis a i S)"
proof (induction rule: worker_run.induct)
  case (stub_made i ctls resps)
  then show ?case by (simp add: reactor_start_def channel_reachable.start calls_made_def)
next
  case (turn i service service')
  obtain S S' where S: "service = Some S" "DoArith_turn M P D rq_api rs_api ip dis a i S = Inr S'" "service' = Some S'"
    using turn.hyps(4) by (auto simp: worker_turn_def res_simps)
  with DoArith_turn_step [OF S(2)] turn show ?case by auto
next
  case (completion i S ev S' thrown)
  then have S: "channel_reachable M P D S" "calls_made dis a i S" by simp_all
  obtain c where "conn_step {} {} c S S'" by (rule reachable_event_step [OF S(1) completion.hyps(2,3)])
  then have "evolves S S'" by (simp add: conn_step_def)
  with calls_made_same [OF S(2), of S'] evolvesD(2) have "calls_made dis a i S'" by blast
  with channel_reachable.event [OF S(1) completion.hyps(2,3)] completion show ?case by simp
next
  case (other_objects i S b)
  then have "calls_made dis a i (new_call_objects M ip b S)" by (simp add: calls_made_def)
  with other_objects show ?case by (simp add: new_call_objects_reachable)
next
  case (other_call i S desc ctl request resp done_cb S')
  then have S: "channel_reachable M P D S" "calls_made dis a i S" by simp_all
  note inv = channel_reachable_inv [OF S(1)]
  from calls_made_call [OF S(2) CallMethod_step [OF other_call.hyps(3) inv] inv]
    channel_reachable.call [OF S(1) other_call.hyps(2,3)] other_call show ?case by simp
qed simp

subsection \<open>Properties\<close>

text \<open>
  C19. What a worker of the example does, at any point of its loop and whatever completions of the
  reactor thread and calls of other workers have come between its turns (each turn, completion and call
  taken as one step): it has made one call per turn, no more than its share, which is \<open>n / c\<close> rounded
  up; each has its own task, controller, response and callback and operands of at most 120; each has
  ended exactly once or is still waited for by a connection; and the next call can be made, when memory
  is available and it can be encoded. But a turn before the reactor thread has made the stub calls
  through a null pointer.
\<close>

theorem worker_issues_calls:
  assumes "worker_run M P D rq_api rs_api ip dis a count i (Some S)"
    and "0 < n" and "0 < c" and "\<And>i. dis i \<le> 120" and "count = worker_count any n c"
  shows "n \<le> c * count \<and> c * count < n + c \<and> int i \<le> count \<and>
    worker_turn M P D rq_api rs_api ip dis a j None = Inl NullDeref \<and>
    (\<exists>f. inj_on f {..<i} \<and> (\<forall>j < i. \<exists>T q. ch_tasks S (f j) = Some T \<and>
       t_request T = Arith_Request q \<and> q = arith_operands dis j \<and> unat (op1 q) \<le> 120 \<and> unat (op2 q) \<le> 120 \<and>
       t_controller T = a + j \<and> t_response T = a + j \<and> t_done T = a + j \<and>
       t_runs T = (if t_called T then 1 else 0) \<and>
       (t_called T \<or> (\<exists>d k. ch_objs S d = Some k \<and> ((t_id T, f j) \<in> set (cc_outgoing k) \<or>
          ResolveOp (f j) \<in> set (cc_ops k) \<or> ConnectOp (f j) \<in> set (cc_ops k)))))) \<and>
    ((\<forall>m. can_alloc M m) \<and> (\<forall>m. can_send P (arith_task rq_api rs_api dis a i m)) \<longrightarrow>
      (\<exists>S'. worker_turn M P D rq_api rs_api ip dis a i (Some S) = Inr (Some S')))"
proof -
  note share = workers_make_all_calls [OF assms(3), where n = n and any = any, folded assms(5)]
  have "0 < c * count" using share(1) assms(2) by (rule less_le_trans [rotated])
  then have pos: "0 \<le> count" using assms(3) by (simp add: zero_less_mult_iff)
  from worker_run_calls [OF assms(1) pos] have run: "int i \<le> count" "channel_reachable M P D S" "calls_made dis a i S"
    by simp_all
  have small: "unat (of_nat (dis i) :: u64) \<le> 120" for i
    using assms(4) [of i] by (simp add: unat_of_nat le_trans [OF mod_less_eq_dividend])
  obtain f where f: "inj_on f {..<i}" "\<And>j. j < i \<Longrightarrow> \<exists>T. ch_tasks S (f j) = Some T \<and> made dis a j T"
    using run(3) unfolding calls_made_def by blast
  have "\<exists>T q. ch_tasks S (f j) = Some T \<and> t_request T = Arith_Request q \<and> q = arith_operands dis j \<and>
      unat (op1 q) \<le> 120 \<and> unat (op2 q) \<le> 120 \<and> t_controller T = a + j \<and> t_response T = a + j \<and> t_done T = a + j \<and>
      t_runs T = (if t_called T then 1 else 0) \<and>
      (t_called T \<or> (\<exists>d k. ch_objs S d = Some k \<and> ((t_id T, f j) \<in> set (cc_outgoing k) \<or>
         ResolveOp (f j) \<in> set (cc_ops k) \<or> ConnectOp (f j) \<in> set (cc_ops k))))" if j: "j < i" for j
  proof -
    obtain T where T: "ch_tasks S (f j) = Some T" "made dis a j T" using f(2) [OF j] by blast
    show ?thesis
      by (rule exI [of _ T], rule exI [of _ "arith_operands dis j"])
        (use T call_accounted_for [OF run(2) T(1)] small in \<open>simp add: made_def arith_operands_def\<close>)
  qed
  moreover have "\<exists>S'. worker_turn M P D rq_api rs_api ip dis a i (Some S) = Inr (Some S')"
    if "\<forall>m. can_alloc M m" "\<forall>m. can_send P (arith_task rq_api rs_api dis a i m)"
    using turn_possible [OF run(2), of rq_api rs_api dis a i ip] that by (auto simp: worker_turn_def)
  moreover have "worker_turn M P D rq_api rs_api ip dis a j None = Inl NullDeref" by (simp add: worker_turn_def)
  ultimately show ?thesis using share run(1) f(1) by blast
qed

text \<open>A worker with two calls, the first of which fails to resolve before the second is made.\<close>

definition lone_channel :: "arith_message channel" where
  "lone_channel = CarrotAsyncChannel_new (\<lambda>_. CarrotController_default None 0) (\<lambda>_. Arith_Response None)"

lemma failed_resolution_step:
  assumes "ch_objs S c = Some k" and "ResolveOp t \<in> set (cc_ops k)"
  obtains S' k' thrown where "client_enabled (Resolved c t (Some e)) S"
    and "client_run M P D (Resolved c t (Some e)) S = Inr (S', thrown)"
    and "ch_objs S' = (ch_objs S)(c \<mapsto> k')" and "cc_id k' = cc_id k" and "\<not> cc_open k'" and "ch_conns S' = ch_conns S"
proof -
  define k0 where "k0 = k\<lparr>cc_ops := remove1 (ResolveOp t) (cc_ops k)\<rparr>"
  define S0 where "S0 = complete D (SetFailed_ec (''failed to connect, '' @ error_message M e) EC_ERROR) t (put_cconn c k0 S)"
  have o: "ch_objs S0 c = Some k0" "ch_objs S0 = (ch_objs S)(c \<mapsto> k0)" "ch_conns S0 = ch_conns S" by (simp_all add: S0_def)
  have h: "handle_resolve M D (Some e) c t S1 = Inr (client_destroy M D e c
      (complete D (SetFailed_ec (''failed to connect, '' @ error_message M e) EC_ERROR) t S1), Some (ClientSystemError e))" for S1
    by (simp only: handle_resolve_def option.case)
  have run: "client_run M P D (Resolved c t (Some e)) S = Inr (client_destroy M D e c S0, Some (ClientSystemError e))"
    using assms(1) by (simp add: client_run_def op_done_def h k0_def [symmetric]) (simp add: S0_def)
  show ?thesis
    by (rule that [OF _ run, where k' = "(close_socket k0)\<lparr>cc_outgoing := []\<rparr>"])
      (use assms in \<open>simp_all add: enabled_op client_destroy_as [OF o(1)] o(2,3) k0_def\<close>)
qed

lemma lone_worker:
  "\<exists>S. worker_run little_host varint_client quiet rq_api rs_api ''h'' dis 0 2 2 (Some S) \<and> ch_next_task S = 2"
proof -
  let ?run = "worker_run little_host varint_client quiet rq_api rs_api ''h'' dis 0 2"
  let ?N = "\<lambda>i. new_call_objects little_host ''h'' i"
  let ?addr = "CarrotController_addr (junk_callback little_host) ''h'' ''8888'' 1000"
  have addr: "ctl_host ?addr = ''h''" "ctl_service ?addr = ''8888''" by simp_all
  have r0: "?run 0 (Some lone_channel)"
    using worker_run.stub_made [OF worker_run.begins] by (simp add: reactor_start_def lone_channel_def)
  have z: "ch_conns lone_channel = (\<lambda>_. None)" "ch_next_conn lone_channel = 0" "ch_next_task lone_channel = 0"
    "ch_objs lone_channel = (\<lambda>_. None)" by (simp_all add: lone_channel_def CarrotAsyncChannel_new_def)
  define q where "q = (\<lambda>i. Arith_Request (arith_operands dis i))"
  have "ch_conns (?N 0 lone_channel) (server_key (?N 0 lone_channel) 0) = None" by (simp add: z)
  from call_first [OF this refl refl, of little_host varint_client quiet "arith_desc rq_api rs_api" "q 0" 0 0]
  obtain S1 k1 where t1: "DoArith_turn little_host varint_client quiet rq_api rs_api ''h'' dis 0 0 lone_channel = Inr S1"
    and S1: "ch_objs S1 = [0 \<mapsto> k1]" "cc_id k1 = 1" "ResolveOp 0 \<in> set (cc_ops k1)" "ch_conns S1 = [''h:8888'' \<mapsto> 0]"
      "ch_next_task S1 = 1"
    by (auto simp: DoArith_turn_def ArithService_Stub_compute_def q_def starts_resolving_def Let_def z RpcClientConnection_new_def)
  have r1: "?run 1 (Some S1)"
    using worker_run.turn [OF r0, of "Some S1"] t1 by (simp add: worker_turn_def ids_left_def z)
  obtain S2 k2 thrown where e: "client_enabled (Resolved 0 0 (Some (Err 1))) S1"
      "client_run little_host varint_client quiet (Resolved 0 0 (Some (Err 1))) S1 = Inr (S2, thrown)"
    and S2: "ch_objs S2 = (ch_objs S1)(0 \<mapsto> k2)" "cc_id k2 = cc_id k1" "\<not> cc_open k2" "ch_conns S2 = ch_conns S1"
    by (rule failed_resolution_step [of S1 0 k1 0]) (use S1 in auto)
  have n2: "ch_next_task S2 = 1"
    using e(2) S1(5) by (auto simp: client_run_def handle_resolve_def op_done_def split: option.splits)
  have r2: "?run 1 (Some S2)" by (rule worker_run.completion [OF r1 e])
  have c: "ch_conns (?N 1 S2) (server_key (?N 1 S2) 1) = Some 0" "ch_objs (?N 1 S2) 0 = Some k2" using S1 S2 by simp_all
  from call_unconnected [OF c S2(3) refl, of little_host varint_client quiet "arith_desc rq_api rs_api" "q 1" 1 1]
  obtain S3 where t3: "DoArith_turn little_host varint_client quiet rq_api rs_api ''h'' dis 0 1 S2 = Inr S3" "ch_next_task S3 = 2"
    using n2 by (auto simp: DoArith_turn_def ArithService_Stub_compute_def q_def starts_resolving_def Let_def)
  have "ids_left S2" using S1 S2 by (simp add: ids_left_def)
  then have "?run 2 (Some S3)"
    using worker_run.turn [OF r2, of "Some S3"] t3 by (simp add: worker_turn_def numeral_2_eq_2)
  with t3(2) show ?thesis by blast
qed

theorem worker_issues_calls_witness:
  "\<exists>S f. worker_run little_host varint_client quiet (arith_api parse_arith_request) (arith_api parse_arith_response)
      ''h'' (\<lambda>i. 7) 0 2 2 (Some S) \<and> inj_on f {..<2 :: nat} \<and>
    (\<forall>j < 2. \<exists>T. ch_tasks S (f j) = Some T \<and> t_request T = Arith_Request (arith_operands (\<lambda>i. 7) j))"
proof -
  obtain S where S: "worker_run little_host varint_client quiet (arith_api parse_arith_request) (arith_api parse_arith_response)
      ''h'' (\<lambda>i. 7) 0 2 2 (Some S)" using lone_worker by blast
  have "(7 :: nat) \<le> 120" "(0 :: int) < 3" "(0 :: int) < 2" "(2 :: int) = worker_count 0 3 2" by (simp_all add: worker_count_def)
  from worker_issues_calls [OF S this(2,3,1,4), THEN conjunct2, THEN conjunct2, THEN conjunct2, THEN conjunct2, THEN conjunct1]
  obtain f where f: "inj_on f {..<2 :: nat}"
    and calls: "\<And>j. j < 2 \<Longrightarrow> \<exists>T q. ch_tasks S (f j) = Some T \<and> t_request T = Arith_Request q \<and> q = arith_operands (\<lambda>i. 7) j"
    by meson
  have "\<forall>j < 2. \<exists>T. ch_tasks S (f j) = Some T \<and> t_request T = Arith_Request (arith_operands (\<lambda>i. 7) j)"
    using calls by blast
  with S f show ?thesis by blast
qed

end
