(* ===== verification/Simple_Server_Run.thy ===== *)
theory Simple_Server_Run
  imports Simple_Server_Requests
begin

section \<open>How the simple server stops: CarrotSimpleServer::Run\<close>

text \<open>
  \<open>Run\<close> of src/src/server/carrot_simple_server.cpp ends by the exception it throws when the reactor does
  not take the listening event, by an exception of a service method, which neither the callbacks nor
  the reactor's loop catch, or after \<open>Stop\<close>. What the server is like after each of the three, and that
  it can be destroyed then.
\<close>

subsection \<open>A method that throws\<close>

lemma method_throws:
  assumes "simple_reachable M P w0 S" and "c \<in> set (ss_events S)" and "ss_objs S c = Some k"
    and "to_read (client_fd k) (ss_os S) =
      frame (of_nat (length meta)) (of_nat (length param)) 0 (meta @ param) @ later"
    and "12 + length meta + length param < 4294967296" and "\<And>n. can_alloc M n"
    and "ParseFromArray (proto_request P) meta = Some rq"
    and "dispatch_to (ss_services S) (rq_method_identity rq) = Target cs md"
    and "ParseFromArray (request_api md) param = Some request"
    and "call_method md request (CarrotController_default (junk_callback M) (junk_u32 M)) (response_new md)
      = (ctl, response, Some what)"
  shows "\<exists>S'. client_callback M P True c S = Inr (S', Some what)"
proof -
  obtain b w tail where run: "simple_handle_client M P c S =
      and_then (serve_request M P (ss_services S) (of_nat (length meta)) (of_nat (length param))
        (host_header M (of_nat (length meta)) (of_nat (length param)) 0 @ meta @ param @ tail) rq)
       (simple_continue M P c (with_buffer c k b w S))"
    by (rule simple_request_arrives [OF simple_reachable_inv [OF assms(1)] assms(2-7)])
  have lens: "unat (of_nat (length meta) :: u32) = length meta"
    "unat (of_nat (length param) :: u32) = length param" using assms(5) by (simp_all add: unat_of_nat_u32)
  note parameter_loaded [OF assms(8) lens assms(9,10), of P]
  with run show ?thesis by (simp add: client_callback_def simple_continue_def)
qed

subsection \<open>The three ways Run ends\<close>

lemma served_unwatched [simp]: "served (S\<lparr>ss_events := evs\<rparr>) = served S"
  by (simp add: served_def client_of_def cong: option.case_cong)

lemma run_result:
  assumes "simple_reachable M P w0 S" and "reactor_reports M P evs S"
    and "CarrotSimpleServer_Run M P add_ok evs S = Inr (S', thrown)"
  obtains T where "simple_reachable M P w0 T" and "S' = (if thrown = None then T\<lparr>ss_events := []\<rparr> else T)"
    and "\<not> add_ok \<Longrightarrow> T = S \<and> thrown = Some ''failed to add event to the reactor''"
    and "\<And>what. add_ok \<Longrightarrow> thrown = Some what \<Longrightarrow>
      \<exists>U c. simple_reachable M P w0 U \<and> c \<in> set (ss_events U) \<and> client_callback M P True c U = Inr (T, Some what)"
proof (cases add_ok)
  case False
  with assms(1,3) show ?thesis by (intro that [of S]) (auto simp: CarrotSimpleServer_Run_def)
next
  case True
  then obtain T th where T: "reactor_loop M P evs S = Inr (T, th)"
    and end_of: "S' = (if th = None then T\<lparr>ss_events := []\<rparr> else T)" "thrown = th"
    using assms(3) by (auto simp: CarrotSimpleServer_Run_def and_then_eq_Inr_iff split: option.splits)
  from reactor_loop_result [OF assms(1,2) T] end_of True show ?thesis by (intro that [of T]) auto
qed

text \<open>
  C40. How \<open>Run\<close> ends, whatever the reactor reports to it. When the reactor does not take the
  listening event it throws, with nothing changed. Otherwise an exception is one that a service method
  threw while the request of a watched connection was handled, and the server is left with exactly
  the connections in use watched. After \<open>Stop\<close> no connection is
  watched any more, while those in use stay open. In all cases the pool is well formed: a
  connection in use is alive, with an open descriptor that no other one in use has, an unused one is
  dead, none is both or listed twice, and each block is as long as its size says; and the
  destructor then deletes every connection and closes exactly the descriptors in use.
\<close>

theorem simple_run_well_formed:
  assumes "simple_reachable M P w0 S" and "reactor_reports M P evs S"
    and "CarrotSimpleServer_Run M P add_ok evs S = Inr (S', thrown)"
  shows "(\<not> add_ok \<longrightarrow> S' = S \<and> thrown = Some ''failed to add event to the reactor'') \<and>
    (\<forall>what. add_ok \<and> thrown = Some what \<longrightarrow> (\<exists>T c. simple_reachable M P w0 T \<and> c \<in> set (ss_events T) \<and>
      client_callback M P True c T = Inr (S', Some what))) \<and>
    set (ss_events S') = (if thrown = None then {} else dom (ss_in_use S')) \<and> distinct (ss_events S') \<and>
    distinct (ss_unused S') \<and> dom (ss_in_use S') \<inter> set (ss_unused S') = {} \<and>
    (\<forall>c \<in> dom (ss_in_use S'). \<exists>k. ss_objs S' c = Some k \<and> alive k \<and> os_fds (ss_os S') (client_fd k) \<noteq> None) \<and>
    (\<forall>c \<in> set (ss_unused S'). \<exists>k. ss_objs S' c = Some k \<and> \<not> alive k) \<and>
    (\<forall>c c' k k'. {c, c'} \<subseteq> dom (ss_in_use S') \<longrightarrow> ss_objs S' c = Some k \<longrightarrow> ss_objs S' c' = Some k' \<longrightarrow>
      client_fd k = client_fd k' \<longrightarrow> c = c') \<and>
    (\<forall>c k blk. ss_objs S' c = Some k \<longrightarrow> buf_p (c_buf k) = Some blk \<longrightarrow> length blk = unat (buf_size (c_buf k))) \<and>
    (\<exists>D. CarrotSimpleServer_delete S' = Inr D \<and> ss_objs D = (\<lambda>_. None) \<and>
      (\<forall>fd. os_fds (ss_os D) fd = (if fd \<in> served S' then None else os_fds (ss_os S') fd)))"
proof (rule run_result [OF assms])
  fix T
  assume T: "simple_reachable M P w0 T" and S': "S' = (if thrown = None then T\<lparr>ss_events := []\<rparr> else T)"
    and refused: "\<not> add_ok \<Longrightarrow> T = S \<and> thrown = Some ''failed to add event to the reactor''"
    and thrower: "\<And>what. add_ok \<Longrightarrow> thrown = Some what \<Longrightarrow>
      \<exists>U c. simple_reachable M P w0 U \<and> c \<in> set (ss_events U) \<and> client_callback M P True c U = Inr (T, Some what)"
  note inv = simple_reachable_inv [OF T]
  note D = simple_invD [OF inv]
  have same: "ss_in_use S' = ss_in_use T" "ss_objs S' = ss_objs T" "ss_unused S' = ss_unused T" "ss_os S' = ss_os T"
    "served S' = served T" "CarrotSimpleServer_delete S' = CarrotSimpleServer_delete T"
    by (simp_all add: S' CarrotSimpleServer_delete_def)
  have one_fd: "c = c'" if "{c, c'} \<subseteq> dom (ss_in_use T)" "ss_objs T c = Some k" "ss_objs T c' = Some k'"
    "client_fd k = client_fd k'" for c c' k k'
  proof -
    have "client_of T c = client_of T c'"
      using that client_of_in_use [OF inv that(2)] client_of_in_use [OF inv that(3)] by auto
    with D(6) that(1) show ?thesis by (auto dest: inj_onD)
  qed
  have apart: "dom (ss_in_use T) \<inter> set (ss_unused T) = {}" using D(2,3) by fastforce
  have blocks: "length blk = unat (buf_size (c_buf k))" if "ss_objs T c = Some k" "buf_p (c_buf k) = Some blk" for c k blk
    using D(8) [OF that(1)] that(2) by (simp add: exact_pbuf_def)
  have used: "\<exists>k. ss_objs T c = Some k \<and> alive k \<and> os_fds (ss_os T) (client_fd k) \<noteq> None"
    if "c \<in> dom (ss_in_use T)" for c using that D(2) by blast
  have events: "set (ss_events S') = (if thrown = None then {} else dom (ss_in_use T)) \<and> distinct (ss_events S')"
    using D(5,9) by (simp add: S')
  have refusal: "\<not> add_ok \<longrightarrow> S' = S \<and> thrown = Some ''failed to add event to the reactor''"
    using refused by (auto simp: S')
  have source: "\<forall>what. add_ok \<and> thrown = Some what \<longrightarrow> (\<exists>U c. simple_reachable M P w0 U \<and> c \<in> set (ss_events U) \<and>
      client_callback M P True c U = Inr (S', Some what))"
    using thrower by (auto simp: S')
  show ?thesis
    unfolding same using refusal source events D(3,4) apart used one_fd blocks simple_delete_result [OF inv] by blast
qed

text \<open>A server whose method throws: it accepts a client, and the client's request ends \<open>Run\<close>.\<close>

definition throwing_method :: "byte list rpc_method" where
  "throwing_method = echo_method\<lparr>call_method := (\<lambda>req ctl resp. (ctl, resp, Some ''overloaded''))\<rparr>"

definition throwing_service :: "byte list service" where
  "throwing_service = echo_service\<lparr>find_method := (\<lambda>name. if name = ''echo'' then Some throwing_method else None)\<rparr>"

definition throwing_server :: "byte list sserver" where
  "throwing_server = snd (simple_RegisterService (CarrotSimpleServer_new quiet_os) throwing_service None)"

lemma throwing_server_is:
  "throwing_server = simple_start\<lparr>ss_services := [''Echo'' \<mapsto> \<lparr>cs_s = throwing_service, cs_c = None\<rparr>]\<rparr>"
  by (simp add: throwing_server_def simple_start_def simple_RegisterService_def RegisterService_def
      CarrotSimpleServer_new_def echo_service_def throwing_service_def Let_def)

lemma throwing_run:
  defines "req \<equiv> frame (of_nat (length echo_meta)) 0 0 echo_meta"
  obtains S where "CarrotSimpleServer_Run little_host varint_protocol True
      [ListenReady True (Some (5, sock_with req)) True, ClientReady True 0] throwing_server = Inr (S, Some ''overloaded'')"
    and "reactor_reports little_host varint_protocol
      [ListenReady True (Some (5, sock_with req)) True, ClientReady True 0] throwing_server"
proof -
  let ?S = "(simple_serving req)\<lparr>ss_services := [''Echo'' \<mapsto> \<lparr>cs_s = throwing_service, cs_c = None\<rparr>]\<rparr>"
  have listen: "listen_callback True (Some (5, sock_with req)) True throwing_server = Inr ?S"
    by (simp add: throwing_server_is listen_callback_def handle_listen_sock_def Let_def rpc_connection_new_def
        simple_serving_def simple_conn_def)
      (simp add: put_sconn_def quiet_os_def)
  have free: "os_fds (ss_os throwing_server) 5 = None" by (simp add: throwing_server_is quiet_os_def)
  have reach: "simple_reachable little_host varint_protocol quiet_os ?S"
    by (rule simple_reachable.listen [OF _ free listen])
      (simp add: throwing_server_def simple_reachable.register simple_reachable.start)
  have st: "0 \<in> set (ss_events ?S)" "ss_objs ?S 0 = Some simple_conn" by (simp_all add: simple_serving_def)
  have tr: "to_read (client_fd simple_conn) (ss_os ?S) =
      frame (of_nat (length echo_meta)) (of_nat (length [])) 0 (echo_meta @ []) @ []"
    by (simp add: simple_serving_def simple_conn_def to_read_def req_def)
  have small: "12 + length echo_meta + length ([] :: byte list) < 4294967296" by (simp add: echo_meta_length)
  have target: "dispatch_to (ss_services ?S) (rq_method_identity echo_request) =
      Target \<lparr>cs_s = throwing_service, cs_c = None\<rparr> throwing_method"
    by (simp add: echo_request_def dispatch_to_def throwing_service_def echo_service_def)
  have "\<exists>S'. client_callback little_host varint_protocol True 0 ?S = Inr (S', Some ''overloaded'')"
    by (rule method_throws [OF reach st tr small example_hosts(3) echo_meta_parses target])
      (simp_all add: throwing_method_def echo_method_def bytes_api_def)
  then obtain S' where "client_callback little_host varint_protocol True 0 ?S = Inr (S', Some ''overloaded'')" ..
  with listen free st show ?thesis
    by (intro that [of S']) (simp_all add: CarrotSimpleServer_Run_def)
qed

theorem simple_run_well_formed_witness:
  "\<exists>evs S'. CarrotSimpleServer_Run little_host varint_protocol True evs throwing_server = Inr (S', Some ''overloaded'') \<and>
     set (ss_events S') = dom (ss_in_use S') \<and> distinct (ss_events S') \<and> distinct (ss_unused S')"
proof -
  have start: "simple_reachable little_host varint_protocol quiet_os throwing_server"
    unfolding throwing_server_def by (intro simple_reachable.register simple_reachable.start)
  obtain S evs where S: "CarrotSimpleServer_Run little_host varint_protocol True evs throwing_server = Inr (S, Some ''overloaded'')"
    "reactor_reports little_host varint_protocol evs throwing_server" by (metis throwing_run)
  from simple_run_well_formed [OF start S(2,1)] S(1) show ?thesis by auto
qed

end
