(* ===== verification/Spec2Isabelle.thy ===== *)
theory Spec2Isabelle
  imports Blocking_Channel Async_Server_Accepting Async_Server_Deleted Mixed_Endpoints Arith_Workers Simple_Server_Run
    Async_Channel_Ended
begin

text \<open>
  A verification development for carrot-rpc, a remote procedure call library over TCP and
  protocol buffers (src/src). Its parts and how they interact:

  A call is made on a channel (src/src/client) and answered by a server (src/src/server). On
  the wire it is a packet in each direction (common/packet.h): three lengths, then a \<open>Request\<close>
  or \<open>Response\<close> record of the protocol (protob/rpc.proto), then the parameter or the result of
  the method. There are two channels, an asynchronous one over Boost.Asio and a blocking one,
  and three servers: asynchronous over Boost.Asio, single-threaded over the reactor of the
  cheetah library, and one thread per client. All share the service table of \<open>CarrotServer\<close>,
  the growing packet buffers and socket helpers of common/utils.cpp, and the
  \<open>CarrotController\<close> that reports the outcome of a call.

  Theories, in the order of their imports:

  \<^item> \<open>Carrot_Prelude\<close>: words and byte order, bounds-checked memory blocks, faults (\<open>Hang\<close>, null
    dereference, access out of bounds) and their sequencing \<open>and_then\<close>, shared by all.
  \<^item> \<open>Packet\<close>: struct packet and the two conversions of packet.h. \<open>machine\<close> collects what the
    platform decides: byte order, the allocator, uninitialised values, \<open>strerror\<close>.
  \<^item> \<open>Socket_IO\<close>: \<open>read_n\<close>, \<open>write_n\<close>, \<open>connect_to\<close>, \<open>create_server_tcp_socket\<close> and the other
    functions of utils.cpp, against a script of the kernel's answers.
  \<^item> \<open>Packet_Buffer\<close>: \<open>expand_packet\<close>, and the locale \<open>growable_buffer\<close>, the contract of a
    growing buffer, which it meets here and \<open>expand_connection_packet\<close> meets in \<open>Simple_Server\<close>.
  \<^item> \<open>Controller\<close>: every operation of carrot_controller.h.
  \<^item> \<open>Rpc_Message\<close>, \<open>Message_Codec\<close>, \<open>Message_Wire\<close>, \<open>Varint_Wire\<close>: \<open>Request\<close> and \<open>Response\<close> as
    rpc.pb.h and rpc.pb.cc have them, with has-bits, unknown fields, parse loops and
    serialisers. The protobuf runtime is the record \<open>pb_lib\<close> of functions; \<open>wire_format\<close> and
    \<open>lite_message\<close> state its documented behaviour, from which \<open>request_wire\<close> and
    \<open>response_wire\<close> derive the contract \<open>message_codec\<close>. \<open>Varint_Wire\<close> is a concrete runtime that
    satisfies all of it.
  \<^item> \<open>Service_Registry\<close>: \<open>RegisterService\<close> and how a server resolves a method identity.
  \<^item> \<open>Async_Server\<close>, \<open>Async_Server_Replies\<close>: carrot_async_server.cpp. \<open>aserver\<close> holds the
    \<open>RpcServerConnection\<close> objects and the operation each has pending; an event completes one, and
    \<open>server_reachable\<close> are the states events lead to.
  \<^item> \<open>Async_Channel\<close>, \<open>Async_Channel_Inv\<close>, \<open>Async_Channel_Calls\<close>: carrot_async_channel.cpp.
    \<open>channel\<close> holds the connections, their tables of outgoing calls and the tasks;
    \<open>channel_reachable\<close> are the states that \<open>CallMethod\<close> and completed operations lead to.
  \<^item> \<open>Async_Server_Accepting\<close>: whether that server goes on accepting. \<open>Async_Server_Deleted\<close>: its
    connections after its destructor has run, and that they do not use it any more (\<open>reuse\<close> puts
    other values in the place of its members).
  \<^item> \<open>End_To_End\<close>: an asynchronous channel and server together. \<open>exchange\<close> is what the two do with
    the bytes of a call, \<open>remote_exchange\<close> what a caller sees of it.
  \<^item> \<open>Async_Channel_Connect\<close>: from \<open>CallMethod\<close> on a channel without a connection, through resolution
    and connection, to that exchange; and calls that come while the connection is being made.
  \<^item> \<open>Async_Channel_Places\<close>, \<open>Async_Channel_Ended\<close>: what one event of the channel can do to the places
    a call waits in, and from that which of the caller's objects a call that has ended still uses:
    \<open>garble\<close> replaces them, and the channel runs on the same.
  \<^item> \<open>Blocking_Requests\<close>: the process's descriptors (\<open>os\<close>), and the steps that \<open>handle_client\<close> of
    carrot_simple_server.cpp and of carrot_threaded_server.cpp have in common, over the function
    that grows the buffer. \<open>expected_reply\<close> is their specification: the bytes that answer a
    request, with no buffer or descriptor in it.
  \<^item> \<open>Simple_Server\<close>, \<open>Simple_Server_Inv\<close>, \<open>Simple_Server_Requests\<close>: carrot_simple_server.cpp,
    its pool of \<open>rpc_connection\<close> objects, callbacks, \<open>Run\<close> and destructor.
  \<^item> \<open>Threaded_Server\<close>: carrot_threaded_server.cpp, first the loop of one thread, then threads,
    each with its \<open>errno\<close>, as interleaved steps over the descriptors they share.
  \<^item> \<open>Threaded_Interleaving\<close>: a run of the threads is projected to what one of them does and sees;
    from there every client is served as if it were alone.
  \<^item> \<open>Blocking_Channel\<close>: carrot_blocking_channel.cpp, and its calls to a simple server.
  \<^item> \<open>Mixed_Endpoints\<close>: the asynchronous channel with a simple server.
  \<^item> \<open>Arith_Service\<close>, \<open>Arith_Client\<close>: the programs of src/examples, carrotrpc-server.cpp, specified by
    arithmetic modulo \<open>2 ^ 64\<close>, and carrotrpc-async_client.cpp, and a call from one to the other.
\<close>

text \<open>
  What the lemmas show. Wire level: packets and messages survive the way between machines of
  any byte order. Buffers and sockets: when \<open>expand_packet\<close>, \<open>read_n\<close> and \<open>write_n\<close> return, and
  with what. Servers: a request for an offered method is answered with the specified reply, by
  each server from any state it can be in; the simple server's pool refines a set of
  descriptors; a thread answers all requests of its client and ends, whatever the other threads
  do in between; the two blocking servers write the same replies. Channels: every asynchronous call ends exactly once, a response ends
  the call it names, a call that ends leaves every table, the objects of one that has ended and
  waits for nothing can be deleted, and a blocking call writes and reads exactly one frame. Both sides: a call
  on an open connection to a server that offers the method ends with the method's result, and so
  does the first call, for which the connection is made. A call of the example client ends with
  the arithmetic the example service is specified by.

  The same models show where the code falls short, each as a theorem: the 32-bit sizes that make
  \<open>expand_packet\<close> loop for ever or a payload overflow its buffer; the \<open>errno\<close> test that makes
  \<open>read_n\<close> spin at the end of its input; the reply that the asynchronous server writes into a
  buffer sized for the request; the null dereference in the log statement for unknown methods;
  the failed connection that stays in the channel's table; the second close of a descriptor by
  the threaded server; the required \<open>id\<close> that the blocking channel, the simple and the threaded
  server never set, so that they reject each other's messages, and one such reply ends every call
  of an asynchronous connection; the calls made before the connection is up, each of which connects
  the same socket again and starts a read of its own into the same buffer; the \<open>bad_alloc\<close> after
  which the asynchronous server never accepts again; the call that times out while it connects and
  is sent after it has ended, from objects that may be gone; the null pointer through which the
  connections of a deleted server look services up; and the workers of the example client, which
  may run before the stub they call through exists.

  Recursion and fuel. No definition needs fuel. Loops that end are functions with a measure:
  \<open>buffers_read\<close> by the input left,
  \<open>write_n\<close> by the kernel's answers and the bytes left, \<open>threaded_loop\<close> by the bytes left to
  read, since an iteration that continues has consumed a header. Loops that may not end
  (\<open>double_until\<close>, \<open>read_loop\<close>, the parse loops) are partial functions into option, and the
  theorems say when they return; a call that does not return is the fault \<open>Hang\<close>.

  Parameters. The protobuf runtime, Boost.Asio and the cheetah reactor are not part of the
  repository: their answers are arguments of the definitions (\<open>pb_lib\<close>, error codes and bytes of
  completed operations, whether the reactor takes an event), and the kernel's are scripts. The
  user's messages and methods are values of \<open>message_api\<close> and \<open>rpc_method\<close>.

  Not modelled. \<open>_stderr_print\<close>, except that the arguments of its calls are evaluated (also when
  logging is switched off, since \<open>CARROT_LOG\<close> is then a cast of them to void). The fields a
  failed \<open>ParseFromArray\<close> may have set in its message. A \<open>done\<close> callback that calls back into
  the channel. The deletion of the asynchronous channel, and the accept that is pending when its
  server is deleted: both leave handlers that use a deleted object. When the objects that own
  buffers are deleted (shared pointers count them), so that
  of leaks only \<open>expand_packet_freed\<close> is said: what a destructor frees is the whole block. The
  reflection and shared-pointer accessors of rpc.pb.cc. Interleavings of two threads inside one
  iteration of the threaded server: by \<open>only_round\<close> an iteration reads and writes nothing but the
  thread's descriptor and \<open>errno\<close>, so they differ only when two threads have one descriptor, after
  the second close. \<open>close\<close> interrupted by a signal. Of the two \<open>main\<close> functions the output, and the loop of
  the client's reactor thread, which is the event system of the channel. That the workers of the example client
  call the channel from their own threads, while the reactor thread uses it, with no lock: calls and
  events are modelled one after the other.
\<close>

end
